(* ===== verification/Prelude.thy ===== *)
theory Prelude
  imports Main "HOL-Library.Word"
begin

text \<open>
  Shared vocabulary of the development: the Python values the sources compute with (bytes,
  text, slices, \<open>struct\<close> packing), exceptions as values, the outcome of a coroutine, and the
  lemma collections every component uses.

  \<^item> \<open>bytes\<close> is a list of 8-bit words; a \<open>bytearray\<close> is the same list, and every in-place change
    of the source returns the changed list.
  \<^item> \<open>pystr\<close> is a Python \<open>str\<close>: the list of its code points; \<open>u\<close> turns a literal into one.
  \<^item> \<open>exn\<close> is a raised exception: its class and the parts of its (f-string) message.
  \<^item> \<open>res\<close> is what a coroutine does with the input delivered so far: it returns, raises, or is
    still suspended at an \<open>await\<close> (\<open>Blocked\<close>).
\<close>

named_theorems py_slice \<open>normal forms of slices, slice assignment and struct packing\<close>
named_theorems res_simps \<open>case analysis on outcomes\<close>

section \<open>Bytes and text\<close>

type_synonym byte = "8 word"
type_synonym bytes = "byte list"
type_synonym pystr = "nat list"

definition u :: "string \<Rightarrow> pystr" where
  "u s = map of_char s"

text \<open>\<open>bytearray(n)\<close>: n zero bytes.\<close>

definition bytearray :: "nat \<Rightarrow> bytes" where
  "bytearray n = replicate n 0"

text \<open>\<open>xs[i:j]\<close> for \<open>0 \<le> i\<close> and \<open>0 \<le> j\<close>, clipped to the sequence as Python clips it.\<close>

definition slice :: "nat \<Rightarrow> nat \<Rightarrow> 'a list \<Rightarrow> 'a list" where
  "slice i j xs = drop i (take j xs)"

text \<open>\<open>xs[:-k]\<close> and \<open>xs[-k:]\<close> for \<open>0 < k\<close>; both clip when \<open>k\<close> exceeds the length.\<close>

definition slice_but_last :: "nat \<Rightarrow> 'a list \<Rightarrow> 'a list" where
  "slice_but_last k xs = take (length xs - k) xs"

definition slice_last :: "nat \<Rightarrow> 'a list \<Rightarrow> 'a list" where
  "slice_last k xs = drop (length xs - k) xs"

text \<open>\<open>buf[i:j] = data\<close> on a bytearray with \<open>i \<le> j\<close>: the slice is replaced, whatever the
  length of \<open>data\<close>.\<close>

definition slice_assign :: "nat \<Rightarrow> nat \<Rightarrow> 'a list \<Rightarrow> 'a list \<Rightarrow> 'a list" where
  "slice_assign i j data buf = take i buf @ data @ drop j buf"

lemma length_bytearray [simp]: "length (bytearray n) = n"
  by (simp add: bytearray_def)

lemma bytearray_eq_Nil [simp]: "bytearray n = [] \<longleftrightarrow> n = 0"
  by (simp add: bytearray_def)

lemma slice_0 [py_slice]: "slice 0 j xs = take j xs"
  by (simp add: slice_def)

lemma slice_take_drop: "slice i (i + k) xs = take k (drop i xs)"
  by (simp add: slice_def drop_take)

lemma slice_append [py_slice]:
  "length xs = i \<Longrightarrow> length ys = j - i \<Longrightarrow> i \<le> j \<Longrightarrow> slice i j (xs @ ys @ zs) = ys"
  by (simp add: slice_def)

lemma length_slice [simp]: "length (slice i j xs) = min j (length xs) - i"
  by (simp add: slice_def min_def)

lemma slice_but_last_append [py_slice]:
  "length ys = k \<Longrightarrow> slice_but_last k (xs @ ys) = xs"
  by (simp add: slice_but_last_def)

lemma slice_last_append [py_slice]: "length ys = k \<Longrightarrow> slice_last k (xs @ ys) = ys"
  by (simp add: slice_last_def)

lemma slice_but_last_last: "slice_but_last k xs @ slice_last k xs = xs"
  by (simp add: slice_but_last_def slice_last_def)

lemma slice_assign_prefix [py_slice]:
  "slice_assign 0 j data buf = data @ drop j buf"
  by (simp add: slice_assign_def)

lemma length_slice_assign [simp]:
  "length (slice_assign i j data buf) = min i (length buf) + length data + (length buf - j)"
  by (simp add: slice_assign_def min.commute)

section \<open>Exceptions and outcomes\<close>

datatype exn_class =
    ConnectionError | ConnectionClosedError | ListenerClosedError | TimeoutError
  | ValueError | RuntimeError | StructError | AssertionError | CancelledError
  | IndexError | KeyError | TypeError | AttributeError | OSError
  | TimeoutExpired | CalledProcessError | TestFailed

datatype exn = Exn exn_class "exn_part list"
and exn_part = Txt string | Num nat | Raw bytes | Str pystr | Exc exn

primrec exn_class_of :: "exn \<Rightarrow> exn_class" where
  "exn_class_of (Exn c ps) = c"

text \<open>\<open>except Exception\<close> catches everything but a cancellation and a failure declared by the test framework.\<close>

definition is_exception :: "exn \<Rightarrow> bool" where
  "is_exception e \<longleftrightarrow> exn_class_of e \<noteq> CancelledError \<and> exn_class_of e \<noteq> TestFailed"

datatype 'a res = Return 'a | Raise exn | Blocked

fun res_bind :: "'s \<times> 'a res \<Rightarrow> ('s \<Rightarrow> 'a \<Rightarrow> 's \<times> 'b res) \<Rightarrow> 's \<times> 'b res" where
  "res_bind (s, Return a) f = f s a"
| "res_bind (s, Raise e) f = (s, Raise e)"
| "res_bind (s, Blocked) f = (s, Blocked)"

lemma res_bind_Return_iff [res_simps]:
  "res_bind m f = (s', Return b) \<longleftrightarrow> (\<exists>s a. m = (s, Return a) \<and> f s a = (s', Return b))"
  by (cases "(m, f)" rule: res_bind.cases) auto

fun bind_res :: "'a res \<Rightarrow> ('a \<Rightarrow> 'b res) \<Rightarrow> 'b res" where
  "bind_res (Return a) f = f a"
| "bind_res (Raise e) f = Raise e"
| "bind_res Blocked f = Blocked"

lemma bind_res_Return_iff [res_simps]:
  "bind_res m f = Return b \<longleftrightarrow> (\<exists>a. m = Return a \<and> f a = Return b)"
  by (cases m) auto

lemma bind_res_not_Blocked [res_simps]:
  "bind_res m f = Blocked \<longleftrightarrow> m = Blocked \<or> (\<exists>a. m = Return a \<and> f a = Blocked)"
  by (cases m) auto

section \<open>Big-endian packing\<close>

text \<open>\<open>struct.pack("!H" | "!I" | "!Q", n)\<close> writes 2, 4 or 8 bytes, most significant first, and
  raises \<open>struct.error\<close> when the number does not fit; \<open>struct.unpack\<close> raises unless it is given
  exactly that many bytes.\<close>

primrec be_bytes :: "nat \<Rightarrow> nat \<Rightarrow> bytes" where
  "be_bytes 0 n = []"
| "be_bytes (Suc k) n = be_bytes k (n div 256) @ [of_nat (n mod 256)]"

definition be_val :: "bytes \<Rightarrow> nat" where
  "be_val bs = foldl (\<lambda>a b. a * 256 + unat b) 0 bs"

definition struct_error :: exn where
  "struct_error = Exn StructError [Txt ''struct.error'']"

definition struct_pack :: "nat \<Rightarrow> nat \<Rightarrow> bytes res" where
  "struct_pack k n = (if n < 256 ^ k then Return (be_bytes k n) else Raise struct_error)"

definition struct_unpack :: "nat \<Rightarrow> bytes \<Rightarrow> nat res" where
  "struct_unpack k bs = (if length bs = k then Return (be_val bs) else Raise struct_error)"

text \<open>\<open>struct.pack_into(fmt, buf, off, n)\<close>: overwrites in place, and raises when the field does not fit
  in the buffer.\<close>

definition struct_pack_into :: "nat \<Rightarrow> bytes \<Rightarrow> nat \<Rightarrow> nat \<Rightarrow> bytes res" where
  "struct_pack_into k buf off n =
     (if n < 256 ^ k \<and> off + k \<le> length buf
      then Return (slice_assign off (off + k) (be_bytes k n) buf) else Raise struct_error)"

lemma unat_byte: "unat (b :: byte) < 256"
  using unsigned_less [of b] by simp

lemma length_be_bytes [simp]: "length (be_bytes k n) = k"
  by (induction k arbitrary: n) auto

lemma be_val_Nil [simp]: "be_val [] = 0"
  by (simp add: be_val_def)

lemma be_val_snoc [simp]: "be_val (bs @ [b]) = be_val bs * 256 + unat b"
  by (simp add: be_val_def)

lemma be_val_be_bytes: "be_val (be_bytes k n) = n mod 256 ^ k"
proof (induction k arbitrary: n)
  case (Suc k)
  have "unat (of_nat (n mod 256) :: byte) = n mod 256"
    by (simp add: unat_of_nat)
  with Suc show ?case
    by (simp add: mod_mult2_eq)
qed simp

lemma be_val_bound: "be_val bs < 256 ^ length bs"
proof (induction bs rule: rev_induct)
  case (snoc b bs)
  with unat_byte [of b] show ?case by simp
qed simp

lemma be_val_Cons: "be_val (b # bs) = unat b * 256 ^ length bs + be_val bs"
proof (induction bs rule: rev_induct)
  case (snoc x bs)
  have "be_val (b # bs @ [x]) = be_val (b # bs) * 256 + unat x" using be_val_snoc [of "b # bs" x] by simp
  with snoc show ?case by simp
qed (simp add: be_val_def)

lemma be_bytes_be_val: "be_bytes (length bs) (be_val bs) = bs"
proof (induction bs rule: rev_induct)
  case (snoc b bs)
  from unat_byte [of b] have "(be_val bs * 256 + unat b) div 256 = be_val bs"
    and "(be_val bs * 256 + unat b) mod 256 = unat b"
    by simp_all
  with snoc show ?case by simp
qed simp

lemma struct_unpack_pack [py_slice]:
  "n < 256 ^ k \<Longrightarrow> struct_unpack k (be_bytes k n) = Return n"
  by (simp add: struct_unpack_def be_val_be_bytes)

lemma struct_pack_Return [res_simps]:
  "struct_pack k n = Return bs \<longleftrightarrow> n < 256 ^ k \<and> bs = be_bytes k n"
  by (auto simp: struct_pack_def)

lemma struct_unpack_Return:
  "struct_unpack k bs = Return n \<longleftrightarrow> length bs = k \<and> n = be_val bs"
  by (auto simp: struct_unpack_def)

text \<open>Reading a packed field off the front of a byte list.\<close>

lemma struct_unpack_take [res_simps]:
  "struct_unpack k (take k bs) = Return n \<longleftrightarrow> n < 256 ^ k \<and> (\<exists>rest. bs = be_bytes k n @ rest)"
proof
  assume a: "struct_unpack k (take k bs) = Return n"
  then have len: "length (take k bs) = k" and n: "n = be_val (take k bs)"
    by (auto simp: struct_unpack_Return)
  then have "be_bytes k n = take k bs"
    using be_bytes_be_val [of "take k bs"] by simp
  then have "bs = be_bytes k n @ drop k bs" by simp
  moreover have "n < 256 ^ k"
    using be_val_bound [of "take k bs"] len n by simp
  ultimately show "n < 256 ^ k \<and> (\<exists>rest. bs = be_bytes k n @ rest)" by blast
qed (auto simp: struct_unpack_pack)

lemma be_bytes_inject:
  "m < 256 ^ k \<Longrightarrow> n < 256 ^ k \<Longrightarrow> be_bytes k m = be_bytes k n \<longleftrightarrow> m = n"
  by (metis be_val_be_bytes mod_less)

section \<open>A list that changes in one place\<close>

lemma nth_update_at: "k < length xs \<Longrightarrow> xs[i := x] ! k = (if k = i then x else xs ! k)"
  by simp

lemma in_set_updateD: "y \<in> set (xs[i := x]) \<Longrightarrow> y = x \<or> y \<in> set xs"
  using set_update_subset_insert [of xs i x] by blast

lemma sum_list_map_update:
  fixes f :: "'a \<Rightarrow> 'b :: comm_monoid_add"
  shows "k < length xs \<Longrightarrow>
    sum_list (map f (xs[k := x])) + f (xs ! k) = sum_list (map f xs) + f x"
proof (induction xs arbitrary: k)
  case (Cons y ys)
  then show ?case by (cases k) (simp_all add: ac_simps)
qed simp

end
