(* ===== verification/ConnIface.thy ===== *)
theory ConnIface
  imports Prelude
begin

text \<open>
  The connection interface of \<^verbatim>\<open>uniconn/conn.py\<close>. An implementation of the abstract class
  \<^verbatim>\<open>Conn\<close> is a value of the record \<open>conn_ops\<close>: its methods as functions on the state of one
  connection. \<open>read\<close> gets the caller's buffer and returns the filled buffer with the byte count.

  Two contracts, each a locale:
  \<^item> \<open>conn_stream\<close>: an open connection delivers the bytes it holds in order, in pieces of any
    positive size, and puts every written byte on the wire in order. Frame reading, the
    handshake and the control envelopes are proved against it, once for every transport.
  \<^item> \<open>conn_shut\<close>: a closed connection stays closed, refuses reads and writes, and closing it
    again does nothing.
\<close>

record addr =
  network :: pystr
  address :: pystr

record 's conn_ops =
  op_read :: "bytes \<Rightarrow> 's \<Rightarrow> 's \<times> (bytes \<times> nat) res"
  op_write :: "bytes \<Rightarrow> 's \<Rightarrow> 's \<times> nat res"
  op_close :: "'s \<Rightarrow> 's \<times> unit res"
  op_local_addr :: "'s \<Rightarrow> addr option"
  op_remote_addr :: "'s \<Rightarrow> addr option"

text \<open>The three exceptions of \<^verbatim>\<open>uniconn/errors.py\<close>, with the messages their constructors build.\<close>

definition connection_closed :: exn where
  "connection_closed = Exn ConnectionClosedError [Txt ''connection is closed'']"

definition listener_closed :: exn where
  "listener_closed = Exn ListenerClosedError [Txt ''listener is closed'']"

definition timeout_error :: "pystr \<Rightarrow> exn" where
  "timeout_error operation = Exn TimeoutError [Str operation, Txt '' timed out'']"

section \<open>Filling the caller's buffer\<close>

text \<open>The body every buffering transport shares: \<open>n = min(len(buf), len(data)); buf[:n] = data[:n]\<close>,
  with what is left of \<open>data\<close>.\<close>

definition fill_buf :: "bytes \<Rightarrow> bytes \<Rightarrow> (bytes \<times> nat) \<times> bytes" where
  "fill_buf buf data =
     (let n = min (length buf) (length data)
      in ((slice_assign 0 n (take n data) buf, n), drop n data))"

lemma fill_buf_eq:
  "fill_buf buf data =
     (let n = min (length buf) (length data) in ((take n data @ drop n buf, n), drop n data))"
  by (simp add: fill_buf_def py_slice)

lemma fill_buf_length: "fill_buf buf data = ((b, n), rest) \<Longrightarrow> length b = length buf"
  by (auto simp: fill_buf_eq Let_def)

lemma fill_buf_some:
  assumes "data \<noteq> []" "buf \<noteq> []"
  obtains k where "0 < k" "k \<le> length buf" "k \<le> length data"
    "fill_buf buf data = ((take k data @ drop k buf, k), drop k data)"
proof (rule that [of "min (length buf) (length data)"])
  show "fill_buf buf data = ((take (min (length buf) (length data)) data @ drop (min (length buf) (length data)) buf,
      min (length buf) (length data)), drop (min (length buf) (length data)) data)"
    by (simp only: fill_buf_eq Let_def)
qed (use assms in auto)

section \<open>The stream contract\<close>

locale conn_stream =
  fixes ops :: "'s conn_ops"
    and link :: "'s \<Rightarrow> bytes \<Rightarrow> bytes \<Rightarrow> bool"
    and wok :: "'s \<Rightarrow> nat list \<Rightarrow> bool"
  assumes read_some: "\<lbrakk>link s inb outb; inb \<noteq> []; buf \<noteq> []\<rbrakk> \<Longrightarrow>
      \<exists>k s'. 0 < k \<and> k \<le> length buf \<and> k \<le> length inb \<and>
        op_read ops buf s = (s', Return (take k inb @ drop k buf, k)) \<and>
        link s' (drop k inb) outb \<and> (\<forall>ns. wok s ns \<longrightarrow> wok s' ns)"
    and write_all: "\<lbrakk>link s inb outb; wok s (length data # ns)\<rbrakk> \<Longrightarrow>
      \<exists>s'. op_write ops data s = (s', Return (length data)) \<and>
        link s' inb (outb @ data) \<and> wok s' ns"
begin

lemma read_someE:
  assumes "link s inb outb" "inb \<noteq> []" "buf \<noteq> []"
  obtains k s' where "0 < k" "k \<le> length buf" "k \<le> length inb"
    "op_read ops buf s = (s', Return (take k inb @ drop k buf, k))"
    "link s' (drop k inb) outb" "\<And>ns. wok s ns \<Longrightarrow> wok s' ns"
  using read_some [OF assms] by blast

lemma write_allE:
  assumes "link s inb outb" "wok s (length data # ns)"
  obtains s' where "op_write ops data s = (s', Return (length data))"
    "link s' inb (outb @ data)" "wok s' ns"
  using write_all [OF assms] by blast

text \<open>A one-byte buffer receives exactly the next byte of the stream.\<close>

lemma read_one_byte:
  assumes "link s (b # inb) outb"
  obtains s' where "op_read ops [x] s = (s', Return ([b], 1))" "link s' inb outb"
    "\<And>ns. wok s ns \<Longrightarrow> wok s' ns"
proof -
  from read_someE [OF assms, of "[x]"] obtain k s' where k: "0 < k" "k \<le> length [x]"
    and r: "op_read ops [x] s = (s', Return (take k (b # inb) @ drop k [x], k))"
    and l: "link s' (drop k (b # inb)) outb" and w: "\<And>ns. wok s ns \<Longrightarrow> wok s' ns"
    by auto
  from k have "k = 1" by simp
  with r l w show thesis by (intro that [of s']) auto
qed

end

section \<open>The closing contract\<close>

locale conn_shut =
  fixes ops :: "'s conn_ops"
    and usable :: "'s \<Rightarrow> bool"
    and shut :: "'s \<Rightarrow> bool"
  assumes close_shuts: "usable s \<Longrightarrow> shut (fst (op_close ops s))"
    and shut_read: "shut s \<Longrightarrow> \<exists>e. op_read ops buf s = (s, Raise e)"
    and shut_write: "shut s \<Longrightarrow> \<exists>e. op_write ops data s = (s, Raise e)"
    and shut_close: "shut s \<Longrightarrow> op_close ops s = (s, Return ())"

datatype conn_call = CallRead bytes | CallWrite bytes | CallClose

text \<open>A sequence of calls by one client: the final state and what each call did.\<close>

fun run_calls :: "'s conn_ops \<Rightarrow> conn_call list \<Rightarrow> 's \<Rightarrow> 's \<times> (bytes \<times> nat) res list" where
  "run_calls ops [] s = (s, [])"
| "run_calls ops (CallRead buf # cs) s =
     (let (s1, r) = op_read ops buf s; (s2, rs) = run_calls ops cs s1 in (s2, r # rs))"
| "run_calls ops (CallWrite d # cs) s =
     (let (s1, r) = op_write ops d s; (s2, rs) = run_calls ops cs s1
      in (s2, map_res (\<lambda>n. ([], n)) r # rs))"
| "run_calls ops (CallClose # cs) s =
     (let (s1, r) = op_close ops s; (s2, rs) = run_calls ops cs s1
      in (s2, map_res (\<lambda>_. ([], 0)) r # rs))"

context conn_stream
begin

lemma writes_all:
  assumes "link s inb outb" "wok s (map length ms @ ns)"
  obtains s' where "run_calls ops (map CallWrite ms) s = (s', map (\<lambda>m. Return ([], length m)) ms)"
    "link s' inb (outb @ concat ms)" "wok s' ns"
  using assms
proof (induction ms arbitrary: s outb thesis)
  case (Cons m ms)
  have "wok s (length m # map length ms @ ns)" using Cons.prems(3) by simp
  then obtain s1 where s1: "op_write ops m s = (s1, Return (length m))"
    "link s1 inb (outb @ m)" "wok s1 (map length ms @ ns)"
    using write_allE [OF Cons.prems(2)] by blast
  obtain s2 where "run_calls ops (map CallWrite ms) s1 = (s2, map (\<lambda>m. Return ([], length m)) ms)"
    "link s2 inb ((outb @ m) @ concat ms)" "wok s2 ns"
    using Cons.IH [OF _ s1(2,3)] by blast
  with s1 show ?case by (intro Cons.prems(1) [of s2]) simp_all
qed simp

end

text \<open>What the calls after a close may do: every read and write raises, every close returns.\<close>

definition refused :: "conn_call \<Rightarrow> (bytes \<times> nat) res \<Rightarrow> bool" where
  "refused c r = (case c of CallClose \<Rightarrow> r = Return ([], 0) | _ \<Rightarrow> (\<exists>e. r = Raise e))"

context conn_shut
begin

lemma shut_run:
  "shut s \<Longrightarrow> fst (run_calls ops cs s) = s \<and> list_all2 refused cs (snd (run_calls ops cs s))"
proof (induction cs)
  case (Cons c cs)
  show ?case
  proof (cases c)
    case (CallRead buf)
    obtain e where "op_read ops buf s = (s, Raise e)"
      using shut_read Cons.prems by blast
    with Cons CallRead show ?thesis by (simp add: refused_def split_beta)
  next
    case (CallWrite d)
    obtain e where "op_write ops d s = (s, Raise e)"
      using shut_write Cons.prems by blast
    with Cons CallWrite show ?thesis by (simp add: refused_def split_beta)
  next
    case CallClose
    with Cons shut_close show ?thesis by (simp add: refused_def split_beta)
  qed
qed simp

lemma close_then_refused:
  assumes "usable s"
  shows "run_calls ops (CallClose # cs) s = (s', r # rs) \<Longrightarrow> shut s' \<and> list_all2 refused cs rs"
  using close_shuts [OF assms] shut_run [of "fst (op_close ops s)" cs]
  by (auto simp: split_beta)


end

end
