(* ===== verification/PyText.thy ===== *)
theory PyText
  imports Prelude
begin

text \<open>
  Text as the sources use it: \<open>str.encode("utf-8")\<close>, strict \<open>bytes.decode("utf-8")\<close>, the decimal
  spelling of an integer in an f-string, hexadecimal text (\<open>bytes.hex\<close>, \<open>bytes.fromhex\<close>) and
  splitting an address at its last colon.
\<close>

section \<open>UTF-8\<close>

definition scalar :: "nat \<Rightarrow> bool" where
  "scalar c \<longleftrightarrow> c < 0x110000 \<and> \<not> (0xD800 \<le> c \<and> c < 0xE000)"

definition utf8_char :: "nat \<Rightarrow> nat list" where
  "utf8_char c =
     (if c < 0x80 then [c]
      else if c < 0x800 then [0xC0 + c div 64, 0x80 + c mod 64]
      else if c < 0x10000 then [0xE0 + c div 4096, 0x80 + c div 64 mod 64, 0x80 + c mod 64]
      else [0xF0 + c div 262144, 0x80 + c div 4096 mod 64, 0x80 + c div 64 mod 64, 0x80 + c mod 64])"

definition unicode_error :: exn where
  "unicode_error = Exn ValueError [Txt ''utf-8 codec'']"

definition utf8_encode :: "pystr \<Rightarrow> bytes res" where
  "utf8_encode s =
     (if list_all scalar s then Return (map of_nat (concat (map utf8_char s)))
      else Raise unicode_error)"

definition cont_byte :: "nat \<Rightarrow> bool" where
  "cont_byte b \<longleftrightarrow> 0x80 \<le> b \<and> b < 0xC0"

fun utf8_nats :: "nat list \<Rightarrow> pystr option" where
  "utf8_nats [] = Some []"
| "utf8_nats (b0 # bs) =
     (if b0 < 0x80 then map_option ((#) b0) (utf8_nats bs)
      else if 0xC2 \<le> b0 \<and> b0 < 0xE0 then
        (case bs of
           b1 # r \<Rightarrow>
             if cont_byte b1
             then map_option ((#) ((b0 - 0xC0) * 64 + (b1 - 0x80))) (utf8_nats r) else None
         | _ \<Rightarrow> None)
      else if 0xE0 \<le> b0 \<and> b0 < 0xF0 then
        (case bs of
           b1 # b2 # r \<Rightarrow>
             (let c = (b0 - 0xE0) * 4096 + (b1 - 0x80) * 64 + (b2 - 0x80)
              in if cont_byte b1 \<and> cont_byte b2 \<and> 0x800 \<le> c \<and> scalar c
                 then map_option ((#) c) (utf8_nats r) else None)
         | _ \<Rightarrow> None)
      else if 0xF0 \<le> b0 \<and> b0 < 0xF5 then
        (case bs of
           b1 # b2 # b3 # r \<Rightarrow>
             (let c = (b0 - 0xF0) * 262144 + (b1 - 0x80) * 4096 + (b2 - 0x80) * 64 + (b3 - 0x80)
              in if cont_byte b1 \<and> cont_byte b2 \<and> cont_byte b3 \<and> 0x10000 \<le> c \<and> scalar c
                 then map_option ((#) c) (utf8_nats r) else None)
         | _ \<Rightarrow> None)
      else None)"

definition utf8_decode :: "bytes \<Rightarrow> pystr res" where
  "utf8_decode bs =
     (case utf8_nats (map unat bs) of None \<Rightarrow> Raise unicode_error | Some s \<Rightarrow> Return s)"

lemma utf8_char_small: "scalar c \<Longrightarrow> b \<in> set (utf8_char c) \<Longrightarrow> b < 256"
  by (auto simp: utf8_char_def scalar_def split: if_splits)

lemma base64_3: "c div 4096 * 4096 + c div 64 mod 64 * 64 + c mod 64 = (c :: nat)"
proof -
  have "c div 4096 = c div 64 div 64"
    by (simp add: div_mult2_eq [of c 64 64, simplified])
  then have "(c div 4096 * 64 + c div 64 mod 64) * 64 + c mod 64 = c"
    by simp
  then show ?thesis by (simp add: algebra_simps)
qed

lemma base64_4:
  "c div 262144 * 262144 + c div 4096 mod 64 * 4096 + c div 64 mod 64 * 64 + c mod 64 = (c :: nat)"
proof -
  have "c div 262144 = c div 64 div 4096" and "c div 4096 = c div 64 div 64"
    by (simp_all add: div_mult2_eq [of c 64 4096, simplified] div_mult2_eq [of c 64 64, simplified])
  then have "(c div 262144 * 4096 + c div 4096 mod 64 * 64 + c div 64 mod 64) * 64 + c mod 64 = c"
    using base64_3 [of "c div 64"] by simp
  then show ?thesis by (simp add: algebra_simps)
qed

lemma utf8_nats_char:
  assumes "scalar c"
  shows "utf8_nats (utf8_char c @ bs) = map_option ((#) c) (utf8_nats bs)"
proof -
  consider "c < 0x80" | "0x80 \<le> c" "c < 0x800" | "0x800 \<le> c" "c < 0x10000" | "0x10000 \<le> c"
    by linarith
  then show ?thesis
  proof cases
    case 2
    then have "0xC2 \<le> 0xC0 + c div 64" "0xC0 + c div 64 < 0xE0" "cont_byte (0x80 + c mod 64)"
      by (auto simp: cont_byte_def)
    with 2 show ?thesis by (simp add: utf8_char_def)
  next
    case 3
    have "c div 4096 * 4096 + c div 64 mod 64 * 64 + c mod 64 = c"
      by (rule base64_3)
    moreover from 3 have "0xE0 + c div 4096 < 0xF0" by auto
    ultimately show ?thesis
      using 3 assms by (simp add: utf8_char_def cont_byte_def Let_def)
  next
    case 4
    have "c div 262144 * 262144 + c div 4096 mod 64 * 4096 + c div 64 mod 64 * 64 + c mod 64 = c"
      by (rule base64_4)
    moreover from assms have "0xF0 + c div 262144 < 0xF5" by (auto simp: scalar_def)
    ultimately show ?thesis
      using 4 assms by (simp add: utf8_char_def cont_byte_def Let_def)
  qed (simp add: utf8_char_def)
qed

lemma utf8_nats_concat:
  "list_all scalar s \<Longrightarrow> utf8_nats (concat (map utf8_char s)) = Some s"
  by (induction s) (simp_all add: utf8_nats_char)

lemma utf8_decode_encode: "utf8_encode s = Return bs \<Longrightarrow> utf8_decode bs = Return s"
proof -
  assume "utf8_encode s = Return bs"
  then have s: "list_all scalar s" and bs: "bs = map of_nat (concat (map utf8_char s))"
    by (auto simp: utf8_encode_def split: if_splits)
  have "map unat bs = concat (map utf8_char s)"
  proof -
    have "unat (of_nat b :: byte) = b" if "b \<in> set (concat (map utf8_char s))" for b
      using that s utf8_char_small by (fastforce simp: unat_of_nat list_all_iff)
    then show ?thesis by (simp add: bs map_idI del: map_concat set_concat)
  qed
  with s show ?thesis by (simp add: utf8_decode_def utf8_nats_concat)
qed

lemma utf8_encode_ascii:
  "list_all (\<lambda>c. c < 0x80) s \<Longrightarrow> utf8_encode s = Return (map of_nat s)"
proof -
  assume s: "list_all (\<lambda>c. c < 0x80) s"
  then have "list_all scalar s" and "concat (map utf8_char s) = s"
    by (induction s) (simp_all add: scalar_def utf8_char_def)
  then show ?thesis by (simp add: utf8_encode_def)
qed

section \<open>Numbers and addresses\<close>

text \<open>\<open>f"{host}:{port}"\<close>.\<close>

fun dec_digits :: "nat \<Rightarrow> pystr" where
  "dec_digits n = (if n < 10 then [48 + n] else dec_digits (n div 10) @ [48 + n mod 10])"

declare dec_digits.simps [simp del]

definition host_port :: "pystr \<Rightarrow> nat \<Rightarrow> pystr" where
  "host_port host port = host @ [58] @ dec_digits port"

text \<open>\<open>address.rsplit(":", 1)\<close> unpacked into two names: a \<open>ValueError\<close> without a colon.\<close>

definition rsplit_colon :: "pystr \<Rightarrow> (pystr \<times> pystr) res" where
  "rsplit_colon s =
     (if 58 \<in> set s
      then Return (rev (tl (dropWhile (\<lambda>c. c \<noteq> 58) (rev s))), rev (takeWhile (\<lambda>c. c \<noteq> 58) (rev s)))
      else Raise (Exn ValueError [Txt ''not enough values to unpack'']))"

text \<open>\<open>int(s)\<close> on ASCII text: surrounding white space, a sign, decimal digits with single underscores
  between them.\<close>

definition ascii_space :: "nat \<Rightarrow> bool" where
  "ascii_space c \<longleftrightarrow> c = 32 \<or> (9 \<le> c \<and> c \<le> 13) \<or> (28 \<le> c \<and> c \<le> 31)"

definition is_digit :: "nat \<Rightarrow> bool" where
  "is_digit c \<longleftrightarrow> 48 \<le> c \<and> c \<le> 57"

fun digits_val :: "int \<Rightarrow> pystr \<Rightarrow> int option" where
  "digits_val acc [] = None"
| "digits_val acc [c] = (if is_digit c then Some (10 * acc + int (c - 48)) else None)"
| "digits_val acc (c # d # cs) =
     (if \<not> is_digit c then None
      else if d = 95 then digits_val (10 * acc + int (c - 48)) cs
      else digits_val (10 * acc + int (c - 48)) (d # cs))"

definition strip :: "pystr \<Rightarrow> pystr" where
  "strip s = rev (dropWhile ascii_space (rev (dropWhile ascii_space s)))"

definition int_error :: "pystr \<Rightarrow> exn" where
  "int_error s = Exn ValueError [Txt ''invalid literal for int() with base 10: '', Str s]"

definition py_int :: "pystr \<Rightarrow> int res" where
  "py_int s =
     (let t = strip s;
          r = (case t of
                 c # cs \<Rightarrow> if c = 45 then map_option uminus (digits_val 0 cs)
                           else if c = 43 then digits_val 0 cs
                           else digits_val 0 t
               | [] \<Rightarrow> None)
      in case r of Some i \<Rightarrow> Return i | None \<Rightarrow> Raise (int_error s))"

definition split_address :: "pystr \<Rightarrow> (pystr \<times> int) res" where
  "split_address a =
     bind_res (rsplit_colon a) (\<lambda>(host, port_str).
     bind_res (py_int port_str) (\<lambda>port. Return (host, port)))"

lemma digits_val_digits:
  "list_all is_digit xs \<Longrightarrow> xs \<noteq> [] \<Longrightarrow>
     digits_val acc xs = Some (foldl (\<lambda>a c. 10 * a + int (c - 48)) acc xs)"
  by (induction acc xs rule: digits_val.induct) (auto simp: is_digit_def)

lemma dec_digits_all: "list_all is_digit (dec_digits n) \<and> dec_digits n \<noteq> []"
proof (induction n rule: dec_digits.induct)
  case (1 n)
  have "is_digit (48 + n mod 10)" "n < 10 \<Longrightarrow> is_digit (48 + n)"
    unfolding is_digit_def by presburger+
  with 1 show ?case by (subst (1 2) dec_digits.simps) auto
qed

lemma dec_digits_val: "foldl (\<lambda>a c. 10 * a + int (c - 48)) 0 (dec_digits n) = int n"
proof (induction n rule: dec_digits.induct)
  case (1 n)
  have "10 * int (n div 10) + int (n mod 10) = int n"
    by (simp add: zdiv_int zmod_int)
  with 1 show ?case
    by (subst dec_digits.simps) auto
qed

lemma strip_digits: "list_all is_digit xs \<Longrightarrow> strip xs = xs"
proof -
  have no: "dropWhile ascii_space ys = ys" if "list_all is_digit ys" for ys
    using that by (cases ys) (auto simp: ascii_space_def is_digit_def)
  assume "list_all is_digit xs"
  with no [of xs] no [of "rev xs"] show ?thesis by (simp add: strip_def)
qed

lemma py_int_dec_digits: "py_int (dec_digits n) = Return (int n)"
proof -
  obtain c cs where c: "dec_digits n = c # cs" using dec_digits_all by (cases "dec_digits n") auto
  then have "is_digit c" using dec_digits_all [of n] by simp
  then have "c \<noteq> 45" "c \<noteq> 43" by (auto simp: is_digit_def)
  then show ?thesis
    using dec_digits_all [of n] digits_val_digits [of "dec_digits n" 0] dec_digits_val [of n]
    by (simp add: py_int_def strip_digits c)
qed

lemma rsplit_host_port: "rsplit_colon (host_port host port) = Return (host, dec_digits port)"
proof -
  have "58 \<notin> set (dec_digits port)"
    using dec_digits_all [of port] by (auto simp: list_all_iff is_digit_def)
  then have "\<And>c. c \<in> set (rev (dec_digits port)) \<Longrightarrow> c \<noteq> 58" by auto
  then have "takeWhile (\<lambda>c. c \<noteq> 58) (rev (dec_digits port) @ 58 # rev host) = rev (dec_digits port)"
    "dropWhile (\<lambda>c. c \<noteq> 58) (rev (dec_digits port) @ 58 # rev host) = 58 # rev host"
    by (subst takeWhile_append2 dropWhile_append2; simp)+
  then show ?thesis
    by (simp add: rsplit_colon_def host_port_def)
qed

text \<open>A dialer reads back the address a listener or a connection prints, IPv6 hosts included.\<close>

lemma split_address_host_port: "split_address (host_port host port) = Return (host, int port)"
  by (simp add: split_address_def rsplit_host_port py_int_dec_digits)

section \<open>Hexadecimal text\<close>

text \<open>\<open>bytes.hex()\<close> and \<open>bytes.fromhex\<close>, which skips ASCII white space between bytes.\<close>

definition hex_digit :: "nat \<Rightarrow> nat" where
  "hex_digit n = (if n < 10 then 48 + n else 87 + n)"

definition hex_val :: "nat \<Rightarrow> nat option" where
  "hex_val c =
     (if 48 \<le> c \<and> c \<le> 57 then Some (c - 48)
      else if 97 \<le> c \<and> c \<le> 102 then Some (c - 87)
      else if 65 \<le> c \<and> c \<le> 70 then Some (c - 55)
      else None)"

definition bytes_hex :: "bytes \<Rightarrow> pystr" where
  "bytes_hex bs = concat (map (\<lambda>b. [hex_digit (unat b div 16), hex_digit (unat b mod 16)]) bs)"

definition hex_space :: "nat \<Rightarrow> bool" where
  "hex_space c \<longleftrightarrow> c = 32 \<or> (9 \<le> c \<and> c \<le> 13)"

fun hex_pairs :: "pystr \<Rightarrow> bytes option" where
  "hex_pairs [] = Some []"
| "hex_pairs (c # cs) =
     (if hex_space c then hex_pairs cs
      else case cs of
        [] \<Rightarrow> None
      | d # ds \<Rightarrow>
          (case (hex_val c, hex_val d) of
             (Some h, Some l) \<Rightarrow> map_option ((#) (of_nat (16 * h + l))) (hex_pairs ds)
           | _ \<Rightarrow> None))"

definition bytes_fromhex :: "pystr \<Rightarrow> bytes res" where
  "bytes_fromhex s =
     (case hex_pairs s of
        Some bs \<Rightarrow> Return bs
      | None \<Rightarrow> Raise (Exn ValueError [Txt ''non-hexadecimal number found in fromhex() arg'']))"

lemma hex_digit_props:
  assumes "n < 16"
  shows "hex_val (hex_digit n) = Some n" "\<not> hex_space (hex_digit n)"
    "32 \<le> hex_digit n" "hex_digit n < 127" "hex_digit n \<noteq> 34" "hex_digit n \<noteq> 92"
  using assms by (auto simp: hex_val_def hex_digit_def hex_space_def)

lemma fromhex_hex: "bytes_fromhex (bytes_hex bs) = Return bs"
proof -
  have "hex_pairs (bytes_hex bs) = Some bs"
  proof (induction bs)
    case (Cons b bs)
    have "unat b div 16 < 16" "unat b mod 16 < 16" using unat_byte [of b] by auto
    with Cons show ?case by (simp add: bytes_hex_def hex_digit_props)
  qed (simp add: bytes_hex_def)
  then show ?thesis by (simp add: bytes_fromhex_def)
qed

lemma bytes_hex_scalar: "list_all scalar (bytes_hex bs)"
proof -
  have "scalar (hex_digit (unat b div 16)) \<and> scalar (hex_digit (unat b mod 16))" for b :: byte
  proof -
    have "hex_digit n < 127" if "n < 16" for n using hex_digit_props [OF that] by simp
    moreover have "unat b div 16 < 16" "unat b mod 16 < 16" using unat_byte [of b] by auto
    ultimately have "hex_digit (unat b div 16) < 127" "hex_digit (unat b mod 16) < 127" by blast+
    then show ?thesis by (simp add: scalar_def)
  qed
  then show ?thesis by (simp add: bytes_hex_def list_all_iff)
qed

lemma u_eq: "u s = u t \<longleftrightarrow> s = t"
  by (simp add: u_def inj_map_eq_map inj_def)

lemma u_scalar: "list_all scalar (u s)"
proof -
  have "scalar (of_char c)" for c :: char
  proof -
    have "of_char c < (256 :: nat)" by (metis of_char_mod_256 mod_less_divisor zero_less_numeral)
    then show ?thesis unfolding scalar_def by linarith
  qed
  then show ?thesis by (simp add: u_def list_all_iff)
qed

end
