(* ===== verification/AsyncioStreams.thy ===== *)
theory AsyncioStreams
  imports ConnIface PyText
begin

text \<open>
  The part of the standard library's \<^verbatim>\<open>asyncio\<close> streams and queues that the transports use.

  \<^item> A \<open>stream_reader\<close> holds the segments that arrive, in order, as the successive reads find them,
    and what comes after them: nothing yet, end of file, or an error. \<open>read(n)\<close> returns at most \<open>n\<close>
    bytes of the next segment.
  \<^item> A \<open>stream_writer\<close> holds the bytes put on the wire, whether \<open>close\<close> was called, the error a
    lost peer leaves for \<open>drain\<close> and \<open>wait_closed\<close>, and the socket addresses.
  \<^item> \<open>queue_get\<close> is \<^verbatim>\<open>asyncio.Queue.get\<close> on an unbounded queue.
\<close>

section \<open>Reader\<close>

datatype stream_tail = Live | Eof | Failed exn

record stream_reader =
  segs :: "bytes list"
  rtail :: stream_tail

definition reader_ok :: "stream_reader \<Rightarrow> bool" where
  "reader_ok r \<longleftrightarrow> [] \<notin> set (segs r)"

definition sr_read :: "nat \<Rightarrow> stream_reader \<Rightarrow> stream_reader \<times> bytes res" where
  "sr_read n r =
     (case segs r of
        [] \<Rightarrow>
          (case rtail r of
             Failed e \<Rightarrow> (r, Raise e)
           | Eof \<Rightarrow> (r, Return [])
           | Live \<Rightarrow> (r, if n = 0 then Return [] else Blocked))
      | seg # rest \<Rightarrow>
          (r\<lparr>segs := (if drop n seg = [] then rest else drop n seg # rest)\<rparr>, Return (take n seg)))"

lemma sr_read_some:
  assumes "reader_ok r" "concat (segs r) \<noteq> []" "0 < n"
  obtains k r' where "0 < k" "k \<le> n" "k \<le> length (concat (segs r))"
    "sr_read n r = (r', Return (take k (concat (segs r))))"
    "concat (segs r') = drop k (concat (segs r))" "reader_ok r'" "rtail r' = rtail r"
proof -
  from assms(2) obtain seg rest where s: "segs r = seg # rest" by (cases "segs r") auto
  with assms(1) have ne: "seg \<noteq> []" "[] \<notin> set rest" by (auto simp: reader_ok_def)
  let ?k = "min n (length seg)"
  let ?r = "fst (sr_read n r)"
  have "sr_read n r = (?r, Return (take ?k (concat (segs r))))"
    by (simp add: sr_read_def s min_def)
  moreover have "concat (segs ?r) = drop ?k (concat (segs r))"
    by (auto simp: sr_read_def s min_def)
  moreover have "reader_ok ?r" "rtail ?r = rtail r"
    using ne by (auto simp: sr_read_def s reader_ok_def)
  moreover have "0 < ?k" "?k \<le> n" "?k \<le> length (concat (segs r))"
    using ne assms(3) by (auto simp: s)
  ultimately show thesis by (intro that [of ?k ?r])
qed

text \<open>The body of \<^verbatim>\<open>read\<close> that the TCP and the QUIC connection share.\<close>

definition stream_read_into :: "bytes \<Rightarrow> stream_reader \<Rightarrow> stream_reader \<times> (bytes \<times> nat) res" where
  "stream_read_into buf r =
     (case sr_read (length buf) r of
        (r', Raise e) \<Rightarrow> (r', Raise e)
      | (r', Blocked) \<Rightarrow> (r', Blocked)
      | (r', Return data) \<Rightarrow>
          if data = [] then (r', Return (buf, 0))
          else (r', let n = length data in Return (slice_assign 0 n data buf, n)))"

lemma stream_read_into_some:
  assumes "reader_ok r" "inb = concat (segs r)" "inb \<noteq> []" "buf \<noteq> []"
  obtains k r' where "0 < k" "k \<le> length buf" "k \<le> length inb"
    "stream_read_into buf r = (r', Return (take k inb @ drop k buf, k))"
    "concat (segs r') = drop k inb" "reader_ok r'"
proof -
  have ok: "concat (segs r) \<noteq> []" "0 < length buf" using assms by auto
  obtain k r' where k: "0 < k" "k \<le> length buf" "k \<le> length inb"
    "sr_read (length buf) r = (r', Return (take k inb))"
    "concat (segs r') = drop k inb" "reader_ok r'"
    using sr_read_some [OF assms(1) ok] unfolding assms(2) by metis
  moreover from k have "length (take k inb) = k" "take k inb \<noteq> []" using assms(3) by auto
  ultimately have "stream_read_into buf r = (r', Return (take k inb @ drop k buf, k))"
    by (simp only: stream_read_into_def prod.case res.case if_False Let_def slice_assign_prefix)
  with k show thesis by (intro that)
qed

section \<open>Writer\<close>

record stream_writer =
  wsent :: bytes
  wclosed :: bool
  wlost :: "exn option"
  sockname :: "(pystr \<times> nat) option"
  peername :: "(pystr \<times> nat) option"

definition sw_write :: "bytes \<Rightarrow> stream_writer \<Rightarrow> stream_writer" where
  "sw_write data w = (if wclosed w \<or> wlost w \<noteq> None then w else w\<lparr>wsent := wsent w @ data\<rparr>)"

definition sw_drain :: "stream_writer \<Rightarrow> unit res" where
  "sw_drain w = (case wlost w of Some e \<Rightarrow> Raise e | None \<Rightarrow> Return ())"

definition sw_close :: "stream_writer \<Rightarrow> stream_writer" where
  "sw_close w = w\<lparr>wclosed := True\<rparr>"

section \<open>Queue\<close>

definition queue_get :: "'a list \<Rightarrow> 'a list \<times> 'a res" where
  "queue_get q = (case q of [] \<Rightarrow> ([], Blocked) | x # xs \<Rightarrow> (xs, Return x))"

end
