(* ===== verification/ListenerIface.thy ===== *)
theory ListenerIface
  imports AsyncioStreams
begin

text \<open>
  The listener interface of \<^verbatim>\<open>uniconn/conn.py\<close> and the contract every transport's listener keeps:
  connections are handed out in the order they arrived, each exactly once, and \<open>accept\<close> waits while
  none is there (locale \<open>fifo_listener\<close>).
\<close>

datatype 'a listener_event = Arrives 'a | Accept

text \<open>A run of arrivals and accepts: the final listener and the connections handed out. An accept that
  still waits hands out nothing.\<close>

fun run_listener ::
  "('l \<Rightarrow> 'l \<times> 'c res) \<Rightarrow> ('a \<Rightarrow> 'l \<Rightarrow> 'l) \<Rightarrow> 'a listener_event list \<Rightarrow> 'l \<Rightarrow> 'l \<times> 'c list" where
  "run_listener acc arr [] l = (l, [])"
| "run_listener acc arr (Arrives a # es) l = run_listener acc arr es (arr a l)"
| "run_listener acc arr (Accept # es) l =
     (case acc l of
        (l', Return c) \<Rightarrow> (let (l2, cs) = run_listener acc arr es l' in (l2, c # cs))
      | (l', _) \<Rightarrow> run_listener acc arr es l')"

fun arrivals :: "'a listener_event list \<Rightarrow> 'a list" where
  "arrivals [] = []"
| "arrivals (Arrives a # es) = a # arrivals es"
| "arrivals (Accept # es) = arrivals es"

locale fifo_listener =
  fixes acc :: "'l \<Rightarrow> 'l \<times> 'c res"
    and arr :: "'a \<Rightarrow> 'l \<Rightarrow> 'l"
    and mk :: "'a \<Rightarrow> 'c"
    and queued :: "'l \<Rightarrow> 'c list"
  assumes accept_first: "queued l = c # cs \<Longrightarrow> \<exists>l'. acc l = (l', Return c) \<and> queued l' = cs"
    and accept_waits: "queued l = [] \<Longrightarrow> \<exists>l'. acc l = (l', Blocked) \<and> queued l' = []"
    and arrive_last: "queued (arr a l) = queued l @ [mk a]"
begin

text \<open>Nothing is lost, duplicated or reordered: what was handed out, followed by what still waits, is
  what was queued followed by what arrived.\<close>

lemma run_conserves:
  "run_listener acc arr es l = (l', cs) \<Longrightarrow> cs @ queued l' = queued l @ map mk (arrivals es)"
proof (induction es arbitrary: l cs)
  case (Cons e es)
  show ?case
  proof (cases e)
    case (Arrives a)
    with Cons show ?thesis by (simp add: arrive_last)
  next
    case Accept
    show ?thesis
    proof (cases "queued l")
      case Nil
      with accept_waits obtain l1 where "acc l = (l1, Blocked)" "queued l1 = []" by blast
      with Cons Accept Nil show ?thesis by auto
    next
      case (Cons c q)
      with accept_first obtain l1 where l1: "acc l = (l1, Return c)" "queued l1 = q" by blast
      obtain l2 cs1 where r: "run_listener acc arr es l1 = (l2, cs1)"
        by (cases "run_listener acc arr es l1")
      with Cons.prems Accept l1 have "l2 = l'" "cs = c # cs1" by auto
      with Cons.IH [of l1 cs1] r l1 Cons Accept show ?thesis by simp
    qed
  qed
qed simp

end

end
