(* ===== verification/Message.thy ===== *)
theory Message
  imports ConnIface PyText
begin

text \<open>
  The wire format of USCP v1: \<^verbatim>\<open>secure/constants.py\<close> and \<^verbatim>\<open>secure/message.py\<close>. Frames are
  read and written through the methods of any connection. The lemmas about reading a frame are
  proved in the context of \<open>conn_stream\<close>, so they hold for every transport and for an encrypted
  connection used as the carrier of another one.
\<close>

section \<open>Constants\<close>

definition MSG_HELLO :: byte where "MSG_HELLO = 0x01"
definition MSG_HELLO_REPLY :: byte where "MSG_HELLO_REPLY = 0x02"
definition MSG_DATA :: byte where "MSG_DATA = 0x03"
definition MSG_ERROR :: byte where "MSG_ERROR = 0xFF"

definition FINGERPRINT_SIZE :: nat where "FINGERPRINT_SIZE = 64"
definition KDF_OUTPUT_SIZE :: nat where "KDF_OUTPUT_SIZE = 88"
definition NONCE_SIZE :: nat where "NONCE_SIZE = 24"
definition NONCE_PREFIX_SIZE :: nat where "NONCE_PREFIX_SIZE = 12"
definition TIMESTAMP_SIZE :: nat where "TIMESTAMP_SIZE = 4"
definition COUNTER_SIZE :: nat where "COUNTER_SIZE = 8"
definition TAG_SIZE :: nat where "TAG_SIZE = 16"
definition MAX_MESSAGE_SIZE :: nat where "MAX_MESSAGE_SIZE = 16777216"

definition KDF_CONTEXT :: bytes where
  "KDF_CONTEXT = map of_char ''uniconn-e2ee-v1''"

lemmas message_types = MSG_HELLO_def MSG_HELLO_REPLY_def MSG_DATA_def MSG_ERROR_def

section \<open>Frames\<close>

text \<open>The loop that reads \<open>want\<close> bytes into \<open>acc\<close>; \<^verbatim>\<open>read_frame_from_conn\<close> runs it twice, for the
  length and for the body, with its own end-of-file message.\<close>

function read_loop ::
  "'s conn_ops \<Rightarrow> string \<Rightarrow> nat \<Rightarrow> nat \<Rightarrow> bytes \<Rightarrow> 's \<Rightarrow> 's \<times> bytes res" where
  "read_loop ops eof want offset acc s =
     (if offset < want then
        (case op_read ops (bytearray (want - offset)) s of
           (s', Return (remaining, n)) \<Rightarrow>
             if n = 0 then (s', Raise (Exn ConnectionError [Txt eof]))
             else read_loop ops eof want (offset + n)
                    (slice_assign offset (offset + n) (take n remaining) acc) s'
         | (s', Raise e) \<Rightarrow> (s', Raise e)
         | (s', Blocked) \<Rightarrow> (s', Blocked))
      else (s, Return acc))"
  by pat_completeness auto
termination
  by (relation "measure (\<lambda>(ops, eof, want, offset, acc, s). want - offset)") auto

declare read_loop.simps [simp del]

definition read_frame_from_conn :: "'s conn_ops \<Rightarrow> 's \<Rightarrow> 's \<times> bytes res" where
  "read_frame_from_conn ops s =
     res_bind (read_loop ops ''unexpected EOF reading frame length'' 4 0 (bytearray 4) s)
       (\<lambda>s len_buf. case struct_unpack 4 len_buf of
          Return len \<Rightarrow>
            if MAX_MESSAGE_SIZE < len
            then (s, Raise (Exn ValueError [Txt ''frame too large: '', Num len]))
            else read_loop ops ''unexpected EOF reading frame body'' len 0 (bytearray len) s
        | Raise e \<Rightarrow> (s, Raise e)
        | Blocked \<Rightarrow> (s, Blocked))"

definition write_frame_to_conn :: "'s conn_ops \<Rightarrow> bytes \<Rightarrow> 's \<Rightarrow> 's \<times> unit res" where
  "write_frame_to_conn ops body s =
     (case struct_pack 4 (length body) of
        Return len_buf \<Rightarrow> res_bind (op_write ops (len_buf @ body) s) (\<lambda>s n. (s, Return ()))
      | Raise e \<Rightarrow> (s, Raise e)
      | Blocked \<Rightarrow> (s, Blocked))"

text \<open>A frame on the wire.\<close>

definition frame :: "bytes \<Rightarrow> bytes" where
  "frame body = be_bytes 4 (length body) @ body"

lemma length_frame [simp]: "length (frame body) = length body + 4"
  by (simp add: frame_def)

lemma frame_not_Nil [simp]: "frame body \<noteq> []" "[] \<noteq> frame body"
  by (auto simp: frame_def dest!: arg_cong [where f = length])

lemma frame_inject [simp]: "frame a = frame b \<longleftrightarrow> a = b"
  by (auto simp: frame_def)

section \<open>Messages\<close>

record hello =
  msg_type :: byte
  public_key :: bytes
  payload :: bytes
  signature :: bytes

definition marshal_hello :: "byte \<Rightarrow> bytes \<Rightarrow> bytes \<Rightarrow> bytes \<Rightarrow> bytes res" where
  "marshal_hello mt pk pl sig =
     bind_res (struct_pack 2 (length pk)) (\<lambda>lpk.
     bind_res (struct_pack 2 (length pl)) (\<lambda>lpl.
     bind_res (struct_pack 2 (length sig)) (\<lambda>lsig.
       let body = mt # lpk @ pk @ lpl @ pl @ lsig @ sig
       in bind_res (struct_pack 4 (length body)) (\<lambda>lbody. Return (lbody @ body)))))"

definition unmarshal_hello :: "bytes \<Rightarrow> hello res" where
  "unmarshal_hello body =
     (case body of
        [] \<Rightarrow> Raise (Exn ValueError [Txt ''empty message body''])
      | mt # _ \<Rightarrow>
        (let off = 1 in
         bind_res (struct_unpack 2 (slice off (off + 2) body)) (\<lambda>pk_len.
         let off = off + 2; pk = slice off (off + pk_len) body; off = off + pk_len in
         bind_res (struct_unpack 2 (slice off (off + 2) body)) (\<lambda>pl_len.
         let off = off + 2; pl = slice off (off + pl_len) body; off = off + pl_len in
         bind_res (struct_unpack 2 (slice off (off + 2) body)) (\<lambda>sig_len.
         let off = off + 2; sig = slice off (off + sig_len) body
         in Return \<lparr>msg_type = mt, public_key = pk, payload = pl, signature = sig\<rparr>)))))"

definition marshal_data :: "nat \<Rightarrow> nat \<Rightarrow> bytes \<Rightarrow> bytes res" where
  "marshal_data timestamp counter ciphertext =
     bind_res (struct_pack 4 timestamp) (\<lambda>ts.
     bind_res (struct_pack 8 counter) (\<lambda>ctr.
       Return (MSG_DATA # ts @ ctr @ ciphertext)))"

definition marshal_error :: "pystr \<Rightarrow> bytes res" where
  "marshal_error reason =
     bind_res (utf8_encode reason) (\<lambda>reason_bytes.
     bind_res (struct_pack 2 (length reason_bytes)) (\<lambda>l.
       Return (MSG_ERROR # l @ reason_bytes)))"

section \<open>What reads preserve, frame reading preserves\<close>

lemma read_loop_inv:
  assumes "\<And>buf s. P s \<Longrightarrow> P (fst (op_read ops buf s))"
  shows "P s \<Longrightarrow> P (fst (read_loop ops eof want offset acc s))"
proof (induction "want - offset" arbitrary: offset acc s rule: less_induct)
  case less
  show ?case
  proof (cases "offset < want")
    case True
    obtain s1 x where o: "op_read ops (bytearray (want - offset)) s = (s1, x)"
      by (cases "op_read ops (bytearray (want - offset)) s")
    with assms [OF less.prems] have p: "P s1" by (metis fst_conv)
    show ?thesis
    proof (cases x)
      case (Return y)
      with less True o p show ?thesis
        by (cases y) (simp add: read_loop.simps [of ops eof want offset acc s])
    qed (use True o p in \<open>simp_all add: read_loop.simps [of ops eof want offset acc s]\<close>)
  qed (use less.prems in \<open>simp add: read_loop.simps\<close>)
qed

lemma read_frame_inv:
  assumes "\<And>buf s. P s \<Longrightarrow> P (fst (op_read ops buf s))" "P s"
  shows "P (fst (read_frame_from_conn ops s))"
proof -
  obtain s1 x where o: "read_loop ops ''unexpected EOF reading frame length'' 4 0 (bytearray 4) s = (s1, x)"
    by (cases "read_loop ops ''unexpected EOF reading frame length'' 4 0 (bytearray 4) s")
  have p: "P s1" using read_loop_inv [of P ops s, OF assms] o by (metis fst_conv)
  show ?thesis
  proof (cases x)
    case (Return y)
    then show ?thesis
      using o p read_loop_inv [of P ops s1, OF assms(1) p]
      by (auto simp: read_frame_from_conn_def split: res.split)
  qed (use o p in \<open>simp_all add: read_frame_from_conn_def\<close>)
qed

section \<open>Reading a frame from any connection that keeps the stream contract\<close>

context conn_stream
begin

lemma read_loop_delivers:
  assumes "link s (data @ rest) outb" and "length acc = want"
    and "offset \<le> want" and "length data = want - offset"
  shows "\<exists>s'. read_loop ops eof want offset acc s = (s', Return (take offset acc @ data)) \<and>
    link s' rest outb \<and> (\<forall>ns. wok s ns \<longrightarrow> wok s' ns)"
  using assms
proof (induction "want - offset" arbitrary: offset acc s data rule: less_induct)
  case less
  show ?case
  proof (cases "offset < want")
    case False
    with less.prems show ?thesis
      by (auto simp: read_loop.simps)
  next
    case True
    let ?buf = "bytearray (want - offset)"
    from True less.prems(4) have ne: "data @ rest \<noteq> []" "?buf \<noteq> []" by auto
    obtain k s1 where k: "0 < k" "k \<le> length ?buf" "k \<le> length (data @ rest)"
      and rd: "op_read ops ?buf s = (s1, Return (take k (data @ rest) @ drop k ?buf, k))"
      and l1: "link s1 (drop k (data @ rest)) outb" and w1: "\<And>ns. wok s ns \<Longrightarrow> wok s1 ns"
      using read_someE [OF less.prems(1) ne] by metis
    let ?acc = "slice_assign offset (offset + k) (take k data) acc"
    from k less.prems(4) have kd: "k \<le> length data" by simp
    have ih: "\<exists>s'. read_loop ops eof want (offset + k) ?acc s1 =
          (s', Return (take (offset + k) ?acc @ drop k data)) \<and>
        link s' rest outb \<and> (\<forall>ns. wok s1 ns \<longrightarrow> wok s' ns)"
      using k kd True less.prems l1
      by (intro less.hyps) (auto simp: slice_assign_def)
    have "take (offset + k) ?acc @ drop k data = take offset acc @ data"
      using kd less.prems True by (simp add: slice_assign_def)
    moreover have "read_loop ops eof want offset acc s = read_loop ops eof want (offset + k) ?acc s1"
      using True k kd rd by (simp add: read_loop.simps [of ops eof want offset acc s])
    ultimately show ?thesis
      using ih w1 by auto
  qed
qed

text \<open>A frame at the head of the stream is returned whole and nothing after it is consumed, however
  the connection cuts the stream into pieces.\<close>

lemma read_frame_delivers:
  assumes l: "link s (frame body @ rest) outb" and b: "length body \<le> MAX_MESSAGE_SIZE"
  obtains s' where "read_frame_from_conn ops s = (s', Return body)" "link s' rest outb"
    "\<And>ns. wok s ns \<Longrightarrow> wok s' ns"
proof -
  let ?n = "length body"
  have l0: "link s (be_bytes 4 ?n @ (body @ rest)) outb"
    using l by (simp add: frame_def)
  obtain s1 where r1: "read_loop ops ''unexpected EOF reading frame length'' 4 0 (bytearray 4) s =
      (s1, Return (be_bytes 4 ?n))" and l1: "link s1 (body @ rest) outb"
    and w1: "\<And>ns. wok s ns \<Longrightarrow> wok s1 ns"
    using read_loop_delivers [OF l0, of "bytearray 4" 4 0] by auto
  obtain s2 where r2: "read_loop ops ''unexpected EOF reading frame body'' ?n 0 (bytearray ?n) s1 =
      (s2, Return body)" and l2: "link s2 rest outb" and w2: "\<And>ns. wok s1 ns \<Longrightarrow> wok s2 ns"
    using read_loop_delivers [OF l1, of "bytearray ?n" ?n 0] by auto
  from b have "?n < 256 ^ 4" by (simp add: MAX_MESSAGE_SIZE_def)
  then have "read_frame_from_conn ops s = (s2, Return body)"
    using r1 r2 b by (simp add: read_frame_from_conn_def struct_unpack_pack)
  with l2 w1 w2 show thesis by (intro that [of s2]) auto
qed

text \<open>A length field above the limit is refused before a byte of the body is read.\<close>

lemma read_frame_too_large:
  assumes "link s (be_bytes 4 n @ rest) outb" "n < 256 ^ 4" "MAX_MESSAGE_SIZE < n"
  obtains s' where "read_frame_from_conn ops s =
      (s', Raise (Exn ValueError [Txt ''frame too large: '', Num n]))" "link s' rest outb"
proof -
  obtain s1 where "read_loop ops ''unexpected EOF reading frame length'' 4 0 (bytearray 4) s =
      (s1, Return (be_bytes 4 n))" and l1: "link s1 rest outb"
    using read_loop_delivers [OF assms(1), of "bytearray 4" 4 0] by auto
  with assms have "read_frame_from_conn ops s =
      (s1, Raise (Exn ValueError [Txt ''frame too large: '', Num n]))"
    by (simp add: read_frame_from_conn_def struct_unpack_pack)
  with l1 show thesis by (intro that [of s1])
qed

lemma write_frame_puts:
  assumes "link s inb outb" "wok s ((length body + 4) # ns)" "length body < 256 ^ 4"
  obtains s' where "write_frame_to_conn ops body s = (s', Return ())"
    "link s' inb (outb @ frame body)" "wok s' ns"
proof -
  have "wok s (length (frame body) # ns)" using assms(2) by simp
  then obtain s' where "op_write ops (frame body) s = (s', Return (length (frame body)))"
      "link s' inb (outb @ frame body)" "wok s' ns"
    using write_allE [OF assms(1)] by blast
  with assms(3) show thesis
    by (intro that) (auto simp: write_frame_to_conn_def struct_pack_def frame_def)
qed

end

section \<open>Round trips and error branches of the messages\<close>

lemma marshal_hello_Return:
  "marshal_hello mt pk pl sig = Return bs \<longleftrightarrow>
     length pk < 65536 \<and> length pl < 65536 \<and> length sig < 65536 \<and>
     bs = frame (mt # be_bytes 2 (length pk) @ pk @ be_bytes 2 (length pl) @ pl @
                 be_bytes 2 (length sig) @ sig)"
  by (auto simp: marshal_hello_def res_simps frame_def Let_def)

lemma unmarshal_hello_Cons:
  "unmarshal_hello (mt # r) =
     bind_res (struct_unpack 2 (take 2 r)) (\<lambda>n1.
     bind_res (struct_unpack 2 (take 2 (drop n1 (drop 2 r)))) (\<lambda>n2.
     bind_res (struct_unpack 2 (take 2 (drop n2 (drop 2 (drop n1 (drop 2 r)))))) (\<lambda>n3.
       Return \<lparr>msg_type = mt, public_key = take n1 (drop 2 r),
         payload = take n2 (drop 2 (drop n1 (drop 2 r))),
         signature = take n3 (drop 2 (drop n2 (drop 2 (drop n1 (drop 2 r)))))\<rparr>)))"
  by (simp only: unmarshal_hello_def list.case Let_def slice_take_drop)
     (simp add: numeral_2_eq_2 ac_simps)

lemma unmarshal_hello_wire:
  assumes "length pk < 65536" "length pl < 65536" "sl < 65536"
  shows "unmarshal_hello (mt # be_bytes 2 (length pk) @ pk @ be_bytes 2 (length pl) @ pl @
           be_bytes 2 sl @ rest) =
         Return \<lparr>msg_type = mt, public_key = pk, payload = pl, signature = take sl rest\<rparr>"
proof -
  have field: "struct_unpack 2 (take 2 (be_bytes 2 n @ r)) = Return n" if "n < 65536" for n r
    using that by (simp add: struct_unpack_pack)
  have skip: "drop 2 (be_bytes 2 n @ r) = r" "drop (length xs) (xs @ r) = r" for n r and xs :: bytes
    by simp_all
  show ?thesis
    by (simp only: unmarshal_hello_Cons field assms skip bind_res.simps) simp
qed

text \<open>The parser accepts exactly the bodies of this shape. The key and the payload have their declared
  lengths; the signature is what is left of the body, cut at its declared length.\<close>

lemma unmarshal_hello_Return:
  "unmarshal_hello body = Return h \<longleftrightarrow>
     (\<exists>sl rest. length (public_key h) < 65536 \<and> length (payload h) < 65536 \<and> sl < 65536 \<and>
        signature h = take sl rest \<and>
        body = msg_type h # be_bytes 2 (length (public_key h)) @ public_key h @
               be_bytes 2 (length (payload h)) @ payload h @ be_bytes 2 sl @ rest)"
    (is "?L \<longleftrightarrow> ?R")
proof
  assume L: ?L
  then obtain mt r where body: "body = mt # r"
    by (cases body) (auto simp: unmarshal_hello_def)
  from L obtain n1 r1 n2 r2 n3 r3 where n: "n1 < 65536" "n2 < 65536" "n3 < 65536"
    and r: "r = be_bytes 2 n1 @ r1" "drop n1 r1 = be_bytes 2 n2 @ r2"
      "drop n2 r2 = be_bytes 2 n3 @ r3"
    and h: "h = \<lparr>msg_type = mt, public_key = take n1 r1, payload = take n2 r2,
                 signature = take n3 r3\<rparr>"
    by (fastforce simp: body unmarshal_hello_Cons res_simps simp del: drop_drop)
  have len: "length (take n1 r1) = n1" "length (take n2 r2) = n2"
    using arg_cong [OF r(2), of length] arg_cong [OF r(3), of length] by auto
  have "body = mt # be_bytes 2 n1 @ take n1 r1 @ be_bytes 2 n2 @ take n2 r2 @ be_bytes 2 n3 @ r3"
  proof -
    have "take n1 r1 @ be_bytes 2 n2 @ r2 = r1" and "take n2 r2 @ be_bytes 2 n3 @ r3 = r2"
      using append_take_drop_id [of n1 r1] append_take_drop_id [of n2 r2] by (simp_all only: r)
    then show ?thesis by (simp only: body r(1))
  qed
  with n h len show ?R by auto
next
  assume ?R
  then show ?L
    by (cases h) (auto simp: unmarshal_hello_wire)
qed

lemma unmarshal_marshal_hello:
  assumes "marshal_hello mt pk pl sig = Return bs"
  shows "\<exists>body. bs = frame body \<and> length body < 256 ^ 4 \<and>
    unmarshal_hello body =
      Return \<lparr>msg_type = mt, public_key = pk, payload = pl, signature = sig\<rparr>"
  using assms by (auto simp: marshal_hello_Return unmarshal_hello_wire intro!: exI)

lemma marshal_data_Return:
  "marshal_data ts ctr ct = Return body \<longleftrightarrow>
     ts < 256 ^ 4 \<and> ctr < 256 ^ 8 \<and> body = MSG_DATA # be_bytes 4 ts @ be_bytes 8 ctr @ ct"
  by (auto simp: marshal_data_def res_simps)

end
