(* ===== verification/SecureConn.thy ===== *)
theory SecureConn
  imports Message
begin

text \<open>
  The encrypted connection of \<^verbatim>\<open>secure/conn.py\<close>: XChaCha20-Poly1305 frames with a counter per
  direction over any connection.

  The cipher is a parameter (\<open>aead\<close>), since it comes from a third-party package; \<open>aead_ok\<close> states
  what its documentation promises. The wall clock is the parameter \<open>now\<close>: the reading of
  \<^verbatim>\<open>time.time()\<close> at the write that uses a given counter. The locks of the source make each \<open>read\<close>
  and each \<open>write\<close> one step.

  \<open>sc_link\<close> is the abstraction of an encrypted connection: which plaintext it will still deliver and
  which plaintext it has sent, in terms of the frames on the carrier. The lemma \<open>secure_stream\<close>
  shows that it keeps the stream contract whenever its carrier does; so a second handshake can run
  over it.
\<close>

unbundle bit_operations_syntax

section \<open>State and operations\<close>

record aead =
  cipher_new :: "bytes \<Rightarrow> bytes \<Rightarrow> bool"
  encrypt_and_digest :: "bytes \<Rightarrow> bytes \<Rightarrow> bytes \<Rightarrow> bytes \<times> bytes"
  decrypt_and_verify :: "bytes \<Rightarrow> bytes \<Rightarrow> bytes \<Rightarrow> bytes \<Rightarrow> bytes option"

record session_keys =
  initiator_key :: bytes
  responder_key :: bytes
  initiator_nonce_pfx :: bytes
  responder_nonce_pfx :: bytes

record 's secure_conn =
  send_key :: bytes
  recv_key :: bytes
  send_pfx :: bytes
  recv_pfx :: bytes
  send_counter :: nat
  recv_counter :: nat
  sc_closed :: bool
  recv_buf :: bytes
  inner_conn :: "'s option"

definition SecureConn_init :: "session_keys \<Rightarrow> bool \<Rightarrow> 's secure_conn" where
  "SecureConn_init keys is_initiator =
     (if is_initiator then
        \<lparr>send_key = initiator_key keys, recv_key = responder_key keys,
         send_pfx = initiator_nonce_pfx keys, recv_pfx = responder_nonce_pfx keys,
         send_counter = 0, recv_counter = 0, sc_closed = False, recv_buf = [],
         inner_conn = None\<rparr>
      else
        \<lparr>send_key = responder_key keys, recv_key = initiator_key keys,
         send_pfx = responder_nonce_pfx keys, recv_pfx = initiator_nonce_pfx keys,
         send_counter = 0, recv_counter = 0, sc_closed = False, recv_buf = [],
         inner_conn = None\<rparr>)"

definition sc_bind :: "'s \<Rightarrow> 's secure_conn \<Rightarrow> 's secure_conn" where
  "sc_bind conn c = c\<lparr>inner_conn := Some conn\<rparr>"

text \<open>The nonce both directions build: prefix, timestamp, counter.\<close>

definition make_nonce :: "bytes \<Rightarrow> nat \<Rightarrow> nat \<Rightarrow> bytes res" where
  "make_nonce pfx ts counter =
     bind_res (struct_pack_into 4
                 (slice_assign 0 NONCE_PREFIX_SIZE pfx (bytearray NONCE_SIZE))
                 NONCE_PREFIX_SIZE ts)
       (\<lambda>nonce. struct_pack_into 8 nonce (NONCE_PREFIX_SIZE + TIMESTAMP_SIZE) counter)"

definition conn_closed_error :: exn where
  "conn_closed_error = Exn ConnectionError [Txt ''connection closed'']"

definition handle_data ::
  "aead \<Rightarrow> bytes \<Rightarrow> bytes \<Rightarrow> 's secure_conn \<Rightarrow> 's secure_conn \<times> (bytes \<times> nat) res" where
  "handle_data A body buf c =
     (if length body < 13 then (c, Raise (Exn ValueError [Txt ''DATA message too short'']))
      else
        case bind_res (struct_unpack 4 (slice 1 5 body)) (\<lambda>ts.
             bind_res (struct_unpack 8 (slice 5 13 body)) (\<lambda>counter. Return (ts, counter))) of
          Raise e \<Rightarrow> (c, Raise e)
        | Blocked \<Rightarrow> (c, Blocked)
        | Return (ts, counter) \<Rightarrow>
            if counter \<noteq> recv_counter c
            then (c, Raise (Exn ValueError [Txt ''unexpected DATA counter'']))
            else
              (let ciphertext = drop 13 body in
               case make_nonce (recv_pfx c) ts counter of
                 Raise e \<Rightarrow> (c, Raise e)
               | Blocked \<Rightarrow> (c, Blocked)
               | Return nonce \<Rightarrow>
                   if \<not> cipher_new A (recv_key c) nonce then
                     (c, Raise (Exn ValueError [Txt ''ChaCha20_Poly1305.new'']))
                   else
                     (case decrypt_and_verify A (recv_key c) nonce
                             (slice_but_last 16 ciphertext) (slice_last 16 ciphertext) of
                        None \<Rightarrow>
                          (c, Raise (Exn ValueError [Txt ''AEAD decrypt failed: tag mismatch'']))
                      | Some plaintext \<Rightarrow>
                          (let c1 = c\<lparr>recv_counter := recv_counter c + 1\<rparr>;
                               (r, rest) = fill_buf buf plaintext
                           in (c1\<lparr>recv_buf := recv_buf c1 @ rest\<rparr>, Return r)))))"

text \<open>The error message of a peer: the text of the reason is kept as the bytes it decodes from.\<close>

definition peer_error :: "bytes \<Rightarrow> exn" where
  "peer_error body =
     Exn ConnectionError
       [Txt ''peer error: '',
        if 3 \<le> length body \<and> 3 + be_val (slice 1 3 body) \<le> length body
        then Raw (slice 3 (3 + be_val (slice 1 3 body)) body) else Txt ''unknown'']"

definition sc_read_locked ::
  "aead \<Rightarrow> 's conn_ops \<Rightarrow> bytes \<Rightarrow> 's secure_conn \<Rightarrow> 's secure_conn \<times> (bytes \<times> nat) res" where
  "sc_read_locked A ops buf c =
     (case inner_conn c of
        None \<Rightarrow> (c, Raise (Exn AssertionError []))
      | Some s \<Rightarrow>
        if recv_buf c \<noteq> [] then
          (let (r, rest) = fill_buf buf (recv_buf c) in (c\<lparr>recv_buf := rest\<rparr>, Return r))
        else
          (case read_frame_from_conn ops s of
             (s', Raise e) \<Rightarrow> (c\<lparr>inner_conn := Some s'\<rparr>, Raise e)
           | (s', Blocked) \<Rightarrow> (c\<lparr>inner_conn := Some s'\<rparr>, Blocked)
           | (s', Return body) \<Rightarrow>
               (let c = c\<lparr>inner_conn := Some s'\<rparr> in
                case body of
                  [] \<Rightarrow> (c, Raise (Exn ConnectionError [Txt ''empty frame'']))
                | mt # _ \<Rightarrow>
                    if mt = MSG_DATA then handle_data A body buf c
                    else if mt = MSG_ERROR then (c, Raise (peer_error body))
                    else (c, Raise (Exn ValueError
                              [Txt ''unexpected message type: '', Num (unat mt)])))))"

definition sc_read ::
  "aead \<Rightarrow> 's conn_ops \<Rightarrow> bytes \<Rightarrow> 's secure_conn \<Rightarrow> 's secure_conn \<times> (bytes \<times> nat) res" where
  "sc_read A ops buf c =
     (if sc_closed c then (c, Raise conn_closed_error)
      else if buf = [] then (c, Return (buf, 0))
      else sc_read_locked A ops buf c)"

text \<open>The timestamp and the nonce of the next write.\<close>

definition write_ts :: "(nat \<Rightarrow> int) \<Rightarrow> 's secure_conn \<Rightarrow> nat" where
  "write_ts now c = nat (now (send_counter c) AND 0xFFFFFFFF)"

definition write_nonce :: "(nat \<Rightarrow> int) \<Rightarrow> 's secure_conn \<Rightarrow> bytes res" where
  "write_nonce now c = make_nonce (send_pfx c) (write_ts now c) (send_counter c)"

definition sc_write_locked ::
  "aead \<Rightarrow> (nat \<Rightarrow> int) \<Rightarrow> 's conn_ops \<Rightarrow> bytes \<Rightarrow> 's secure_conn \<Rightarrow> 's secure_conn \<times> nat res" where
  "sc_write_locked A now ops data c =
     (case inner_conn c of
        None \<Rightarrow> (c, Raise (Exn AssertionError []))
      | Some s \<Rightarrow>
        if data = [] then (c, Return 0)
        else
          (let counter = send_counter c;
               ts = write_ts now c;
               made = write_nonce now c;
               c = c\<lparr>send_counter := counter + 1\<rparr>
           in case made of
                Raise e \<Rightarrow> (c, Raise e)
              | Blocked \<Rightarrow> (c, Blocked)
              | Return nonce \<Rightarrow>
                  if \<not> cipher_new A (send_key c) nonce then
                    (c, Raise (Exn ValueError [Txt ''ChaCha20_Poly1305.new'']))
                  else
                    (let (ciphertext, tag) = encrypt_and_digest A (send_key c) nonce data
                     in case marshal_data ts counter (ciphertext @ tag) of
                          Raise e \<Rightarrow> (c, Raise e)
                        | Blocked \<Rightarrow> (c, Blocked)
                        | Return frame_body \<Rightarrow>
                            (let (s', r) = write_frame_to_conn ops frame_body s
                             in (c\<lparr>inner_conn := Some s'\<rparr>,
                                 map_res (\<lambda>_. length data) r)))))"

definition sc_write ::
  "aead \<Rightarrow> (nat \<Rightarrow> int) \<Rightarrow> 's conn_ops \<Rightarrow> bytes \<Rightarrow> 's secure_conn \<Rightarrow> 's secure_conn \<times> nat res" where
  "sc_write A now ops data c =
     (if sc_closed c then (c, Raise conn_closed_error) else sc_write_locked A now ops data c)"

definition sc_close :: "'s conn_ops \<Rightarrow> 's secure_conn \<Rightarrow> 's secure_conn \<times> unit res" where
  "sc_close ops c =
     (if \<not> sc_closed c then
        (case inner_conn c of
           None \<Rightarrow> (c, Return ())
         | Some s \<Rightarrow> (let (s', r) = op_close ops s
                     in (c\<lparr>sc_closed := True, inner_conn := Some s'\<rparr>, r)))
      else (c, Return ()))"

definition sc_local_addr :: "'s conn_ops \<Rightarrow> 's secure_conn \<Rightarrow> addr option" where
  "sc_local_addr ops c = Option.bind (inner_conn c) (op_local_addr ops)"

definition sc_remote_addr :: "'s conn_ops \<Rightarrow> 's secure_conn \<Rightarrow> addr option" where
  "sc_remote_addr ops c = Option.bind (inner_conn c) (op_remote_addr ops)"

definition secure_ops ::
  "aead \<Rightarrow> (nat \<Rightarrow> int) \<Rightarrow> 's conn_ops \<Rightarrow> 's secure_conn conn_ops" where
  "secure_ops A now ops =
     \<lparr>op_read = sc_read A ops, op_write = sc_write A now ops, op_close = sc_close ops,
      op_local_addr = sc_local_addr ops, op_remote_addr = sc_remote_addr ops\<rparr>"

lemma secure_ops_sel [simp]:
  "op_read (secure_ops A now ops) = sc_read A ops"
  "op_write (secure_ops A now ops) = sc_write A now ops"
  "op_close (secure_ops A now ops) = sc_close ops"
  by (simp_all add: secure_ops_def)

section \<open>Nonces\<close>

definition nonce_of :: "bytes \<Rightarrow> nat \<Rightarrow> nat \<Rightarrow> bytes" where
  "nonce_of pfx ts counter = pfx @ be_bytes 4 ts @ be_bytes 8 counter"

lemma make_nonce_eq:
  assumes "length pfx = 12" "ts < 2 ^ 32" "counter < 2 ^ 64"
  shows "make_nonce pfx ts counter = Return (nonce_of pfx ts counter)"
  using assms
  by (simp add: make_nonce_def struct_pack_into_def slice_assign_def nonce_of_def
      NONCE_SIZE_def NONCE_PREFIX_SIZE_def TIMESTAMP_SIZE_def)

lemma make_nonce_Return:
  "length pfx = 12 \<Longrightarrow> make_nonce pfx ts counter = Return nonce \<longleftrightarrow>
     ts < 2 ^ 32 \<and> counter < 2 ^ 64 \<and> nonce = nonce_of pfx ts counter"
  by (auto simp: make_nonce_def struct_pack_into_def slice_assign_def nonce_of_def res_simps
      NONCE_SIZE_def NONCE_PREFIX_SIZE_def TIMESTAMP_SIZE_def split: if_splits)

lemma nonce_of_inject:
  assumes "length pfx = length pfx'" "ts < 2 ^ 32" "ts' < 2 ^ 32" "n < 2 ^ 64" "n' < 2 ^ 64"
  shows "nonce_of pfx ts n = nonce_of pfx' ts' n' \<longleftrightarrow> pfx = pfx' \<and> ts = ts' \<and> n = n'"
  using assms be_bytes_inject [of ts 4 ts'] be_bytes_inject [of n 8 n']
  by (auto simp: nonce_of_def)

lemma mask32_bound: "nat (t AND 0xFFFFFFFF) < 2 ^ 32"
proof -
  have "t AND 0xFFFFFFFF = take_bit 32 t"
    using take_bit_eq_mask [of 32 t] by (simp add: mask_eq_exp_minus_1)
  then show ?thesis
    using take_bit_int_less_exp [of 32 t] take_bit_nonnegative [of 32 t] by (simp add: nat_less_iff)
qed

section \<open>The cipher's promises and the frames on the carrier\<close>

definition aead_ok :: "aead \<Rightarrow> bool" where
  "aead_ok A \<longleftrightarrow> (\<forall>key nonce p. length key = 32 \<longrightarrow> length nonce = 24 \<longrightarrow>
     cipher_new A key nonce \<and>
     (case encrypt_and_digest A key nonce p of
        (ct, tag) \<Rightarrow> length ct = length p \<and> length tag = 16 \<and>
                     decrypt_and_verify A key nonce ct tag = Some p))"

text \<open>A cipher that keeps these promises (and no secret), for the witnesses.\<close>

definition toy_aead :: aead where
  "toy_aead = \<lparr>cipher_new = (\<lambda>key nonce. length key = 32 \<and> length nonce = 24),
     encrypt_and_digest = (\<lambda>key nonce p. (p, replicate 16 0)),
     decrypt_and_verify = (\<lambda>key nonce ct tag. if tag = replicate 16 0 then Some ct else None)\<rparr>"

lemma toy_aead_ok: "aead_ok toy_aead"
  by (simp add: aead_ok_def toy_aead_def)

definition seal :: "aead \<Rightarrow> bytes \<Rightarrow> bytes \<Rightarrow> bytes \<Rightarrow> bytes" where
  "seal A key nonce p = (case encrypt_and_digest A key nonce p of (ct, tag) \<Rightarrow> ct @ tag)"

definition data_body :: "aead \<Rightarrow> bytes \<Rightarrow> bytes \<Rightarrow> nat \<Rightarrow> nat \<times> bytes \<Rightarrow> bytes" where
  "data_body A key pfx n m =
     MSG_DATA # be_bytes 4 (fst m) @ be_bytes 8 n @ seal A key (nonce_of pfx (fst m) n) (snd m)"

text \<open>The frames of the timestamped messages \<open>ms\<close>, the first with counter \<open>n\<close>.\<close>

primrec data_frames :: "aead \<Rightarrow> bytes \<Rightarrow> bytes \<Rightarrow> nat \<Rightarrow> (nat \<times> bytes) list \<Rightarrow> bytes" where
  "data_frames A key pfx n [] = []"
| "data_frames A key pfx n (m # ms) =
     frame (data_body A key pfx n m) @ data_frames A key pfx (Suc n) ms"

definition msg_ok :: "nat \<times> bytes \<Rightarrow> bool" where
  "msg_ok m \<longleftrightarrow> fst m < 2 ^ 32 \<and> snd m \<noteq> [] \<and> length (snd m) + 29 \<le> MAX_MESSAGE_SIZE"

lemma aead_okD:
  assumes "aead_ok A" "length key = 32" "length nonce = 24"
  shows "cipher_new A key nonce" "length (seal A key nonce p) = length p + 16"
    "decrypt_and_verify A key nonce (slice_but_last 16 (seal A key nonce p))
       (slice_last 16 (seal A key nonce p)) = Some p"
proof -
  obtain ct tag where e: "encrypt_and_digest A key nonce p = (ct, tag)"
    by (cases "encrypt_and_digest A key nonce p")
  have a: "cipher_new A key nonce \<and> length ct = length p \<and> length tag = 16 \<and>
      decrypt_and_verify A key nonce ct tag = Some p"
    using assms(1) [unfolded aead_ok_def, rule_format, OF assms(2,3), of p] by (simp add: e)
  then show "cipher_new A key nonce" "length (seal A key nonce p) = length p + 16"
    "decrypt_and_verify A key nonce (slice_but_last 16 (seal A key nonce p))
       (slice_last 16 (seal A key nonce p)) = Some p"
    by (simp_all add: seal_def e slice_but_last_append slice_last_append)
qed

lemma length_nonce_of [simp]: "length (nonce_of pfx ts n) = length pfx + 12"
  by (simp add: nonce_of_def)

lemma data_frames_append:
  "data_frames A key pfx n (ms @ ms') =
     data_frames A key pfx n ms @ data_frames A key pfx (n + length ms) ms'"
  by (induction ms arbitrary: n) simp_all

lemma length_data_body:
  "aead_ok A \<Longrightarrow> length key = 32 \<Longrightarrow> length pfx = 12 \<Longrightarrow>
     length (data_body A key pfx n m) = length (snd m) + 29"
  by (simp add: data_body_def aead_okD)

section \<open>Every branch of \<open>_handle_data\<close>\<close>

text \<open>A body of the DATA shape with the expected counter that decrypts is delivered; nothing else
  changes the connection.\<close>

lemma handle_data_shape:
  assumes "length (recv_pfx c) = 12"
  shows "handle_data A (mt # be_bytes 4 ts @ be_bytes 8 n @ ct) buf c =
    (if n mod 2 ^ 64 \<noteq> recv_counter c
     then (c, Raise (Exn ValueError [Txt ''unexpected DATA counter'']))
     else let nonce = nonce_of (recv_pfx c) (ts mod 2 ^ 32) (n mod 2 ^ 64) in
       if \<not> cipher_new A (recv_key c) nonce
       then (c, Raise (Exn ValueError [Txt ''ChaCha20_Poly1305.new'']))
       else case decrypt_and_verify A (recv_key c) nonce (slice_but_last 16 ct) (slice_last 16 ct) of
         None \<Rightarrow> (c, Raise (Exn ValueError [Txt ''AEAD decrypt failed: tag mismatch'']))
       | Some p \<Rightarrow> (c\<lparr>recv_counter := recv_counter c + 1,
                       recv_buf := recv_buf c @ snd (fill_buf buf p)\<rparr>,
                     Return (fst (fill_buf buf p))))"
proof -
  have ts: "struct_unpack 4 (slice 1 5 (mt # be_bytes 4 ts @ be_bytes 8 n @ ct)) =
      Return (ts mod 2 ^ 32)"
    by (simp add: slice_def struct_unpack_def be_val_be_bytes)
  have ctr: "struct_unpack 8 (slice 5 13 (mt # be_bytes 4 ts @ be_bytes 8 n @ ct)) =
      Return (n mod 2 ^ 64)"
    by (simp add: slice_def struct_unpack_def be_val_be_bytes)
  show ?thesis
  proof (cases "n mod 2 ^ 64 = recv_counter c")
    case True
    then have "recv_counter c < 2 ^ 64" by (metis mod_less_divisor zero_less_numeral zero_less_power)
    then have "make_nonce (recv_pfx c) (ts mod 2 ^ 32) (recv_counter c) =
        Return (nonce_of (recv_pfx c) (ts mod 2 ^ 32) (recv_counter c))"
      using assms by (intro make_nonce_eq) simp_all
    then show ?thesis
      unfolding handle_data_def ts ctr
      by (simp add: True [simplified] Let_def split_beta split: option.split)
  next
    case False
    then show ?thesis
      unfolding handle_data_def ts ctr by simp
  qed
qed

lemma handle_data_body:
  assumes "aead_ok A" "length (recv_key c) = 32" "length (recv_pfx c) = 12"
    and "msg_ok m" "recv_counter c < 2 ^ 64"
  shows "handle_data A (data_body A (recv_key c) (recv_pfx c) (recv_counter c) m) buf c =
    (c\<lparr>recv_counter := recv_counter c + 1, recv_buf := recv_buf c @ snd (fill_buf buf (snd m))\<rparr>,
     Return (fst (fill_buf buf (snd m))))"
  using assms
  by (simp add: data_body_def handle_data_shape msg_ok_def aead_okD [OF assms(1,2)])

section \<open>An encrypted connection keeps the stream contract of its carrier\<close>

definition sc_keys_ok :: "'s secure_conn \<Rightarrow> bool" where
  "sc_keys_ok c \<longleftrightarrow> length (send_key c) = 32 \<and> length (recv_key c) = 32 \<and>
     length (send_pfx c) = 12 \<and> length (recv_pfx c) = 12"

definition sc_link ::
  "aead \<Rightarrow> ('s \<Rightarrow> bytes \<Rightarrow> bytes \<Rightarrow> bool) \<Rightarrow> bytes \<Rightarrow> 's secure_conn \<Rightarrow> bytes \<Rightarrow> bytes \<Rightarrow> bool" where
  "sc_link A link base c inb outb \<longleftrightarrow> aead_ok A \<and> sc_keys_ok c \<and> \<not> sc_closed c \<and>
     (\<exists>s rms sms. inner_conn c = Some s \<and>
        inb = recv_buf c @ concat (map snd rms) \<and> list_all msg_ok rms \<and>
        recv_counter c + length rms \<le> 2 ^ 64 \<and>
        outb = concat (map snd sms) \<and> list_all msg_ok sms \<and> send_counter c = length sms \<and>
        link s (data_frames A (recv_key c) (recv_pfx c) (recv_counter c) rms)
          (base @ data_frames A (send_key c) (send_pfx c) 0 sms))"

lemma sc_linkI:
  assumes "aead_ok A" "sc_keys_ok c" "\<not> sc_closed c" "inner_conn c = Some s"
    "inb = recv_buf c @ concat (map snd rms)" "list_all msg_ok rms"
    "recv_counter c + length rms \<le> 2 ^ 64"
    "outb = concat (map snd sms)" "list_all msg_ok sms" "send_counter c = length sms"
    "link s (data_frames A (recv_key c) (recv_pfx c) (recv_counter c) rms)
       (base @ data_frames A (send_key c) (send_pfx c) 0 sms)"
  shows "sc_link A link base c inb outb"
  using assms unfolding sc_link_def by blast

text \<open>The lengths an encrypted connection can still write: empty writes cost nothing, the others take
  one counter and one frame of 33 bytes more on the carrier.\<close>

definition sc_wok :: "('s \<Rightarrow> nat list \<Rightarrow> bool) \<Rightarrow> 's secure_conn \<Rightarrow> nat list \<Rightarrow> bool" where
  "sc_wok wok c ns \<longleftrightarrow>
     (let ms = filter (\<lambda>n. 0 < n) ns in
      send_counter c + length ms \<le> 2 ^ 64 \<and> list_all (\<lambda>n. n + 29 \<le> MAX_MESSAGE_SIZE) ms \<and>
      (\<exists>s. inner_conn c = Some s \<and> wok s (map (\<lambda>n. n + 33) ms)))"

text \<open>A write puts one frame on the carrier and does what the carrier does with it.\<close>

lemma sc_write_sends:
  assumes A: "aead_ok A" "sc_keys_ok c" "\<not> sc_closed c" "inner_conn c = Some s"
    and d: "data \<noteq> []" "send_counter c < 2 ^ 64"
  shows "sc_write A now ops data c =
    (let (s', r) = write_frame_to_conn ops
           (data_body A (send_key c) (send_pfx c) (send_counter c) (write_ts now c, data)) s
     in (c\<lparr>send_counter := send_counter c + 1, inner_conn := Some s'\<rparr>, map_res (\<lambda>_. length data) r))"
proof -
  let ?ts = "write_ts now c" and ?n = "send_counter c"
  have keys: "length (send_key c) = 32" "length (send_pfx c) = 12"
    using A by (auto simp: sc_keys_ok_def)
  have ts: "?ts < 2 ^ 32" unfolding write_ts_def by (rule mask32_bound)
  have nonce: "write_nonce now c = Return (nonce_of (send_pfx c) ?ts ?n)"
    unfolding write_nonce_def using keys d(2) ts by (intro make_nonce_eq)
  have "marshal_data ?ts ?n (seal A (send_key c) (nonce_of (send_pfx c) ?ts ?n) data) =
      Return (data_body A (send_key c) (send_pfx c) ?n (?ts, data))"
    using d(2) ts by (simp add: marshal_data_Return data_body_def)
  then show ?thesis
    using A d(1) nonce keys
    by (simp add: sc_write_def sc_write_locked_def Let_def split_beta seal_def aead_okD(1) [OF A(1)])
qed

context conn_stream
begin

text \<open>The next frame on the carrier is opened as one message: as much of it as fits goes into the caller's
  buffer, the rest is kept.\<close>

lemma sc_read_message:
  assumes A: "aead_ok A" "sc_keys_ok c" "\<not> sc_closed c" "inner_conn c = Some s"
    and ln: "link s (data_frames A (recv_key c) (recv_pfx c) (recv_counter c) (m # rms)) wire"
    and m: "msg_ok m" "recv_counter c < 2 ^ 64" "recv_buf c = []" "buf \<noteq> []"
    and k: "k = min (length buf) (length (snd m))"
  shows "\<exists>s'. sc_read A ops buf c =
      (c\<lparr>inner_conn := Some s', recv_counter := recv_counter c + 1, recv_buf := drop k (snd m)\<rparr>,
       Return (take k (snd m) @ drop k buf, k)) \<and>
    link s' (data_frames A (recv_key c) (recv_pfx c) (Suc (recv_counter c)) rms) wire \<and>
    (\<forall>ns. wok s ns \<longrightarrow> wok s' ns)"
proof -
  let ?body = "data_body A (recv_key c) (recv_pfx c) (recv_counter c) m"
  have keys: "length (recv_key c) = 32" "length (recv_pfx c) = 12"
    using A by (auto simp: sc_keys_ok_def)
  then have "length ?body \<le> MAX_MESSAGE_SIZE" using m A by (simp add: length_data_body msg_ok_def)
  then obtain s' where r: "read_frame_from_conn ops s = (s', Return ?body)"
    and l': "link s' (data_frames A (recv_key c) (recv_pfx c) (Suc (recv_counter c)) rms) wire"
    and w': "\<And>ns. wok s ns \<Longrightarrow> wok s' ns"
    using read_frame_delivers ln by (metis data_frames.simps(2))
  have "handle_data A ?body buf (c\<lparr>inner_conn := Some s'\<rparr>) =
      (c\<lparr>inner_conn := Some s', recv_counter := recv_counter c + 1, recv_buf := drop k (snd m)\<rparr>,
       Return (take k (snd m) @ drop k buf, k))"
    using handle_data_body [OF A(1), of "c\<lparr>inner_conn := Some s'\<rparr>" m buf] m keys
    by (simp add: fill_buf_eq Let_def k)
  moreover obtain bt where "?body = MSG_DATA # bt" by (simp add: data_body_def)
  ultimately have "sc_read A ops buf c =
      (c\<lparr>inner_conn := Some s', recv_counter := recv_counter c + 1, recv_buf := drop k (snd m)\<rparr>,
       Return (take k (snd m) @ drop k buf, k))"
    using m A r by (simp add: sc_read_def sc_read_locked_def Let_def)
  with l' w' show ?thesis by blast
qed

lemma sc_read_some:
  assumes l: "sc_link A link base c inb outb" and ne: "inb \<noteq> []" and buf: "buf \<noteq> []"
  shows "\<exists>k c'. 0 < k \<and> k \<le> length buf \<and> k \<le> length inb \<and>
    sc_read A ops buf c = (c', Return (take k inb @ drop k buf, k)) \<and>
    sc_link A link base c' (drop k inb) outb \<and> (\<forall>ns. sc_wok wok c ns \<longrightarrow> sc_wok wok c' ns)"
proof -
  from l obtain s rms sms where A: "aead_ok A" "sc_keys_ok c" "\<not> sc_closed c"
    and s: "inner_conn c = Some s"
    and inb: "inb = recv_buf c @ concat (map snd rms)" and rms: "list_all msg_ok rms"
      "recv_counter c + length rms \<le> 2 ^ 64"
    and out: "outb = concat (map snd sms)" "list_all msg_ok sms" "send_counter c = length sms"
    and ln: "link s (data_frames A (recv_key c) (recv_pfx c) (recv_counter c) rms)
          (base @ data_frames A (send_key c) (send_pfx c) 0 sms)"
    by (auto simp: sc_link_def)
  show ?thesis
  proof (cases "recv_buf c = []")
    case False
    let ?k = "min (length buf) (length (recv_buf c))"
    have "sc_read A ops buf c =
        (c\<lparr>recv_buf := drop ?k (recv_buf c)\<rparr>, Return (take ?k inb @ drop ?k buf, ?k))"
      using False buf A s by (simp add: sc_read_def sc_read_locked_def fill_buf_eq Let_def inb)
    moreover have "sc_link A link base (c\<lparr>recv_buf := drop ?k (recv_buf c)\<rparr>) (drop ?k inb) outb"
      by (rule sc_linkI [where rms = rms and sms = sms])
         (use A s rms out ln in \<open>auto simp: inb sc_keys_ok_def\<close>)
    moreover have "0 < ?k" "?k \<le> length buf" "?k \<le> length inb"
      using False buf by (auto simp: inb)
    ultimately show ?thesis by (fastforce simp: sc_wok_def Let_def)
  next
    case True
    with ne inb obtain m rms' where ms: "rms = m # rms'" by (cases rms) auto
    have m: "msg_ok m" "recv_counter c < 2 ^ 64" using rms by (auto simp: ms)
    let ?k = "min (length buf) (length (snd m))"
    obtain s' where s': "sc_read A ops buf c =
        (c\<lparr>inner_conn := Some s', recv_counter := recv_counter c + 1, recv_buf := drop ?k (snd m)\<rparr>,
         Return (take ?k (snd m) @ drop ?k buf, ?k))"
      and l': "link s' (data_frames A (recv_key c) (recv_pfx c) (Suc (recv_counter c)) rms')
          (base @ data_frames A (send_key c) (send_pfx c) 0 sms)"
      and w': "\<And>ns. wok s ns \<Longrightarrow> wok s' ns"
      using sc_read_message [OF A s ln [unfolded ms] m True buf refl] by blast
    let ?c = "c\<lparr>inner_conn := Some s', recv_counter := recv_counter c + 1,
                recv_buf := drop ?k (snd m)\<rparr>"
    have "sc_read A ops buf c = (?c, Return (take ?k inb @ drop ?k buf, ?k))"
      using s' True by (simp add: inb ms)
    moreover have "sc_link A link base ?c (drop ?k inb) outb"
      by (rule sc_linkI [where rms = rms' and sms = sms])
         (use A True l' rms out in \<open>auto simp: inb ms sc_keys_ok_def\<close>)
    moreover have "0 < ?k" "?k \<le> length buf" "?k \<le> length inb"
      using m buf True by (auto simp: inb ms msg_ok_def)
    moreover have "sc_wok wok ?c ns" if "sc_wok wok c ns" for ns
      using that w' s by (auto simp: sc_wok_def Let_def)
    ultimately show ?thesis by blast
  qed
qed

lemma sc_write_puts:
  assumes A: "aead_ok A" "sc_keys_ok c" "\<not> sc_closed c" "inner_conn c = Some s"
    and ln: "link s inb wire" and w: "wok s ((length data + 33) # ns)"
    and d: "data \<noteq> []" "length data + 29 < 256 ^ 4" "send_counter c < 2 ^ 64"
    and m_def: "m = (write_ts now c, data)"
  shows "\<exists>s'. sc_write A now ops data c =
      (c\<lparr>send_counter := send_counter c + 1, inner_conn := Some s'\<rparr>, Return (length data)) \<and>
    link s' inb (wire @ frame (data_body A (send_key c) (send_pfx c) (send_counter c) m)) \<and>
    wok s' ns"
proof -
  let ?body = "data_body A (send_key c) (send_pfx c) (send_counter c) m"
  have lb: "length ?body = length data + 29"
    using A by (simp add: length_data_body m_def sc_keys_ok_def)
  have "wok s ((length ?body + 4) # ns)" "length ?body < 256 ^ 4"
    using w d by (simp_all add: lb add.commute)
  then obtain s' where wr: "write_frame_to_conn ops ?body s = (s', Return ())"
    "link s' inb (wire @ frame ?body)" "wok s' ns"
    by (rule write_frame_puts [OF ln])
  then have "sc_write A now ops data c =
      (c\<lparr>send_counter := send_counter c + 1, inner_conn := Some s'\<rparr>, Return (length data))"
    using sc_write_sends [OF A d(1,3), of now ops] by (simp add: m_def)
  with wr show ?thesis by blast
qed

lemma sc_write_all:
  assumes l: "sc_link A link base c inb outb" and w: "sc_wok wok c (length data # ns)"
  shows "\<exists>c'. sc_write A now ops data c = (c', Return (length data)) \<and>
    sc_link A link base c' inb (outb @ data) \<and> sc_wok wok c' ns"
proof (cases "data = []")
  case True
  from l obtain s where "inner_conn c = Some s" "\<not> sc_closed c" by (auto simp: sc_link_def)
  with True l w show ?thesis
    by (simp add: sc_write_def sc_write_locked_def sc_wok_def)
next
  case False
  from l obtain s rms sms where A: "aead_ok A" "sc_keys_ok c" "\<not> sc_closed c" "inner_conn c = Some s"
    and inb: "inb = recv_buf c @ concat (map snd rms)" "list_all msg_ok rms"
      "recv_counter c + length rms \<le> 2 ^ 64"
    and out: "outb = concat (map snd sms)" "list_all msg_ok sms" "send_counter c = length sms"
    and ln: "link s (data_frames A (recv_key c) (recv_pfx c) (recv_counter c) rms)
          (base @ data_frames A (send_key c) (send_pfx c) 0 sms)"
    by (auto simp: sc_link_def)
  let ?m = "(write_ts now c, data)" and ?n = "send_counter c"
  let ?ms = "filter (\<lambda>n. 0 < n) ns"
  from w False A(4) have n: "?n < 2 ^ 64" "?n + Suc (length ?ms) \<le> 2 ^ 64"
    and small: "length data + 29 \<le> MAX_MESSAGE_SIZE" "list_all (\<lambda>n. n + 29 \<le> MAX_MESSAGE_SIZE) ?ms"
    and ws: "wok s ((length data + 33) # map (\<lambda>n. n + 33) ?ms)"
    by (auto simp: sc_wok_def Let_def)
  have m: "msg_ok ?m"
    using False small mask32_bound by (simp add: msg_ok_def write_ts_def)
  have "length data + 29 < 256 ^ 4" using small(1) by (simp add: MAX_MESSAGE_SIZE_def)
  from sc_write_puts [OF A ln ws False this n(1) refl, of now] obtain s' where
    wr: "sc_write A now ops data c =
      (c\<lparr>send_counter := ?n + 1, inner_conn := Some s'\<rparr>, Return (length data))"
    and l': "link s' (data_frames A (recv_key c) (recv_pfx c) (recv_counter c) rms)
      ((base @ data_frames A (send_key c) (send_pfx c) 0 sms) @
        frame (data_body A (send_key c) (send_pfx c) ?n ?m))"
    and w': "wok s' (map (\<lambda>n. n + 33) ?ms)"
    by blast
  let ?c = "c\<lparr>send_counter := ?n + 1, inner_conn := Some s'\<rparr>"
  have "sc_link A link base ?c inb (outb @ data)"
    by (rule sc_linkI [where rms = rms and sms = "sms @ [?m]"])
       (use A inb out l' m in \<open>auto simp: data_frames_append sc_keys_ok_def\<close>)
  moreover have "sc_wok wok ?c ns"
    using n small w' by (simp add: sc_wok_def)
  ultimately show ?thesis using wr by blast
qed

theorem secure_stream: "conn_stream (secure_ops A now ops) (sc_link A link base) (sc_wok wok)"
  using sc_read_some sc_write_all by unfold_locales simp_all

text \<open>The same without naming what went over the carrier before.\<close>

lemma secure_stream_any:
  "conn_stream (secure_ops A now ops) (\<lambda>c inb outb. \<exists>base. sc_link A link base c inb outb) (sc_wok wok)"
proof
  fix c inb outb and buf :: bytes
  assume "\<exists>base. sc_link A link base c inb outb" "inb \<noteq> []" "buf \<noteq> []"
  then show "\<exists>k c'. 0 < k \<and> k \<le> length buf \<and> k \<le> length inb \<and>
      op_read (secure_ops A now ops) buf c = (c', Return (take k inb @ drop k buf, k)) \<and>
      (\<exists>base. sc_link A link base c' (drop k inb) outb) \<and> (\<forall>ns. sc_wok wok c ns \<longrightarrow> sc_wok wok c' ns)"
    using sc_read_some unfolding secure_ops_sel by meson
next
  fix c inb outb and data :: bytes and ns
  assume "\<exists>base. sc_link A link base c inb outb" "sc_wok wok c (length data # ns)"
  then show "\<exists>c'. op_write (secure_ops A now ops) data c = (c', Return (length data)) \<and>
      (\<exists>base. sc_link A link base c' inb (outb @ data)) \<and> sc_wok wok c' ns"
    using sc_write_all unfolding secure_ops_sel by meson
qed

end

section \<open>Closing\<close>

interpretation secure_shut: conn_shut "secure_ops A now ops" "\<lambda>c. inner_conn c \<noteq> None" sc_closed
  by unfold_locales
    (auto simp: sc_close_def sc_read_def sc_write_def split_beta split: option.split)

text \<open>Closing closes the carrier, once, and writes nothing to it.\<close>

lemma sc_close_carrier:
  "sc_close ops c =
     (if sc_closed c \<or> inner_conn c = None then (c, Return ())
      else (c\<lparr>sc_closed := True, inner_conn := Some (fst (op_close ops (the (inner_conn c))))\<rparr>,
            snd (op_close ops (the (inner_conn c)))))"
  by (auto simp: sc_close_def split_beta split: option.split)

section \<open>Counters under arbitrary calls over an arbitrary carrier\<close>

text \<open>What one call may change: the keys never, the counters only upwards.\<close>

definition sc_frame :: "'s secure_conn \<Rightarrow> 's secure_conn \<Rightarrow> bool" where
  "sc_frame c c' \<longleftrightarrow> send_key c' = send_key c \<and> recv_key c' = recv_key c \<and>
     send_pfx c' = send_pfx c \<and> recv_pfx c' = recv_pfx c \<and>
     send_counter c \<le> send_counter c' \<and> recv_counter c \<le> recv_counter c'"

lemma sc_frame_refl [simp]: "sc_frame c c"
  by (simp add: sc_frame_def)

lemma sc_frame_trans: "sc_frame c c' \<Longrightarrow> sc_frame c' c'' \<Longrightarrow> sc_frame c c''"
  by (auto simp: sc_frame_def)

lemma sc_frame_inner [simp]: "sc_frame c (c\<lparr>inner_conn := x\<rparr>)"
  by (simp add: sc_frame_def)

lemma handle_data_frame: "sc_frame c (fst (handle_data A body buf c))"
  by (auto simp: handle_data_def sc_frame_def Let_def split_beta
      split: res.split option.split prod.split)

lemma sc_read_frame: "sc_frame c (fst (sc_read A ops buf c))"
proof -
  have "sc_frame c (fst (handle_data A body buf (c\<lparr>inner_conn := x\<rparr>)))" for body x
    using handle_data_frame [of "c\<lparr>inner_conn := x\<rparr>"] by (auto simp: sc_frame_def)
  then show ?thesis
    unfolding sc_read_def sc_read_locked_def
    by (auto simp: sc_frame_def Let_def split_beta split: option.split prod.split res.split list.split)
qed

lemma sc_write_frame: "sc_frame c (fst (sc_write A now ops data c))"
  unfolding sc_write_def sc_write_locked_def
  by (auto simp: sc_frame_def Let_def split_beta split: option.split res.split)

lemma sc_close_frame: "sc_frame c (fst (sc_close ops c))"
  by (auto simp: sc_close_def sc_frame_def split_beta split: option.split)

lemma sc_calls_frame: "sc_frame c (fst (run_calls (secure_ops A now ops) cs c))"
proof (induction cs arbitrary: c)
  case (Cons x cs)
  then show ?case
    by (cases x)
      (auto simp: split_beta
        intro: sc_frame_trans [OF sc_read_frame] sc_frame_trans [OF sc_write_frame]
          sc_frame_trans [OF sc_close_frame])
qed simp

text \<open>A non-empty write on an open, bound connection uses up a counter value, whatever happens to it.\<close>

lemma sc_write_counter:
  "\<not> sc_closed c \<Longrightarrow> inner_conn c \<noteq> None \<Longrightarrow> data \<noteq> [] \<Longrightarrow>
     send_counter (fst (sc_write A now ops data c)) = Suc (send_counter c)"
  unfolding sc_write_def sc_write_locked_def
  by (auto simp: Let_def split_beta split: option.split res.split)

text \<open>The nonces handed to the cipher by the writes of a sequence of calls.\<close>

fun sent_nonces ::
  "aead \<Rightarrow> (nat \<Rightarrow> int) \<Rightarrow> 's conn_ops \<Rightarrow> conn_call list \<Rightarrow> 's secure_conn \<Rightarrow> bytes list" where
  "sent_nonces A now ops [] c = []"
| "sent_nonces A now ops (CallWrite d # cs) c =
     (if sc_closed c \<or> inner_conn c = None \<or> d = [] then []
      else (case write_nonce now c of Return n \<Rightarrow> [n] | _ \<Rightarrow> [])) @
     sent_nonces A now ops cs (fst (sc_write A now ops d c))"
| "sent_nonces A now ops (CallRead b # cs) c = sent_nonces A now ops cs (fst (sc_read A ops b c))"
| "sent_nonces A now ops (CallClose # cs) c = sent_nonces A now ops cs (fst (sc_close ops c))"

lemma write_nonce_Return:
  assumes "length (send_pfx c) = 12" "write_nonce now c = Return nonce"
  shows "nonce = nonce_of (send_pfx c) (write_ts now c) (send_counter c)"
    "write_ts now c < 2 ^ 32" "send_counter c < 2 ^ 64"
  using assms by (auto simp: write_nonce_def make_nonce_Return)

lemma sent_nonces_above:
  assumes "length (send_pfx c) = 12" "nonce \<in> set (sent_nonces A now ops cs c)"
  shows "\<exists>ts n. nonce = nonce_of (send_pfx c) ts n \<and> ts < 2 ^ 32 \<and> send_counter c \<le> n \<and> n < 2 ^ 64"
  using assms
proof (induction A now ops cs c rule: sent_nonces.induct)
  case (2 A now ops d cs c)
  show ?case
  proof (cases "nonce \<in> set (sent_nonces A now ops cs (fst (sc_write A now ops d c)))")
    case True
    with 2 show ?thesis
      using sc_write_frame [of c A now ops d] by (fastforce simp: sc_frame_def)
  next
    case False
    with 2 have "write_nonce now c = Return nonce" by (auto split: if_splits res.splits)
    with 2 write_nonce_Return [of c now nonce] show ?thesis by auto
  qed
next
  case (3 A now ops b cs c)
  then show ?case using sc_read_frame [of c A ops b] by (fastforce simp: sc_frame_def)
next
  case (4 A now ops cs c)
  then show ?case using sc_close_frame [of c ops] by (fastforce simp: sc_frame_def)
qed simp

lemma sent_nonces_distinct_gen:
  "length (send_pfx c) = 12 \<Longrightarrow> distinct (sent_nonces A now ops cs c)"
proof (induction A now ops cs c rule: sent_nonces.induct)
  case (2 A now ops d cs c)
  let ?c = "fst (sc_write A now ops d c)"
  have pfx: "send_pfx ?c = send_pfx c"
    using sc_write_frame [of c A now ops d] by (simp add: sc_frame_def)
  have "nonce \<notin> set (sent_nonces A now ops cs ?c)"
    if "\<not> sc_closed c" "inner_conn c \<noteq> None" "d \<noteq> []" and w: "write_nonce now c = Return nonce" for nonce
  proof
    assume "nonce \<in> set (sent_nonces A now ops cs ?c)"
    then obtain ts n where a: "nonce = nonce_of (send_pfx c) ts n" "ts < 2 ^ 32"
      "send_counter ?c \<le> n" "n < 2 ^ 64"
      using sent_nonces_above [of ?c nonce A now ops cs] 2 pfx by auto
    note b = write_nonce_Return [OF "2.prems" w]
    have "n = send_counter c"
      using a b nonce_of_inject [of "send_pfx c" "send_pfx c" ts "write_ts now c" n "send_counter c"]
      by simp
    with a(3) show False using that(1-3) sc_write_counter [of c d A now ops] by simp
  qed
  with 2 pfx show ?case by (auto split: res.split)
next
  case (3 A now ops b cs c)
  then show ?case using sc_read_frame [of c A ops b] by (simp add: sc_frame_def)
next
  case (4 A now ops cs c)
  then show ?case using sc_close_frame [of c ops] by (simp add: sc_frame_def)
qed simp

section \<open>Replay and ordering against an arbitrary carrier\<close>

lemma handle_data_unfold:
  "handle_data A body buf c =
     (if length body < 13 then (c, Raise (Exn ValueError [Txt ''DATA message too short'']))
      else if be_val (slice 5 13 body) \<noteq> recv_counter c
      then (c, Raise (Exn ValueError [Txt ''unexpected DATA counter'']))
      else case make_nonce (recv_pfx c) (be_val (slice 1 5 body)) (recv_counter c) of
        Raise e \<Rightarrow> (c, Raise e)
      | Blocked \<Rightarrow> (c, Blocked)
      | Return nonce \<Rightarrow>
          if \<not> cipher_new A (recv_key c) nonce
          then (c, Raise (Exn ValueError [Txt ''ChaCha20_Poly1305.new'']))
          else case decrypt_and_verify A (recv_key c) nonce (slice_but_last 16 (drop 13 body))
                      (slice_last 16 (drop 13 body)) of
            None \<Rightarrow> (c, Raise (Exn ValueError [Txt ''AEAD decrypt failed: tag mismatch'']))
          | Some p \<Rightarrow> (c\<lparr>recv_counter := Suc (recv_counter c),
                          recv_buf := recv_buf c @ snd (fill_buf buf p)\<rparr>,
                        Return (fst (fill_buf buf p))))"
proof (cases "length body < 13")
  case False
  then have "struct_unpack 4 (slice 1 5 body) = Return (be_val (slice 1 5 body))"
    "struct_unpack 8 (slice 5 13 body) = Return (be_val (slice 5 13 body))"
    by (simp_all add: struct_unpack_def)
  with False show ?thesis
    by (auto simp: handle_data_def Let_def split_beta simp del: One_nat_def
        split: res.split option.split)
qed (simp add: handle_data_def)

text \<open>A DATA body that is delivered carries the expected counter, opens under it, and advances it.\<close>

lemma handle_data_Return:
  assumes "handle_data A body buf c = (c', Return r)" "length (recv_pfx c) = 12"
  shows "13 \<le> length body \<and> be_val (slice 5 13 body) = recv_counter c \<and>
    (\<exists>nonce p ts. ts < 2 ^ 32 \<and> nonce = nonce_of (recv_pfx c) ts (recv_counter c) \<and>
       decrypt_and_verify A (recv_key c) nonce (slice_but_last 16 (drop 13 body))
         (slice_last 16 (drop 13 body)) = Some p \<and>
       recv_counter c < 2 ^ 64 \<and> r = fst (fill_buf buf p) \<and>
       c' = c\<lparr>recv_counter := Suc (recv_counter c),
              recv_buf := recv_buf c @ snd (fill_buf buf p)\<rparr>)"
  using assms
  by (auto simp: handle_data_unfold make_nonce_Return split: if_splits res.splits option.splits)

lemma handle_data_stale:
  assumes "handle_data A body buf c = (c', Return r)" "length (recv_pfx c) = 12"
    and "recv_counter c < recv_counter c2"
  shows "handle_data A body buf2 c2 =
    (c2, Raise (Exn ValueError [Txt ''unexpected DATA counter'']))"
proof -
  have b: "13 \<le> length body" "be_val (slice 5 13 body) = recv_counter c"
    using handle_data_Return [OF assms(1,2)] by auto
  with assms(3) show ?thesis by (simp add: handle_data_unfold)
qed

text \<open>The plaintext a sequence of calls hands to the caller.\<close>

fun delivered :: "conn_call list \<Rightarrow> (bytes \<times> nat) res list \<Rightarrow> bytes" where
  "delivered (CallRead buf # cs) (Return (b, n) # rs) = take n b @ delivered cs rs"
| "delivered (c # cs) (r # rs) = delivered cs rs"
| "delivered _ _ = []"

text \<open>What a receiver holds after the first \<open>recv_counter\<close> messages of the sender's log.\<close>

definition log_inv :: "(nat \<times> bytes) list \<Rightarrow> bytes \<Rightarrow> 's secure_conn \<Rightarrow> bool" where
  "log_inv sent out c \<longleftrightarrow> recv_counter c \<le> length sent \<and>
     out @ recv_buf c = concat (map snd (take (recv_counter c) sent))"

text \<open>The frame bodies that the reads of a sequence of calls take off the carrier.\<close>

definition read_body :: "'s conn_ops \<Rightarrow> bytes \<Rightarrow> 's secure_conn \<Rightarrow> bytes list" where
  "read_body ops buf c =
     (if sc_closed c \<or> buf = [] \<or> recv_buf c \<noteq> [] then []
      else case inner_conn c of
        None \<Rightarrow> []
      | Some s \<Rightarrow> (case snd (read_frame_from_conn ops s) of Return body \<Rightarrow> [body] | _ \<Rightarrow> []))"

fun read_bodies ::
  "aead \<Rightarrow> (nat \<Rightarrow> int) \<Rightarrow> 's conn_ops \<Rightarrow> conn_call list \<Rightarrow> 's secure_conn \<Rightarrow> bytes list" where
  "read_bodies A now ops [] c = []"
| "read_bodies A now ops (CallRead b # cs) c =
     read_body ops b c @ read_bodies A now ops cs (fst (sc_read A ops b c))"
| "read_bodies A now ops (CallWrite d # cs) c =
     read_bodies A now ops cs (fst (sc_write A now ops d c))"
| "read_bodies A now ops (CallClose # cs) c = read_bodies A now ops cs (fst (sc_close ops c))"

text \<open>No forgery among the given bodies: the cipher opens, under the receiver's key, only what the
  sender sealed there. This is about the frames of one run, since a cipher with a 16-byte tag cannot
  refuse every byte string that its owner did not produce.\<close>

definition unforgeable :: "aead \<Rightarrow> bytes \<Rightarrow> bytes \<Rightarrow> (nat \<times> bytes) list \<Rightarrow> bytes list \<Rightarrow> bool" where
  "unforgeable A key pfx sent bodies \<longleftrightarrow>
     (\<forall>body \<in> set bodies. \<forall>nonce p.
        decrypt_and_verify A key nonce (slice_but_last 16 (drop 13 body)) (slice_last 16 (drop 13 body)) =
          Some p \<longrightarrow>
        (\<exists>n < length sent. n < 2 ^ 64 \<and> fst (sent ! n) < 2 ^ 32 \<and>
           nonce = nonce_of pfx (fst (sent ! n)) n \<and> p = snd (sent ! n)))"

lemma unforgeable_append [simp]:
  "unforgeable A key pfx sent (xs @ ys) \<longleftrightarrow>
     unforgeable A key pfx sent xs \<and> unforgeable A key pfx sent ys"
  by (auto simp: unforgeable_def)

text \<open>One read keeps the relation between what was delivered and the sender's log.\<close>

lemma handle_data_log:
  assumes "unforgeable A (recv_key c) (recv_pfx c) sent [body]" "length (recv_pfx c) = 12"
    and "log_inv sent out c" "recv_buf c = []" "handle_data A body buf c = (c', Return (b, n))"
  shows "log_inv sent (out @ take n b) c'"
proof -
  obtain p ts where d: "decrypt_and_verify A (recv_key c) (nonce_of (recv_pfx c) ts (recv_counter c))
       (slice_but_last 16 (drop 13 body)) (slice_last 16 (drop 13 body)) = Some p"
    and b: "ts < 2 ^ 32" "recv_counter c < 2 ^ 64" and r: "(b, n) = fst (fill_buf buf p)"
    and c': "c' = c\<lparr>recv_counter := Suc (recv_counter c), recv_buf := snd (fill_buf buf p)\<rparr>"
    using handle_data_Return [OF assms(5,2)] assms(4) by auto
  obtain k where k: "k < length sent" "k < 2 ^ 64" "fst (sent ! k) < 2 ^ 32"
    "nonce_of (recv_pfx c) ts (recv_counter c) = nonce_of (recv_pfx c) (fst (sent ! k)) k"
    "p = snd (sent ! k)"
    using assms(1) d unfolding unforgeable_def by auto
  then have k': "k = recv_counter c"
    using b nonce_of_inject [of "recv_pfx c" "recv_pfx c" ts "fst (sent ! k)" "recv_counter c" k]
    by simp
  have "take n b @ snd (fill_buf buf p) = p"
    using r by (auto simp: fill_buf_eq Let_def)
  then show ?thesis
    using assms(3,4) k k' by (simp add: log_inv_def c' take_Suc_conv_app_nth)
qed

lemma handle_data_unchanged:
  "handle_data A body buf c = (c', r) \<Longrightarrow> r = Raise e \<or> r = Blocked \<Longrightarrow> c' = c"
  by (auto simp: handle_data_unfold split: if_splits res.splits option.splits)

lemma sc_read_cases:
  assumes "sc_read A ops buf c = (c', r)"
  obtains (same) "recv_buf c' = recv_buf c" "recv_counter c' = recv_counter c"
      "\<And>b n. r = Return (b, n) \<Longrightarrow> n = 0"
  | (buffered) "recv_buf c \<noteq> []" "c' = c\<lparr>recv_buf := snd (fill_buf buf (recv_buf c))\<rparr>"
      "r = Return (fst (fill_buf buf (recv_buf c)))"
  | (data) s' body b n where "recv_buf c = []" "r = Return (b, n)" "read_body ops buf c = [body]"
      "handle_data A body buf (c\<lparr>inner_conn := Some s'\<rparr>) = (c', Return (b, n))"
proof -
  have d: thesis if h: "handle_data A body buf (c\<lparr>inner_conn := Some s'\<rparr>) = (c', r)"
    and e: "recv_buf c = []" "read_body ops buf c = [body]" for body s'
  proof (cases r)
    case (Return x)
    with h e data show thesis by (cases x) auto
  qed (use handle_data_unchanged [OF h] same in auto)
  show thesis
  proof (cases "sc_closed c \<or> buf = [] \<or> inner_conn c = None")
    case True
    with assms have "c' = c" "\<forall>b n. r = Return (b, n) \<longrightarrow> n = 0"
      by (auto simp: sc_read_def sc_read_locked_def split: if_splits)
    then show thesis using same by simp
  next
    case False
    then obtain s where s: "inner_conn c = Some s" "\<not> sc_closed c" "buf \<noteq> []" by auto
    obtain s' fr where fr: "read_frame_from_conn ops s = (s', fr)"
      by (cases "read_frame_from_conn ops s")
    show thesis
    proof (cases "recv_buf c = []")
      case False
      with assms s show thesis
        by (intro buffered) (auto simp: sc_read_def sc_read_locked_def split_beta)
    next
      case True
      note un = sc_read_def sc_read_locked_def s fr True Let_def
      show thesis
      proof (cases "\<exists>t. fr = Return (MSG_DATA # t)")
        case True
        then obtain t where t: "fr = Return (MSG_DATA # t)" by blast
        have "handle_data A (MSG_DATA # t) buf (c\<lparr>inner_conn := Some s'\<rparr>) = (c', r)"
          using assms by (simp add: un t)
        moreover have "read_body ops buf c = [MSG_DATA # t]"
          using s fr t \<open>recv_buf c = []\<close> by (simp add: read_body_def)
        ultimately show thesis using d \<open>recv_buf c = []\<close> by blast
      next
        case False
        with assms have "recv_buf c' = recv_buf c \<and> recv_counter c' = recv_counter c \<and>
            (\<forall>x. r \<noteq> Return x)"
          by (cases fr) (auto simp: un split: list.splits if_splits)
        then show thesis using same by blast
      qed
    qed
  qed
qed

lemma sc_read_log:
  assumes "unforgeable A (recv_key c) (recv_pfx c) sent (read_body ops buf c)" "length (recv_pfx c) = 12"
    and inv: "log_inv sent out c" and rd: "sc_read A ops buf c = (c', r)"
  shows "log_inv sent (out @ delivered [CallRead buf] [r]) c'"
proof -
  from rd show ?thesis
  proof (cases rule: sc_read_cases)
    case same
    with inv show ?thesis by (cases r) (auto simp: log_inv_def)
  next
    case buffered
    with inv show ?thesis
      by (auto simp: log_inv_def fill_buf_eq Let_def)
  next
    case (data s' body b n)
    have "log_inv sent out (c\<lparr>inner_conn := Some s'\<rparr>)" using inv by (simp add: log_inv_def)
    with data assms(1,2) show ?thesis
      using handle_data_log [of A "c\<lparr>inner_conn := Some s'\<rparr>" sent body out buf c' b n] by simp
  qed
qed

lemma sc_calls_log:
  assumes "unforgeable A (recv_key c) (recv_pfx c) sent (read_bodies A now ops cs c)"
    and "length (recv_pfx c) = 12"
    and "log_inv sent out c" "run_calls (secure_ops A now ops) cs c = (c', rs)"
  shows "log_inv sent (out @ delivered cs rs) c'"
  using assms
proof (induction cs arbitrary: c out rs)
  case (Cons x cs)
  show ?case
  proof (cases x)
    case (CallRead buf)
    obtain c1 r where rd: "sc_read A ops buf c = (c1, r)" by (cases "sc_read A ops buf c")
    obtain rs1 where rs: "rs = r # rs1" and run: "run_calls (secure_ops A now ops) cs c1 = (c', rs1)"
      using Cons.prems(4) CallRead rd by (auto simp: split_beta)
    have "recv_key c1 = recv_key c" "recv_pfx c1 = recv_pfx c"
      using sc_read_frame [of c A ops buf] rd by (auto simp: sc_frame_def)
    then have "log_inv sent ((out @ delivered [CallRead buf] [r]) @ delivered cs rs1) c'"
      using Cons.prems sc_read_log [OF _ Cons.prems(2,3) rd] run rd CallRead by (intro Cons.IH) simp_all
    moreover have "delivered (x # cs) rs = delivered [CallRead buf] [r] @ delivered cs rs1"
      unfolding CallRead rs by (cases r) auto
    ultimately show ?thesis by simp
  next
    case (CallWrite d)
    have f: "recv_buf (fst (sc_write A now ops d c)) = recv_buf c"
      "recv_counter (fst (sc_write A now ops d c)) = recv_counter c"
      by (auto simp: sc_write_def sc_write_locked_def Let_def split_beta split: option.split res.split)
    obtain r rs1 where rs: "rs = r # rs1"
      and run: "run_calls (secure_ops A now ops) cs (fst (sc_write A now ops d c)) = (c', rs1)"
      using Cons.prems(4) CallWrite by (auto simp: split_beta)
    show ?thesis
      using Cons.IH [OF _ _ _ run, of out] Cons.prems(1-3) CallWrite f sc_write_frame [of c A now ops d]
      by (simp add: CallWrite rs sc_frame_def log_inv_def)
  next
    case CallClose
    have f: "recv_buf (fst (sc_close ops c)) = recv_buf c"
      "recv_counter (fst (sc_close ops c)) = recv_counter c"
      by (auto simp: sc_close_def split_beta split: option.split)
    obtain r rs1 where rs: "rs = r # rs1"
      and run: "run_calls (secure_ops A now ops) cs (fst (sc_close ops c)) = (c', rs1)"
      using Cons.prems(4) CallClose by (auto simp: split_beta)
    show ?thesis
      using Cons.IH [OF _ _ _ run, of out] Cons.prems(1-3) CallClose f sc_close_frame [of c ops]
      by (simp add: CallClose rs sc_frame_def log_inv_def)
  qed
qed simp

end
