(* ===== verification/Handshake.thy ===== *)
theory Handshake
  imports SecureConn
begin

text \<open>
  Identities (\<^verbatim>\<open>secure/identity.py\<close>) and the two sides of the USCP handshake
  (\<^verbatim>\<open>secure/handshake.py\<close>).

  BLAKE3, ML-DSA-87 and ML-KEM-1024 come from third-party packages and are the fields of the
  parameter \<open>hs_env\<close>; a package that cannot be imported is \<open>None\<close>. Randomised operations take the
  coins they draw as an argument. \<open>mldsa_ok\<close>, \<open>kem_ok\<close> and \<open>blake3_ok\<close> state their documented
  behaviour.

  A handshake returns the carrier's state with its result; on success the \<open>secure_conn\<close> it returns is
  bound to that very state.
\<close>

section \<open>Third-party primitives\<close>

record mldsa =
  mldsa_keygen :: "nat \<Rightarrow> bytes \<times> bytes"
  mldsa_sign :: "nat \<Rightarrow> bytes \<Rightarrow> bytes \<Rightarrow> bytes"
  mldsa_verify :: "bytes \<Rightarrow> bytes \<Rightarrow> bytes \<Rightarrow> bool res"

record kem =
  kem_keypair :: "nat \<Rightarrow> bytes \<times> bytes"
  kem_encrypt :: "nat \<Rightarrow> bytes \<Rightarrow> (bytes \<times> bytes) res"
  kem_decrypt :: "bytes \<Rightarrow> bytes \<Rightarrow> bytes res"

record hs_env =
  blake3 :: "bytes \<Rightarrow> nat \<Rightarrow> bytes"
  mldsa_backend :: "mldsa option"
  kem_backend :: "kem option"

section \<open>Identity\<close>

record identity =
  id_pk :: bytes
  id_sk :: bytes

definition compute_fingerprint :: "hs_env \<Rightarrow> bytes \<Rightarrow> bytes" where
  "compute_fingerprint E pub_bytes = blake3 E pub_bytes FINGERPRINT_SIZE"

definition identity_generate :: "hs_env \<Rightarrow> nat \<Rightarrow> identity res" where
  "identity_generate E coins =
     (case mldsa_backend E of
        Some B \<Rightarrow> (let (pk, sk) = mldsa_keygen B coins in Return \<lparr>id_pk = pk, id_sk = sk\<rparr>)
      | None \<Rightarrow> Raise (Exn RuntimeError [Txt ''No ML-DSA-87 backend available. '',
                 Txt ''Install `dilithium-py` package: pip install dilithium-py'']))"

definition fingerprint :: "hs_env \<Rightarrow> identity \<Rightarrow> bytes" where
  "fingerprint E i = compute_fingerprint E (id_pk i)"

definition identity_sign :: "hs_env \<Rightarrow> nat \<Rightarrow> identity \<Rightarrow> bytes \<Rightarrow> bytes res" where
  "identity_sign E coins i data =
     (case mldsa_backend E of
        Some B \<Rightarrow> Return (mldsa_sign B coins (id_sk i) data)
      | None \<Rightarrow> Raise (Exn RuntimeError [Txt ''No ML-DSA-87 backend available'']))"

definition public_key_bytes :: "identity \<Rightarrow> bytes" where
  "public_key_bytes i = id_pk i"

definition verify :: "hs_env \<Rightarrow> bytes \<Rightarrow> bytes \<Rightarrow> bytes \<Rightarrow> bool" where
  "verify E pub_bytes data sig_bytes =
     (case mldsa_backend E of
        Some B \<Rightarrow> (case mldsa_verify B pub_bytes data sig_bytes of Return b \<Rightarrow> b | _ \<Rightarrow> False)
      | None \<Rightarrow> False)"

section \<open>Key derivation\<close>

definition derive_keys :: "hs_env \<Rightarrow> bytes \<Rightarrow> session_keys" where
  "derive_keys E shared_secret =
     (let out = blake3 E (KDF_CONTEXT @ shared_secret) KDF_OUTPUT_SIZE
      in \<lparr>initiator_key = slice 0 32 out, responder_key = slice 32 64 out,
          initiator_nonce_pfx = slice 64 76 out, responder_nonce_pfx = slice 76 88 out\<rparr>)"

section \<open>The handshake\<close>

type_synonym verify_fn = "bytes \<Rightarrow> bytes \<Rightarrow> bytes \<Rightarrow> bool"

definition the_verify :: "hs_env \<Rightarrow> verify_fn option \<Rightarrow> verify_fn" where
  "the_verify E v = (case v of None \<Rightarrow> verify E | Some f \<Rightarrow> f)"

definition kem_missing :: exn where
  "kem_missing = Exn RuntimeError [Txt ''pqcrypto package required for ML-KEM-1024'']"

text \<open>The checks both sides make on the message they receive, in the order of the source.\<close>

definition check_hello ::
  "hs_env \<Rightarrow> byte \<Rightarrow> string \<Rightarrow> bytes \<Rightarrow> verify_fn option \<Rightarrow> hello \<Rightarrow> unit res" where
  "check_hello E expected label peer_fp v h =
     (if msg_type h \<noteq> expected
      then Raise (Exn ValueError [Txt ''expected '', Txt label, Txt '', got '', Num (unat (msg_type h))])
      else if compute_fingerprint E (public_key h) \<noteq> peer_fp
      then Raise (Exn ValueError [Txt ''fingerprint mismatch''])
      else if \<not> the_verify E v (public_key h) (payload h) (signature h)
      then Raise (Exn ValueError [Txt ''signature verification failed''])
      else Return ())"

text \<open>Lifts a computation without effects into the steps of a coroutine.\<close>

definition lift_res :: "'a res \<Rightarrow> 's \<Rightarrow> 's \<times> 'a res" where
  "lift_res r s = (s, r)"

definition initiator_hello :: "hs_env \<Rightarrow> kem \<Rightarrow> nat \<Rightarrow> nat \<Rightarrow> identity \<Rightarrow> bytes res" where
  "initiator_hello E K kcoins scoins i =
     (let ek_bytes = fst (kem_keypair K kcoins) in
      bind_res (identity_sign E scoins i ek_bytes) (\<lambda>sig.
        marshal_hello MSG_HELLO (public_key_bytes i) ek_bytes sig))"

definition handshake_initiator ::
  "hs_env \<Rightarrow> 's conn_ops \<Rightarrow> nat \<Rightarrow> nat \<Rightarrow> identity \<Rightarrow> bytes \<Rightarrow> verify_fn option \<Rightarrow> 's \<Rightarrow>
     's \<times> 's secure_conn res" where
  "handshake_initiator E ops kcoins scoins i peer_fp v s =
     (case kem_backend E of
        None \<Rightarrow> (s, Raise kem_missing)
      | Some K \<Rightarrow>
        (let sk_kem = snd (kem_keypair K kcoins) in
         res_bind (lift_res (initiator_hello E K kcoins scoins i) s) (\<lambda>s hello.
         res_bind (op_write ops hello s) (\<lambda>s _.
         res_bind (read_frame_from_conn ops s) (\<lambda>s reply_body.
         res_bind (lift_res (unmarshal_hello reply_body) s) (\<lambda>s reply.
         res_bind (lift_res (check_hello E MSG_HELLO_REPLY ''HELLO_REPLY'' peer_fp v reply) s) (\<lambda>s _.
         res_bind (lift_res (kem_decrypt K sk_kem (payload reply)) s) (\<lambda>s shared_secret.
           (s, Return (sc_bind s (SecureConn_init (derive_keys E shared_secret) True)))))))))))"

definition responder_reply ::
  "hs_env \<Rightarrow> kem \<Rightarrow> nat \<Rightarrow> nat \<Rightarrow> identity \<Rightarrow> bytes \<Rightarrow> (bytes \<times> bytes) res" where
  "responder_reply E K kcoins scoins i ek =
     bind_res (kem_encrypt K kcoins ek) (\<lambda>(ct_bytes, shared_secret).
     bind_res (identity_sign E scoins i ct_bytes) (\<lambda>sig.
     bind_res (marshal_hello MSG_HELLO_REPLY (public_key_bytes i) ct_bytes sig) (\<lambda>reply.
       Return (reply, shared_secret))))"

definition handshake_responder ::
  "hs_env \<Rightarrow> 's conn_ops \<Rightarrow> nat \<Rightarrow> nat \<Rightarrow> identity \<Rightarrow> bytes \<Rightarrow> verify_fn option \<Rightarrow> 's \<Rightarrow>
     's \<times> 's secure_conn res" where
  "handshake_responder E ops kcoins scoins i peer_fp v s =
     res_bind (read_frame_from_conn ops s) (\<lambda>s hello_body.
     res_bind (lift_res (unmarshal_hello hello_body) s) (\<lambda>s hello.
     res_bind (lift_res (check_hello E MSG_HELLO ''HELLO'' peer_fp v hello) s) (\<lambda>s _.
       case kem_backend E of
         None \<Rightarrow> (s, Raise kem_missing)
       | Some K \<Rightarrow>
         res_bind (lift_res (responder_reply E K kcoins scoins i (payload hello)) s)
           (\<lambda>s (reply, shared_secret).
         res_bind (op_write ops reply s) (\<lambda>s _.
           (s, Return (sc_bind s (SecureConn_init (derive_keys E shared_secret) False))))))))"

section \<open>What a successful handshake has checked\<close>

lemma lift_res_simps [res_simps]:
  "lift_res r s = (s', Return a) \<longleftrightarrow> s' = s \<and> r = Return a"
  by (auto simp: lift_res_def)

lemma check_hello_Return [res_simps]:
  "check_hello E expected label peer_fp v h = Return x \<longleftrightarrow>
     msg_type h = expected \<and> compute_fingerprint E (public_key h) = peer_fp \<and>
     the_verify E v (public_key h) (payload h) (signature h)"
  by (auto simp: check_hello_def)

lemma handshake_initiator_Return:
  "handshake_initiator E ops kc sc i peer_fp v s = (s', Return c) \<longleftrightarrow>
     (\<exists>K hello s1 n body reply ss. kem_backend E = Some K \<and>
        initiator_hello E K kc sc i = Return hello \<and> op_write ops hello s = (s1, Return n) \<and>
        read_frame_from_conn ops s1 = (s', Return body) \<and> unmarshal_hello body = Return reply \<and>
        msg_type reply = MSG_HELLO_REPLY \<and> compute_fingerprint E (public_key reply) = peer_fp \<and>
        the_verify E v (public_key reply) (payload reply) (signature reply) \<and>
        kem_decrypt K (snd (kem_keypair K kc)) (payload reply) = Return ss \<and>
        c = sc_bind s' (SecureConn_init (derive_keys E ss) True))"
  by (cases "kem_backend E") (auto simp: handshake_initiator_def Let_def res_simps)

lemma handshake_responder_Return:
  "handshake_responder E ops kc sc i peer_fp v s = (s', Return c) \<longleftrightarrow>
     (\<exists>K s1 n body hello reply ss. kem_backend E = Some K \<and>
        read_frame_from_conn ops s = (s1, Return body) \<and> unmarshal_hello body = Return hello \<and>
        msg_type hello = MSG_HELLO \<and> compute_fingerprint E (public_key hello) = peer_fp \<and>
        the_verify E v (public_key hello) (payload hello) (signature hello) \<and>
        responder_reply E K kc sc i (payload hello) = Return (reply, ss) \<and>
        op_write ops reply s1 = (s', Return n) \<and>
        c = sc_bind s' (SecureConn_init (derive_keys E ss) False))"
  by (cases "kem_backend E") (auto simp: handshake_responder_def res_simps)

text \<open>The responder touches the wire only after the initiator's message passed every check.\<close>

lemma handshake_responder_silent:
  assumes "read_frame_from_conn ops s = (s1, Return body)"
    and "\<And>h. unmarshal_hello body = Return h \<Longrightarrow> check_hello E MSG_HELLO ''HELLO'' peer_fp v h \<noteq> Return ()"
  shows "fst (handshake_responder E ops kc sc i peer_fp v s) = s1"
    and "\<And>c. snd (handshake_responder E ops kc sc i peer_fp v s) \<noteq> Return c"
proof -
  have "fst (handshake_responder E ops kc sc i peer_fp v s) = s1 \<and>
     (\<forall>c. snd (handshake_responder E ops kc sc i peer_fp v s) \<noteq> Return c)"
  proof (cases "unmarshal_hello body")
    case (Return h)
    with assms(2) have "check_hello E MSG_HELLO ''HELLO'' peer_fp v h \<noteq> Return ()" by blast
    then show ?thesis
      using assms(1) Return
      by (cases "check_hello E MSG_HELLO ''HELLO'' peer_fp v h")
        (simp_all add: handshake_responder_def lift_res_def)
  qed (use assms(1) in \<open>simp_all add: handshake_responder_def lift_res_def\<close>)
  then show "fst (handshake_responder E ops kc sc i peer_fp v s) = s1"
    and "\<And>c. snd (handshake_responder E ops kc sc i peer_fp v s) \<noteq> Return c"
    by simp_all
qed

section \<open>Honest runs\<close>

definition mldsa_ok :: "mldsa \<Rightarrow> bool" where
  "mldsa_ok B \<longleftrightarrow> (\<forall>g. case mldsa_keygen B g of (pk, sk) \<Rightarrow>
     length pk = 2592 \<and> length sk = 4896 \<and>
     (\<forall>c m. length (mldsa_sign B c sk m) = 4627 \<and>
            mldsa_verify B pk m (mldsa_sign B c sk m) = Return True))"

definition kem_ok :: "kem \<Rightarrow> bool" where
  "kem_ok K \<longleftrightarrow> (\<forall>g. case kem_keypair K g of (ek, dk) \<Rightarrow>
     length ek = 1568 \<and>
     (\<forall>c. \<exists>ct ss. kem_encrypt K c ek = Return (ct, ss) \<and> length ct = 1568 \<and>
            kem_decrypt K dk ct = Return ss))"

definition blake3_ok :: "(bytes \<Rightarrow> nat \<Rightarrow> bytes) \<Rightarrow> bool" where
  "blake3_ok h \<longleftrightarrow> (\<forall>x n. length (h x n) = n)"

definition env_ok :: "hs_env \<Rightarrow> bool" where
  "env_ok E \<longleftrightarrow> blake3_ok (blake3 E) \<and>
     (\<exists>B. mldsa_backend E = Some B \<and> mldsa_ok B) \<and> (\<exists>K. kem_backend E = Some K \<and> kem_ok K)"

lemma derive_keys_lengths:
  assumes "blake3_ok (blake3 E)"
  shows "length (initiator_key (derive_keys E ss)) = 32"
    "length (responder_key (derive_keys E ss)) = 32"
    "length (initiator_nonce_pfx (derive_keys E ss)) = 12"
    "length (responder_nonce_pfx (derive_keys E ss)) = 12"
  using assms by (simp_all add: derive_keys_def Let_def blake3_ok_def KDF_OUTPUT_SIZE_def)

lemma generated_identity:
  assumes "env_ok E" "identity_generate E g = Return i"
  shows "length (id_pk i) = 2592" "length (id_sk i) = 4896"
    "\<exists>sig. identity_sign E c i m = Return sig \<and> length sig = 4627 \<and> verify E (id_pk i) m sig"
proof -
  obtain B where B: "mldsa_backend E = Some B" "mldsa_ok B" using assms(1) by (auto simp: env_ok_def)
  obtain pk sk where k: "mldsa_keygen B g = (pk, sk)" by (cases "mldsa_keygen B g")
  with assms(2) B have i: "i = \<lparr>id_pk = pk, id_sk = sk\<rparr>" by (simp add: identity_generate_def)
  have "length pk = 2592 \<and> length sk = 4896 \<and>
     (\<forall>c m. length (mldsa_sign B c sk m) = 4627 \<and>
            mldsa_verify B pk m (mldsa_sign B c sk m) = Return True)"
    using B(2) [unfolded mldsa_ok_def, rule_format, of g] k by simp
  then show "length (id_pk i) = 2592" "length (id_sk i) = 4896"
    "\<exists>sig. identity_sign E c i m = Return sig \<and> length sig = 4627 \<and> verify E (id_pk i) m sig"
    by (simp_all add: i B identity_sign_def verify_def)
qed

text \<open>A signed message of an honest identity: it fits in a frame, parses back and passes the checks of
  a peer that expects this identity.\<close>

lemma honest_message:
  assumes "env_ok E" "identity_generate E g = Return i" "length pl = 1568"
    and "identity_sign E c i pl = Return sig"
  shows "\<exists>body h. marshal_hello mt (public_key_bytes i) pl sig = Return (frame body) \<and>
    length body = 8794 \<and> unmarshal_hello body = Return h \<and> payload h = pl \<and>
    check_hello E mt label (fingerprint E i) None h = Return ()"
proof -
  note i = generated_identity [OF assms(1,2)]
  obtain sig' where sig: "sig = sig'" "length sig = 4627" "verify E (id_pk i) pl sig"
    using i(3) [of c pl] assms(4) by auto
  let ?body = "mt # be_bytes 2 2592 @ id_pk i @ be_bytes 2 1568 @ pl @ be_bytes 2 4627 @ sig"
  have "marshal_hello mt (public_key_bytes i) pl sig = Return (frame ?body)"
    using i sig assms(3) by (simp add: marshal_hello_Return public_key_bytes_def)
  moreover have "length ?body = 8794" using i sig assms(3) by simp
  moreover have "unmarshal_hello ?body =
      Return \<lparr>msg_type = mt, public_key = id_pk i, payload = pl, signature = sig\<rparr>"
    using i sig assms(3) unmarshal_hello_wire [of "id_pk i" pl 4627 mt sig] by simp
  moreover have "check_hello E mt label (fingerprint E i) None
      \<lparr>msg_type = mt, public_key = id_pk i, payload = pl, signature = sig\<rparr> = Return ()"
    using sig by (simp add: check_hello_def fingerprint_def the_verify_def)
  ultimately show ?thesis by (metis hello.select_convs(3))
qed

lemma honest_hello:
  assumes "env_ok E" "identity_generate E g = Return i" "kem_backend E = Some K"
  shows "\<exists>body h. initiator_hello E K kc sc i = Return (frame body) \<and> length body = 8794 \<and>
    unmarshal_hello body = Return h \<and> payload h = fst (kem_keypair K kc) \<and>
    check_hello E MSG_HELLO ''HELLO'' (fingerprint E i) None h = Return ()"
proof -
  have "kem_ok K" using assms by (auto simp: env_ok_def)
  then have "length (fst (kem_keypair K kc)) = 1568"
    by (simp add: kem_ok_def split_beta)
  moreover obtain sig where "identity_sign E sc i (fst (kem_keypair K kc)) = Return sig"
    using generated_identity(3) [OF assms(1,2)] by blast
  ultimately show ?thesis
    using honest_message [OF assms(1,2)] by (fastforce simp: initiator_hello_def)
qed

lemma honest_reply:
  assumes "env_ok E" "identity_generate E g = Return i" "kem_backend E = Some K"
  shows "\<exists>body h ss. responder_reply E K kc sc i (fst (kem_keypair K ic)) = Return (frame body, ss) \<and>
    length body = 8794 \<and> unmarshal_hello body = Return h \<and>
    kem_decrypt K (snd (kem_keypair K ic)) (payload h) = Return ss \<and>
    check_hello E MSG_HELLO_REPLY ''HELLO_REPLY'' (fingerprint E i) None h = Return ()"
proof -
  have "kem_ok K" using assms by (auto simp: env_ok_def)
  then obtain ct ss where k: "kem_encrypt K kc (fst (kem_keypair K ic)) = Return (ct, ss)"
    "length ct = 1568" "kem_decrypt K (snd (kem_keypair K ic)) ct = Return ss"
    unfolding kem_ok_def split_beta by blast
  obtain sig where sig: "identity_sign E sc i ct = Return sig"
    using generated_identity(3) [OF assms(1,2)] by blast
  obtain body h where "marshal_hello MSG_HELLO_REPLY (public_key_bytes i) ct sig = Return (frame body)"
    "length body = 8794" "unmarshal_hello body = Return h" "payload h = ct"
    "check_hello E MSG_HELLO_REPLY ''HELLO_REPLY'' (fingerprint E i) None h = Return ()"
    using honest_message [OF assms(1,2) k(2) sig] by blast
  with k sig show ?thesis by (simp add: responder_reply_def)
qed

context conn_stream
begin

lemma initiator_completes:
  assumes l: "link s (frame body @ rest) outb" "length body \<le> MAX_MESSAGE_SIZE"
    and w: "wok s (length hello # ns)"
    and E: "kem_backend E = Some K" "initiator_hello E K kc sc i = Return hello"
    and r: "unmarshal_hello body = Return reply"
      "check_hello E MSG_HELLO_REPLY ''HELLO_REPLY'' peer_fp v reply = Return ()"
      "kem_decrypt K (snd (kem_keypair K kc)) (payload reply) = Return ss"
  shows "\<exists>s'. handshake_initiator E ops kc sc i peer_fp v s =
      (s', Return (sc_bind s' (SecureConn_init (derive_keys E ss) True))) \<and>
    link s' rest (outb @ hello) \<and> wok s' ns"
proof -
  obtain s1 where s1: "op_write ops hello s = (s1, Return (length hello))"
    "link s1 (frame body @ rest) (outb @ hello)" "wok s1 ns"
    using write_allE [OF l(1) w] .
  obtain s2 where s2: "read_frame_from_conn ops s1 = (s2, Return body)"
    "link s2 rest (outb @ hello)" "wok s2 ns"
    using read_frame_delivers [OF s1(2) l(2)] s1(3) by metis
  have "handshake_initiator E ops kc sc i peer_fp v s =
      (s2, Return (sc_bind s2 (SecureConn_init (derive_keys E ss) True)))"
    using s1 s2 E r by (simp add: handshake_initiator_def lift_res_def)
  with s2 show ?thesis by blast
qed

lemma responder_completes:
  assumes l: "link s (frame body @ rest) outb" "length body \<le> MAX_MESSAGE_SIZE"
    and r: "unmarshal_hello body = Return hello"
      "check_hello E MSG_HELLO ''HELLO'' peer_fp v hello = Return ()"
    and E: "kem_backend E = Some K" "responder_reply E K kc sc i (payload hello) = Return (reply, ss)"
    and w: "wok s (length reply # ns)"
  shows "\<exists>s'. handshake_responder E ops kc sc i peer_fp v s =
      (s', Return (sc_bind s' (SecureConn_init (derive_keys E ss) False))) \<and>
    link s' rest (outb @ reply) \<and> wok s' ns"
proof -
  obtain s1 where s1: "read_frame_from_conn ops s = (s1, Return body)"
    "link s1 rest outb" "wok s1 (length reply # ns)"
    using read_frame_delivers [OF l] w by metis
  obtain s2 where s2: "op_write ops reply s1 = (s2, Return (length reply))"
    "link s2 rest (outb @ reply)" "wok s2 ns"
    using write_allE [OF s1(2,3)] .
  have "handshake_responder E ops kc sc i peer_fp v s =
      (s2, Return (sc_bind s2 (SecureConn_init (derive_keys E ss) False)))"
    using s1 s2 E r by (simp add: handshake_responder_def lift_res_def)
  with s2 show ?thesis by blast
qed

text \<open>A fresh encrypted connection is in the abstraction of \<open>SecureConn\<close>: the frames the peer will send
  are the plaintext still to come.\<close>

lemma fresh_sc_link:
  assumes "aead_ok A" "blake3_ok (blake3 E)" "list_all msg_ok rms" "length rms \<le> 2 ^ 64"
    and "c = sc_bind s (SecureConn_init (derive_keys E ss) initiator)"
    and "link s (data_frames A (recv_key c) (recv_pfx c) 0 rms) outb"
  shows "sc_link A link outb c (concat (map snd rms)) []"
  using assms derive_keys_lengths [OF assms(2), of ss]
  by (intro sc_linkI [where rms = rms and sms = "[]" and s = s])
    (auto simp: sc_bind_def SecureConn_init_def sc_keys_ok_def)

end

text \<open>The keys of the two ends of one handshake match crosswise.\<close>

definition keys_match :: "'s secure_conn \<Rightarrow> 't secure_conn \<Rightarrow> bool" where
  "keys_match a b \<longleftrightarrow> send_key a = recv_key b \<and> recv_key a = send_key b \<and>
     send_pfx a = recv_pfx b \<and> recv_pfx a = send_pfx b"

lemma keys_match_init:
  "keys_match (sc_bind s (SecureConn_init k True)) (sc_bind t (SecureConn_init k False))"
  by (simp add: keys_match_def sc_bind_def SecureConn_init_def)

section \<open>A whole session\<close>

context conn_stream
begin

lemma fresh_writes:
  assumes "aead_ok A" "blake3_ok (blake3 E)"
    and c: "c = sc_bind s (SecureConn_init (derive_keys E ss) initiator)"
    and l: "link s [] out" and w: "wok s (map (\<lambda>m. length m + 33) (filter (\<lambda>m. m \<noteq> []) ms))"
    and ms: "\<forall>m \<in> set ms. length m + 29 \<le> MAX_MESSAGE_SIZE" "length ms \<le> 2 ^ 64"
  obtains c' s' sms where
    "run_calls (secure_ops A now ops) (map CallWrite ms) c =
       (c', map (\<lambda>m. Return ([], length m)) ms)"
    "inner_conn c' = Some s'" "link s' [] (out @ data_frames A (send_key c) (send_pfx c) 0 sms)"
    "list_all msg_ok sms" "length sms \<le> 2 ^ 64" "concat (map snd sms) = concat ms"
proof -
  have "sc_link A link out c [] []"
    using fresh_sc_link [OF assms(1,2) _ _ c, of "[]" out] l by simp
  moreover have "sc_wok wok c (map length ms @ [])"
  proof -
    have "filter (\<lambda>n. 0 < n) (map length ms) = map length (filter (\<lambda>m. m \<noteq> []) ms)"
      by (simp add: filter_map o_def)
    moreover have "length (filter (\<lambda>m. m \<noteq> []) ms) \<le> 2 ^ 64"
      using ms(2) length_filter_le le_trans by blast
    moreover have "send_counter c = 0" "inner_conn c = Some s"
      by (simp_all add: c sc_bind_def SecureConn_init_def)
    ultimately show ?thesis
      using w ms(1) by (simp add: sc_wok_def list_all_iff o_def)
  qed
  ultimately obtain c' where run: "run_calls (secure_ops A now ops) (map CallWrite ms) c =
       (c', map (\<lambda>m. Return ([], length m)) ms)"
    and l': "sc_link A link out c' [] (concat ms)" and w': "sc_wok wok c' []"
    using conn_stream.writes_all [OF secure_stream, of A out c "[]" "[]" ms "[]" now] by auto
  have k: "send_key c' = send_key c" "send_pfx c' = send_pfx c"
    using sc_calls_frame [of c A now ops "map CallWrite ms"] run by (simp_all add: sc_frame_def)
  from l' obtain s' rms sms where s': "inner_conn c' = Some s'" "[] = recv_buf c' @ concat (map snd rms)"
    "list_all msg_ok rms" "concat (map snd sms) = concat ms" "list_all msg_ok sms"
    "send_counter c' = length sms"
    "link s' (data_frames A (recv_key c') (recv_pfx c') (recv_counter c') rms)
       (out @ data_frames A (send_key c') (send_pfx c') 0 sms)"
    unfolding sc_link_def by metis
  moreover have "rms = []" using s'(2,3) by (cases rms) (auto simp: msg_ok_def)
  moreover have "length sms \<le> 2 ^ 64" using w' s'(6) by (simp add: sc_wok_def)
  ultimately show thesis using run k by (intro that) simp_all
qed

lemma fresh_reads:
  assumes "aead_ok A" "blake3_ok (blake3 E)" "list_all msg_ok rms" "length rms \<le> 2 ^ 64"
    and "c = sc_bind s (SecureConn_init (derive_keys E ss) initiator)"
    and "link s (data_frames A (recv_key c) (recv_pfx c) 0 rms) out"
  obtains c' where "read_loop (secure_ops A now ops) eof (length (concat (map snd rms))) 0
      (bytearray (length (concat (map snd rms)))) c = (c', Return (concat (map snd rms)))"
proof -
  let ?p = "concat (map snd rms)"
  have "sc_link A link out c (?p @ []) []" using fresh_sc_link [OF assms] by simp
  then have "\<exists>c'. read_loop (secure_ops A now ops) eof (length ?p) 0 (bytearray (length ?p)) c =
      (c', Return (take 0 (bytearray (length ?p)) @ ?p))"
    using conn_stream.read_loop_delivers [OF secure_stream, of A out c ?p "[]" "[]"
        "bytearray (length ?p)" "length ?p" 0 now eof] by auto
  then show thesis using that by auto
qed

text \<open>A message and its answer on a connection fresh from the handshake, in one write and one read.\<close>

lemma fresh_exchange:
  assumes A: "aead_ok A" "blake3_ok (blake3 E)" and c: "c = sc_bind s (SecureConn_init (derive_keys E ss) b)"
    and l: "link s (data_frames A (recv_key c) (recv_pfx c) 0 [(ts, answer)]) wire" "msg_ok (ts, answer)"
    and m: "m \<noteq> []" "length m + 29 < 256 ^ 4" "wok s [length m + 33]" and buf: "buf \<noteq> []" "length answer \<le> length buf"
  shows "\<exists>c1 c2 s2. sc_write A now ops m c = (c1, Return (length m)) \<and>
    sc_read A ops buf c1 = (c2, Return (answer @ drop (length answer) buf, length answer)) \<and> inner_conn c2 = Some s2 \<and> \<not> sc_closed c2 \<and>
    link s2 [] (wire @ data_frames A (send_key c) (send_pfx c) 0 [(nat (now 0 AND 0xFFFFFFFF), m)])"
proof -
  have k: "sc_keys_ok c" "\<not> sc_closed c" "inner_conn c = Some s" "send_counter c = 0" "recv_counter c = 0" "recv_buf c = []"
    using derive_keys_lengths [OF A(2), of ss] by (simp_all add: c sc_bind_def SecureConn_init_def sc_keys_ok_def)
  obtain s1 where s1: "sc_write A now ops m c = (c\<lparr>send_counter := send_counter c + 1, inner_conn := Some s1\<rparr>, Return (length m))"
    "link s1 (data_frames A (recv_key c) (recv_pfx c) 0 [(ts, answer)])
       (wire @ frame (data_body A (send_key c) (send_pfx c) (send_counter c) (write_ts now c, m)))"
    using sc_write_puts [OF A(1) k(1-3) l(1) m(3,1,2) _ refl, of now] k(4) by auto
  let ?c = "c\<lparr>send_counter := send_counter c + 1, inner_conn := Some s1\<rparr>"
  have c1: "sc_keys_ok ?c" "\<not> sc_closed ?c" "inner_conn ?c = Some s1" "recv_counter ?c < 2 ^ 64" "recv_buf ?c = []"
    "length answer = min (length buf) (length (snd (ts, answer)))"
    using k buf by (simp_all add: sc_keys_ok_def)
  have l1: "link s1 (data_frames A (recv_key ?c) (recv_pfx ?c) (recv_counter ?c) [(ts, answer)])
       (wire @ frame (data_body A (send_key c) (send_pfx c) (send_counter c) (write_ts now c, m)))"
    using s1(2) k(5) by simp
  from sc_read_message [OF A(1) c1(1-3) l1 l(2) c1(4,5) buf(1) c1(6)] s1(1) k(2,4) show ?thesis
    by (auto simp: write_ts_def)
qed

lemma responder_session:
  assumes A: "aead_ok A" and b3: "blake3_ok (blake3 E)"
    and h: "unmarshal_hello hb = Return h" "length hb \<le> MAX_MESSAGE_SIZE"
      "check_hello E MSG_HELLO ''HELLO'' (fingerprint E i) None h = Return ()"
    and K: "kem_backend E = Some K" "responder_reply E K kcr scr r (payload h) = Return (reply, ss)"
    and ci: "ci = sc_bind s1 (SecureConn_init (derive_keys E ss) True)"
    and sms: "list_all msg_ok sms" "length sms \<le> 2 ^ 64" "concat (map snd sms) = ms"
    and frames: "frames = data_frames A (send_key ci) (send_pfx ci) 0 sms"
    and lr: "link sr (frame hb @ frames) orr" "wok sr [length reply]"
  shows "\<exists>s3 cr cr'.
    handshake_responder E ops kcr scr r (fingerprint E i) None sr = (s3, Return cr) \<and>
    link s3 frames (orr @ reply) \<and> keys_match ci cr \<and>
    read_loop (secure_ops A now' ops) eof (length ms) 0 (bytearray (length ms)) cr = (cr', Return ms)"
proof -
  let ?cr = "\<lambda>s. sc_bind s (SecureConn_init (derive_keys E ss) False)"
  obtain s3 where s3: "handshake_responder E ops kcr scr r (fingerprint E i) None sr =
      (s3, Return (?cr s3))" "link s3 frames (orr @ reply)"
    using responder_completes [OF lr(1) h(2,1,3) K lr(2)] by metis
  have km: "keys_match ci (?cr s3)" unfolding ci by (rule keys_match_init)
  then have "link s3 (data_frames A (recv_key (?cr s3)) (recv_pfx (?cr s3)) 0 sms) (orr @ reply)"
    using s3(2) by (simp add: keys_match_def frames)
  then obtain cr' where "read_loop (secure_ops A now' ops) eof (length ms) 0
      (bytearray (length ms)) (?cr s3) = (cr', Return ms)"
    using fresh_reads [OF A b3 sms(1,2) refl, of s3 ss False] unfolding sms(3) by metis
  with s3 km show ?thesis by metis
qed

end

text \<open>The two ends of a session, each on a connection of its own kind: the handshake and the encrypted
  connection ask nothing more of either than the stream contract.\<close>

locale conn_pair = I: conn_stream opsI linkI wokI + R: conn_stream opsR linkR wokR
  for opsI :: "'s conn_ops" and linkI wokI and opsR :: "'t conn_ops" and linkR wokR
begin

lemma session_delivers:
  assumes E: "env_ok E" and A: "aead_ok A"
    and i: "identity_generate E gi = Return i" and r: "identity_generate E gr = Return r"
    and ms: "\<forall>m \<in> set ms. length m + 29 \<le> MAX_MESSAGE_SIZE" "length ms \<le> 2 ^ 64"
  shows "\<exists>hello reply. length hello = 8798 \<and> length reply = 8798 \<and>
    (\<forall>si oi. linkI si reply oi \<longrightarrow> wokI si (8798 # map (\<lambda>m. length m + 33) (filter (\<lambda>m. m \<noteq> []) ms)) \<longrightarrow>
      (\<exists>s1 ci s2 ci' frames.
        handshake_initiator E opsI kci sci i (fingerprint E r) None si = (s1, Return ci) \<and>
        run_calls (secure_ops A now opsI) (map CallWrite ms) ci =
          (ci', map (\<lambda>m. Return ([], length m)) ms) \<and>
        inner_conn ci' = Some s2 \<and> linkI s2 [] (oi @ hello @ frames) \<and>
        (\<forall>sr orr. linkR sr (hello @ frames) orr \<longrightarrow> wokR sr [8798] \<longrightarrow>
          (\<exists>s3 cr cr'.
            handshake_responder E opsR kcr scr r (fingerprint E i) None sr = (s3, Return cr) \<and>
            linkR s3 frames (orr @ reply) \<and> keys_match ci cr \<and>
            read_loop (secure_ops A now' opsR) eof (length (concat ms)) 0
              (bytearray (length (concat ms))) cr = (cr', Return (concat ms))))))"
proof -
  obtain K where K: "kem_backend E = Some K" and b3: "blake3_ok (blake3 E)"
    using E by (auto simp: env_ok_def)
  obtain hb h where h: "initiator_hello E K kci sci i = Return (frame hb)" "length hb = 8794"
    "unmarshal_hello hb = Return h" "payload h = fst (kem_keypair K kci)"
    "check_hello E MSG_HELLO ''HELLO'' (fingerprint E i) None h = Return ()"
    using honest_hello [OF E i K] by blast
  obtain rb rp ss where rp: "responder_reply E K kcr scr r (payload h) = Return (frame rb, ss)"
    "length rb = 8794" "unmarshal_hello rb = Return rp"
    "kem_decrypt K (snd (kem_keypair K kci)) (payload rp) = Return ss"
    "check_hello E MSG_HELLO_REPLY ''HELLO_REPLY'' (fingerprint E r) None rp = Return ()"
    using honest_reply [OF E r K] h(4) by metis
  have size: "length hb \<le> MAX_MESSAGE_SIZE" "length rb \<le> MAX_MESSAGE_SIZE"
    by (simp_all add: MAX_MESSAGE_SIZE_def h rp)
  let ?ns = "map (\<lambda>m. length m + 33) (filter (\<lambda>m. m \<noteq> []) ms)"
  let ?ci = "\<lambda>s. sc_bind s (SecureConn_init (derive_keys E ss) True)"
  have "\<exists>s1 ci s2 ci' frames.
        handshake_initiator E opsI kci sci i (fingerprint E r) None si = (s1, Return ci) \<and>
        run_calls (secure_ops A now opsI) (map CallWrite ms) ci =
          (ci', map (\<lambda>m. Return ([], length m)) ms) \<and>
        inner_conn ci' = Some s2 \<and> linkI s2 [] (oi @ frame hb @ frames) \<and>
        (\<forall>sr orr. linkR sr (frame hb @ frames) orr \<longrightarrow> wokR sr [8798] \<longrightarrow>
          (\<exists>s3 cr cr'.
            handshake_responder E opsR kcr scr r (fingerprint E i) None sr = (s3, Return cr) \<and>
            linkR s3 frames (orr @ frame rb) \<and> keys_match ci cr \<and>
            read_loop (secure_ops A now' opsR) eof (length (concat ms)) 0
              (bytearray (length (concat ms))) cr = (cr', Return (concat ms))))"
    if li: "linkI si (frame rb) oi" and wi: "wokI si (8798 # ?ns)" for si oi
  proof -
    have "linkI si (frame rb @ []) oi" "wokI si (length (frame hb) # ?ns)"
      using li wi h by simp_all
    then obtain s1 where s1: "handshake_initiator E opsI kci sci i (fingerprint E r) None si =
        (s1, Return (?ci s1))" "linkI s1 [] (oi @ frame hb)" "wokI s1 ?ns"
      using I.initiator_completes [OF _ size(2) _ K h(1) rp(3,5,4)] by metis
    obtain c' s2 sms where w: "run_calls (secure_ops A now opsI) (map CallWrite ms) (?ci s1) =
        (c', map (\<lambda>m. Return ([], length m)) ms)" "inner_conn c' = Some s2"
      "linkI s2 [] ((oi @ frame hb) @ data_frames A (send_key (?ci s1)) (send_pfx (?ci s1)) 0 sms)"
      "list_all msg_ok sms" "length sms \<le> 2 ^ 64" "concat (map snd sms) = concat ms"
      by (rule I.fresh_writes [OF A b3 refl s1(2,3) ms])
    let ?frames = "data_frames A (send_key (?ci s1)) (send_pfx (?ci s1)) 0 sms"
    have resp: "\<exists>s3 cr cr'.
        handshake_responder E opsR kcr scr r (fingerprint E i) None sr = (s3, Return cr) \<and>
        linkR s3 ?frames (orr @ frame rb) \<and> keys_match (?ci s1) cr \<and>
        read_loop (secure_ops A now' opsR) eof (length (concat ms)) 0
          (bytearray (length (concat ms))) cr = (cr', Return (concat ms))"
      if "linkR sr (frame hb @ ?frames) orr" "wokR sr [8798]" for sr orr
      by (rule R.responder_session [OF A b3 h(3) size(1) h(5) K rp(1) refl w(4-6) refl that(1)])
         (use that(2) rp(2) in simp)
    have "linkI s2 [] (oi @ frame hb @ ?frames)" using w(3) by simp
    with s1(1) w(1,2) resp show ?thesis by blast
  qed
  then show ?thesis
    using h(2) rp(2) by (intro exI [of _ "frame hb"] exI [of _ "frame rb"]) simp
qed
end

end
