(* ===== verification/Tcp.thy ===== *)
theory Tcp
  imports ListenerIface Handshake
begin

text \<open>
  The TCP transport: \<^verbatim>\<open>tcp/conn.py\<close>, \<^verbatim>\<open>tcp/dialer.py\<close>, \<^verbatim>\<open>tcp/listener.py\<close>. A connection is a
  pair of asyncio streams; the two contracts of \<open>ConnIface\<close> and the listener contract are
  interpreted for it. The theory builds on \<open>Handshake\<close> so that these interpretations also carry the lemmas about
  frames, encrypted connections and handshakes that are proved in the context of the contracts.
\<close>

section \<open>TcpConn\<close>

record tcp_conn =
  tcp_reader :: stream_reader
  tcp_writer :: stream_writer
  tcp_closed :: bool

definition TcpConn_init :: "stream_reader \<Rightarrow> stream_writer \<Rightarrow> tcp_conn" where
  "TcpConn_init r w = \<lparr>tcp_reader = r, tcp_writer = w, tcp_closed = False\<rparr>"

definition tcp_read :: "bytes \<Rightarrow> tcp_conn \<Rightarrow> tcp_conn \<times> (bytes \<times> nat) res" where
  "tcp_read buf c =
     (if tcp_closed c then (c, Raise connection_closed)
      else (let (r, x) = stream_read_into buf (tcp_reader c) in (c\<lparr>tcp_reader := r\<rparr>, x)))"

definition tcp_write :: "bytes \<Rightarrow> tcp_conn \<Rightarrow> tcp_conn \<times> nat res" where
  "tcp_write data c =
     (if tcp_closed c then (c, Raise connection_closed)
      else (let c = c\<lparr>tcp_writer := sw_write data (tcp_writer c)\<rparr>
            in (c, bind_res (sw_drain (tcp_writer c)) (\<lambda>_. Return (length data)))))"

text \<open>\<^verbatim>\<open>wait_closed\<close> may raise; the source swallows it.\<close>

definition tcp_close :: "tcp_conn \<Rightarrow> tcp_conn \<times> unit res" where
  "tcp_close c =
     (if \<not> tcp_closed c
      then (c\<lparr>tcp_closed := True, tcp_writer := sw_close (tcp_writer c)\<rparr>, Return ())
      else (c, Return ()))"

definition sock_addr :: "string \<Rightarrow> (pystr \<times> nat) option \<Rightarrow> addr option" where
  "sock_addr net a =
     map_option (\<lambda>(host, port). \<lparr>network = u net, address = host_port host port\<rparr>) a"

definition tcp_local_addr :: "tcp_conn \<Rightarrow> addr option" where
  "tcp_local_addr c = sock_addr ''tcp'' (sockname (tcp_writer c))"

definition tcp_remote_addr :: "tcp_conn \<Rightarrow> addr option" where
  "tcp_remote_addr c = sock_addr ''tcp'' (peername (tcp_writer c))"

definition tcp_ops :: "tcp_conn conn_ops" where
  "tcp_ops = \<lparr>op_read = tcp_read, op_write = tcp_write, op_close = tcp_close,
              op_local_addr = tcp_local_addr, op_remote_addr = tcp_remote_addr\<rparr>"

lemma tcp_ops_sel [simp]:
  "op_read tcp_ops = tcp_read" "op_write tcp_ops = tcp_write" "op_close tcp_ops = tcp_close"
  "op_local_addr tcp_ops = tcp_local_addr" "op_remote_addr tcp_ops = tcp_remote_addr"
  by (simp_all add: tcp_ops_def)

section \<open>TcpDialer\<close>

text \<open>\<open>open_connection\<close> is the network: the streams the operating system hands back, or its error.\<close>

definition tcp_dial ::
  "(pystr \<Rightarrow> int \<Rightarrow> (stream_reader \<times> stream_writer) res) \<Rightarrow> pystr \<Rightarrow> tcp_conn res" where
  "tcp_dial open_connection a =
     bind_res (split_address a) (\<lambda>(host, port).
     bind_res (open_connection host port) (\<lambda>(r, w). Return (TcpConn_init r w)))"

section \<open>TcpListener\<close>

record tcp_listener =
  tl_addr :: addr
  tl_queue :: "tcp_conn list"
  tl_closed :: bool
  tl_server_closed :: bool

definition tcp_bind :: "pystr \<times> nat \<Rightarrow> tcp_listener" where
  "tcp_bind bound =
     \<lparr>tl_addr = \<lparr>network = u ''tcp'', address = host_port (fst bound) (snd bound)\<rparr>,
      tl_queue = [], tl_closed = False, tl_server_closed = False\<rparr>"

definition tcp_on_connect :: "stream_reader \<Rightarrow> stream_writer \<Rightarrow> tcp_listener \<Rightarrow> tcp_listener" where
  "tcp_on_connect r w l = l\<lparr>tl_queue := tl_queue l @ [TcpConn_init r w]\<rparr>"

definition tcp_accept :: "tcp_listener \<Rightarrow> tcp_listener \<times> tcp_conn res" where
  "tcp_accept l = (let (q, r) = queue_get (tl_queue l) in (l\<lparr>tl_queue := q\<rparr>, r))"

text \<open>\<open>waited\<close> is what \<^verbatim>\<open>Server.wait_closed()\<close> does.\<close>

definition tcp_listener_close :: "unit res \<Rightarrow> tcp_listener \<Rightarrow> tcp_listener \<times> unit res" where
  "tcp_listener_close waited l =
     (if \<not> tl_closed l then (l\<lparr>tl_closed := True, tl_server_closed := True\<rparr>, waited)
      else (l, Return ()))"

definition tcp_listener_addr :: "tcp_listener \<Rightarrow> addr" where
  "tcp_listener_addr l = tl_addr l"

section \<open>The contracts\<close>

definition tcp_link :: "tcp_conn \<Rightarrow> bytes \<Rightarrow> bytes \<Rightarrow> bool" where
  "tcp_link c inb outb \<longleftrightarrow> \<not> tcp_closed c \<and> reader_ok (tcp_reader c) \<and>
     inb = concat (segs (tcp_reader c)) \<and> \<not> wclosed (tcp_writer c) \<and> wlost (tcp_writer c) = None \<and>
     outb = wsent (tcp_writer c)"

interpretation tcp: conn_stream tcp_ops tcp_link "\<lambda>_ _. True"
proof unfold_locales
  fix s :: tcp_conn and inb outb buf :: bytes
  assume l: "tcp_link s inb outb" and ne: "inb \<noteq> []" "buf \<noteq> []"
  have ok: "reader_ok (tcp_reader s)" "inb = concat (segs (tcp_reader s))"
    using l by (auto simp: tcp_link_def)
  obtain k r' where k: "0 < k" "k \<le> length buf" "k \<le> length inb"
    "stream_read_into buf (tcp_reader s) = (r', Return (take k inb @ drop k buf, k))"
    "concat (segs r') = drop k inb" "reader_ok r'"
    by (rule stream_read_into_some [OF ok ne])
  have "tcp_read buf s = (s\<lparr>tcp_reader := r'\<rparr>, Return (take k inb @ drop k buf, k))"
    using k l by (simp add: tcp_read_def tcp_link_def)
  moreover have "tcp_link (s\<lparr>tcp_reader := r'\<rparr>) (drop k inb) outb"
    using l k by (simp add: tcp_link_def)
  ultimately show "\<exists>k s'. 0 < k \<and> k \<le> length buf \<and> k \<le> length inb \<and>
      op_read tcp_ops buf s = (s', Return (take k inb @ drop k buf, k)) \<and>
      tcp_link s' (drop k inb) outb \<and> (\<forall>ns::nat list. True \<longrightarrow> True)"
    using k by auto
next
  fix s :: tcp_conn and inb outb data :: bytes and ns :: "nat list"
  assume "tcp_link s inb outb"
  then show "\<exists>s'. op_write tcp_ops data s = (s', Return (length data)) \<and>
      tcp_link s' inb (outb @ data) \<and> True"
    by (auto simp: tcp_write_def tcp_link_def sw_write_def sw_drain_def)
qed

interpretation tcp_shut: conn_shut tcp_ops "\<lambda>_. True" tcp_closed
  by unfold_locales (auto simp: tcp_close_def tcp_read_def tcp_write_def)

interpretation tcp_fifo: fifo_listener tcp_accept "\<lambda>(r, w). tcp_on_connect r w"
    "\<lambda>(r, w). TcpConn_init r w" tl_queue
  by unfold_locales (auto simp: tcp_accept_def tcp_on_connect_def queue_get_def split: list.split)

end
