(* ===== verification/SecureChannel.thy ===== *)
theory SecureChannel
  imports Tcp
begin

text \<open>
  The secure channel as a whole: the handshake and the encrypted connection, over TCP and over any
  carrier. The stream contract is interpreted for an encrypted connection over TCP, and the two-ended
  session for a pair of TCP connections and for a pair of encrypted connections, which is how a peer
  connection runs through a relay. The properties here are the ones the protocol description promises: authentication, agreement
  on the keys, delivery, rejection of replayed and reordered frames, no nonce used twice.
\<close>

section \<open>Carriers\<close>

text \<open>An encrypted connection over TCP, as the carrier of another one.\<close>

definition leg_link :: "aead \<Rightarrow> tcp_conn secure_conn \<Rightarrow> bytes \<Rightarrow> bytes \<Rightarrow> bool" where
  "leg_link A c inb outb \<longleftrightarrow> (\<exists>base. sc_link A tcp_link base c inb outb)"

interpretation tcp_secure: conn_stream "secure_ops A now tcp_ops" "leg_link A" "sc_wok (\<lambda>_ _. True)"
  unfolding leg_link_def [abs_def] by (rule tcp.secure_stream_any)

interpretation tcp_pair: conn_pair tcp_ops tcp_link "\<lambda>_ _. True" tcp_ops tcp_link "\<lambda>_ _. True"
  by unfold_locales

interpretation relay_pair: conn_pair "secure_ops A t tcp_ops" "leg_link A" "sc_wok (\<lambda>_ _. True)"
    "secure_ops A' t' tcp_ops" "leg_link A'" "sc_wok (\<lambda>_ _. True)"
  by (simp add: conn_pair_def tcp_secure.conn_stream_axioms)

lemma fresh_leg_wok:
  assumes "\<forall>m \<in> set ms. length m + 62 \<le> MAX_MESSAGE_SIZE" "length ms < 2 ^ 64"
    and "leg_link A s inb outb" "send_counter s = 0"
  shows "sc_wok (\<lambda>_ _. True) s (8798 # map (\<lambda>m. length m + 33) (filter (\<lambda>m. m \<noteq> []) ms))"
proof -
  obtain w where "inner_conn s = Some w" using assms(3) by (auto simp: leg_link_def sc_link_def)
  moreover have "length (filter (\<lambda>m. m \<noteq> []) ms) < 2 ^ 64"
    using assms(2) length_filter_le le_less_trans by blast
  moreover have "filter (\<lambda>n. 0 < n) (map (\<lambda>m. length m + 33) ys) = map (\<lambda>m. length m + 33) ys"
    for ys :: "bytes list" by (simp add: filter_map o_def)
  ultimately show ?thesis
    using assms(1,4) by (auto simp: sc_wok_def MAX_MESSAGE_SIZE_def list_all_iff)
qed

section \<open>Small instances for the witnesses\<close>

definition toy_env :: hs_env where
  "toy_env = \<lparr>blake3 = (\<lambda>x n. replicate n (of_nat (length x))),
     mldsa_backend = Some \<lparr>mldsa_keygen = (\<lambda>g. (replicate 2592 (of_nat g), replicate 4896 0)),
        mldsa_sign = (\<lambda>c sk m. replicate 4627 1),
        mldsa_verify = (\<lambda>pk m sig. Return (sig = replicate 4627 1))\<rparr>,
     kem_backend = Some \<lparr>kem_keypair = (\<lambda>g. (replicate 1568 2, [])),
        kem_encrypt = (\<lambda>c ek. Return (replicate 1568 3, [9])),
        kem_decrypt = (\<lambda>dk ct. Return [9])\<rparr>\<rparr>"

definition toy_id :: identity where
  "toy_id = \<lparr>id_pk = replicate 2592 1, id_sk = replicate 4896 0\<rparr>"

definition toy_tcp :: "bytes list \<Rightarrow> tcp_conn" where
  "toy_tcp ss = TcpConn_init \<lparr>segs = ss, rtail = Live\<rparr>
     \<lparr>wsent = [], wclosed = False, wlost = None, sockname = None, peername = None\<rparr>"

definition toy_conn :: "bytes list \<Rightarrow> tcp_conn secure_conn" where
  "toy_conn ss = sc_bind (toy_tcp ss) (SecureConn_init (derive_keys toy_env []) False)"

definition toy_body :: bytes where
  "toy_body = data_body toy_aead (replicate 32 15) (replicate 12 15) 0 (5, [1, 2])"

lemma toy_env_ok: "env_ok toy_env"
  by (simp add: env_ok_def toy_env_def blake3_ok_def mldsa_ok_def kem_ok_def)

lemma toy_id_generated: "identity_generate toy_env 1 = Return toy_id"
  by (simp add: identity_generate_def toy_env_def toy_id_def)

lemma toy_tcp_link: "[] \<notin> set ss \<Longrightarrow> tcp_link (toy_tcp ss) (concat ss) []"
  by (simp add: tcp_link_def toy_tcp_def TcpConn_init_def reader_ok_def)

lemma toy_conn_sel:
  "recv_key (toy_conn ss) = replicate 32 15" "recv_pfx (toy_conn ss) = replicate 12 15"
  "send_key (toy_conn ss) = replicate 32 15" "send_pfx (toy_conn ss) = replicate 12 15"
  "recv_counter (toy_conn ss) = 0" "recv_buf (toy_conn ss) = []" "send_counter (toy_conn ss) = 0"
  "inner_conn (toy_conn ss) = Some (toy_tcp ss)" "sc_closed (toy_conn ss) = False"
  by (simp_all add: toy_conn_def sc_bind_def SecureConn_init_def derive_keys_def toy_env_def Let_def
      slice_def KDF_OUTPUT_SIZE_def KDF_CONTEXT_def)

lemma toy_msg_ok: "msg_ok (5, [1, 2])"
  by (simp add: msg_ok_def MAX_MESSAGE_SIZE_def)

lemma toy_opens:
  "handle_data toy_aead toy_body [0, 0] ((toy_conn ss)\<lparr>inner_conn := x\<rparr>) =
     ((toy_conn ss)\<lparr>inner_conn := x, recv_counter := 1\<rparr>, Return ([1, 2], 2))"
  using handle_data_body [OF toy_aead_ok, of "(toy_conn ss)\<lparr>inner_conn := x\<rparr>" "(5, [1, 2])" "[0, 0]"]
  by (simp add: toy_body_def toy_conn_sel toy_msg_ok fill_buf_eq Let_def)

lemma toy_frame_read:
  "\<exists>s. read_frame_from_conn tcp_ops (toy_tcp [frame toy_body]) = (s, Return toy_body)"
proof -
  have l: "tcp_link (toy_tcp [frame toy_body]) (frame toy_body @ []) []"
    using toy_tcp_link [of "[frame toy_body]"] by (simp add: frame_def toy_body_def data_body_def)
  show ?thesis
    by (rule tcp.read_frame_delivers [OF l])
      (auto simp: MAX_MESSAGE_SIZE_def toy_body_def data_body_def seal_def toy_aead_def)
qed

lemma toy_body_case: "(case toy_body of [] \<Rightarrow> x | mt # t \<Rightarrow> f mt) = f MSG_DATA"
  by (simp add: toy_body_def data_body_def)

lemma toy_reads:
  assumes "\<And>s. handle_data A toy_body [0, 0] ((toy_conn [frame toy_body])\<lparr>inner_conn := Some s\<rparr>) =
    ((toy_conn [frame toy_body])\<lparr>inner_conn := Some s, recv_counter := 1\<rparr>, Return ([1, 2], 2))"
  shows "\<exists>c. sc_read A tcp_ops [0, 0] (toy_conn [frame toy_body]) = (c, Return ([1, 2], 2))"
proof -
  obtain s where "read_frame_from_conn tcp_ops (toy_tcp [frame toy_body]) = (s, Return toy_body)"
    using toy_frame_read ..
  then show ?thesis
    using assms [of s]
    by (simp add: sc_read_def sc_read_locked_def toy_conn_sel Let_def toy_body_case)
qed

lemma toy_initiator:
  "\<exists>wire s' c. handshake_initiator toy_env tcp_ops 0 0 toy_id (fingerprint toy_env toy_id) None
     (toy_tcp [wire]) = (s', Return c)"
proof -
  obtain hello reply where r: "length reply = 8798" and
    h: "\<forall>si oi. tcp_link si reply oi \<longrightarrow> (\<exists>s1 ci.
      handshake_initiator toy_env tcp_ops 0 0 toy_id (fingerprint toy_env toy_id) None si = (s1, Return ci))"
    using tcp_pair.session_delivers [OF toy_env_ok toy_aead_ok toy_id_generated toy_id_generated, of "[]" 0 0]
    by fastforce
  have "tcp_link (toy_tcp [reply]) reply []"
    using toy_tcp_link [of "[reply]"] r by (cases reply) simp_all
  with h show ?thesis by blast
qed

lemma toy_responder:
  "\<exists>wire. wsent (tcp_writer (fst (handshake_responder toy_env tcp_ops 0 0 toy_id
     (fingerprint toy_env toy_id) None (toy_tcp [wire])))) \<noteq> []"
proof -
  obtain K where K: "kem_backend toy_env = Some K" by (simp add: toy_env_def)
  obtain hb h where h: "initiator_hello toy_env K 0 0 toy_id = Return (frame hb)" "length hb = 8794"
    "unmarshal_hello hb = Return h" "payload h = fst (kem_keypair K 0)"
    "check_hello toy_env MSG_HELLO ''HELLO'' (fingerprint toy_env toy_id) None h = Return ()"
    using honest_hello [OF toy_env_ok toy_id_generated K] by blast
  obtain rb ss where rp: "responder_reply toy_env K 0 0 toy_id (payload h) = Return (frame rb, ss)"
    using honest_reply [OF toy_env_ok toy_id_generated K] h(4) by metis
  have l: "tcp_link (toy_tcp [frame hb]) (frame hb @ []) []"
    using toy_tcp_link [of "[frame hb]"] by simp
  have "length hb \<le> MAX_MESSAGE_SIZE" by (simp add: h MAX_MESSAGE_SIZE_def)
  then obtain s' c where "handshake_responder toy_env tcp_ops 0 0 toy_id
      (fingerprint toy_env toy_id) None (toy_tcp [frame hb]) = (s', c)" "tcp_link s' [] ([] @ frame rb)"
    using tcp.responder_completes [OF l _ h(3,5) K rp] by blast
  then show ?thesis
    by (intro exI [of _ "frame hb"]) (auto simp: tcp_link_def)
qed

section \<open>Properties\<close>

text \<open>C1. Two honest ends of a TCP connection that pin each other's fingerprints always complete the
  handshake, end with crosswise equal keys, and whatever the initiator then writes (any number of
  messages up to the size limit, empty ones included) is what the responder reads, byte for byte,
  however TCP cuts the stream into segments.\<close>

theorem session_over_tcp:
  assumes "env_ok E" "aead_ok A"
    and "identity_generate E gi = Return i" "identity_generate E gr = Return r"
    and "\<forall>m \<in> set ms. length m + 29 \<le> MAX_MESSAGE_SIZE" "length ms \<le> 2 ^ 64"
  shows "\<exists>hello reply. length hello = 8798 \<and> length reply = 8798 \<and>
    (\<forall>si oi. tcp_link si reply oi \<longrightarrow>
      (\<exists>s1 ci s2 ci' frames.
        handshake_initiator E tcp_ops kci sci i (fingerprint E r) None si = (s1, Return ci) \<and>
        run_calls (secure_ops A now tcp_ops) (map CallWrite ms) ci =
          (ci', map (\<lambda>m. Return ([], length m)) ms) \<and>
        inner_conn ci' = Some s2 \<and> tcp_link s2 [] (oi @ hello @ frames) \<and>
        (\<forall>sr orr. tcp_link sr (hello @ frames) orr \<longrightarrow>
          (\<exists>s3 cr cr'.
            handshake_responder E tcp_ops kcr scr r (fingerprint E i) None sr = (s3, Return cr) \<and>
            tcp_link s3 frames (orr @ reply) \<and> keys_match ci cr \<and>
            read_loop (secure_ops A now' tcp_ops) eof (length (concat ms)) 0
              (bytearray (length (concat ms))) cr = (cr', Return (concat ms))))))"
  using tcp_pair.session_delivers [OF assms, of kci sci now kcr scr now' eof] by simp

theorem session_over_tcp_witness:
  "\<exists>reply s1 ci. length reply = 8798 \<and>
     handshake_initiator toy_env tcp_ops 0 0 toy_id (fingerprint toy_env toy_id) None (toy_tcp [reply]) =
       (s1, Return ci)"
proof -
  have "\<forall>m \<in> set [[1, 2], [], [3 :: byte]]. length m + 29 \<le> MAX_MESSAGE_SIZE"
    by (simp add: MAX_MESSAGE_SIZE_def)
  from session_over_tcp [OF toy_env_ok toy_aead_ok toy_id_generated toy_id_generated this]
  obtain hello reply where r: "length reply = 8798" and
    h: "\<forall>si oi. tcp_link si reply oi \<longrightarrow> (\<exists>s1 ci.
      handshake_initiator toy_env tcp_ops 0 0 toy_id (fingerprint toy_env toy_id) None si = (s1, Return ci))"
    by fastforce
  have "tcp_link (toy_tcp [reply]) reply []"
    using toy_tcp_link [of "[reply]"] r by (cases reply) simp_all
  with r h show ?thesis by blast
qed

text \<open>C3. Whatever the carrier delivers (a hostile relay may drop, repeat, reorder, cut or invent
  frames), the plaintext that the reads of a fresh encrypted connection hand to the caller is a prefix
  of the plaintext its peer wrote, provided no frame of the run is a forgery of the cipher.\<close>

theorem secure_delivers_prefix:
  assumes "unforgeable A (recv_key c) (recv_pfx c) log (read_bodies A now ops cs c)"
    and "length (recv_pfx c) = 12" "recv_counter c = 0" "recv_buf c = []"
    and "run_calls (secure_ops A now ops) cs c = (c', rs)"
  shows "\<exists>rest. concat (map snd log) = delivered cs rs @ rest"
proof -
  have "log_inv log [] c" using assms by (simp add: log_inv_def)
  from sc_calls_log [OF assms(1,2) this assms(5)]
  have "concat (map snd (take (recv_counter c') log)) = delivered cs rs @ recv_buf c'"
    by (simp add: log_inv_def)
  then have "concat (map snd log) =
      delivered cs rs @ recv_buf c' @ concat (map snd (drop (recv_counter c') log))"
    by (metis append_take_drop_id concat_append map_append append.assoc)
  then show ?thesis by blast
qed

text \<open>The witness uses a cipher that opens the logged frame and nothing else.\<close>

definition toy_ideal :: aead where
  "toy_ideal = toy_aead\<lparr>decrypt_and_verify := (\<lambda>key nonce ct tag.
     if nonce = nonce_of (replicate 12 15) 5 0 \<and> ct = [1, 2] \<and> tag = replicate 16 0
     then Some [1, 2] else None)\<rparr>"

lemma toy_ideal_opens:
  "handle_data toy_ideal toy_body [0, 0] ((toy_conn ss)\<lparr>inner_conn := x\<rparr>) =
     ((toy_conn ss)\<lparr>inner_conn := x, recv_counter := 1\<rparr>, Return ([1, 2], 2))"
  by (simp add: toy_body_def data_body_def seal_def handle_data_shape toy_conn_sel Let_def fill_buf_eq
      toy_ideal_def toy_aead_def slice_but_last_def slice_last_def)

theorem secure_delivers_prefix_witness:
  "\<exists>c' rest. run_calls (secure_ops toy_ideal (\<lambda>_. 0) tcp_ops) [CallRead [0, 0]]
       (toy_conn [frame toy_body]) = (c', [Return ([1, 2], 2)]) \<and>
     concat (map snd [(5, [1, 2])]) = delivered [CallRead [0, 0]] [Return ([1, 2], 2)] @ rest"
proof -
  have u: "unforgeable toy_ideal (recv_key (toy_conn ss)) (recv_pfx (toy_conn ss)) [(5, [1, 2])] bs" for ss bs
    unfolding unforgeable_def toy_ideal_def toy_conn_sel by (simp split: if_splits)
  obtain c' where "run_calls (secure_ops toy_ideal (\<lambda>_. 0) tcp_ops) [CallRead [0, 0]]
      (toy_conn [frame toy_body]) = (c', [Return ([1, 2], 2)])"
    using toy_reads [OF toy_ideal_opens] by auto
  with secure_delivers_prefix [OF u _ _ _ this] show ?thesis
    by (auto simp: toy_conn_sel)
qed

text \<open>C4. The nonces an encrypted connection hands to its cipher for writing never repeat, in any
  sequence of calls, whatever the clock shows and whether the writes succeed.\<close>

theorem nonces_never_repeat:
  assumes "length (send_pfx c) = 12"
  shows "distinct (sent_nonces A now ops cs c)"
  using assms by (rule sent_nonces_distinct_gen)

theorem nonces_never_repeat_witness:
  "distinct (sent_nonces toy_aead (\<lambda>n. 7) tcp_ops [CallWrite [1], CallRead [0], CallWrite [1]]
     (toy_conn []))"
  by (rule nonces_never_repeat) (simp add: toy_conn_sel)

text \<open>C9. A DATA frame that was delivered once is refused with the counter error ever after, without
  any change of the connection, whatever calls were made in between.\<close>

theorem replay_rejected:
  assumes "handle_data A body buf c = (c1, Return r)" "length (recv_pfx c) = 12"
    and "run_calls (secure_ops A now ops) cs c1 = (c2, rs)"
  shows "handle_data A body buf2 c2 =
    (c2, Raise (Exn ValueError [Txt ''unexpected DATA counter'']))"
proof -
  have "recv_counter c < recv_counter c1"
    using handle_data_Return [OF assms(1,2)] by auto
  also have "recv_counter c1 \<le> recv_counter c2"
    using sc_calls_frame [of c1 A now ops cs] assms(3) by (simp add: sc_frame_def)
  finally show ?thesis by (rule handle_data_stale [OF assms(1,2)])
qed

theorem replay_rejected_witness:
  "handle_data toy_aead toy_body [0] ((toy_conn [])\<lparr>inner_conn := None, recv_counter := 1\<rparr>) =
     ((toy_conn [])\<lparr>inner_conn := None, recv_counter := 1\<rparr>,
      Raise (Exn ValueError [Txt ''unexpected DATA counter'']))"
  using replay_rejected [OF toy_opens [where ss = "[]" and x = None], of "\<lambda>_. 0" tcp_ops "[]"]
  by (simp add: toy_conn_sel)

text \<open>C11. A read that raises (end of file, a frame too large, too short, of the wrong type, with the
  wrong counter, or one the cipher refuses) or still waits changes nothing of the encrypted connection
  but its carrier: no counter advances and no byte is buffered or lost.\<close>

theorem failed_read_harmless:
  assumes "sc_read A ops buf c = (c', r)" "\<And>x. r \<noteq> Return x"
  shows "c' = c\<lparr>inner_conn := inner_conn c'\<rparr>"
proof (cases "sc_closed c \<or> buf = [] \<or> recv_buf c \<noteq> [] \<or> inner_conn c = None")
  case True
  with assms(1) assms(2) [of "fst (fill_buf buf (recv_buf c))"] have "c' = c"
    by (auto simp: sc_read_def sc_read_locked_def split_beta split: if_splits option.splits)
  then show ?thesis by simp
next
  case False
  then obtain s s' fr where s: "inner_conn c = Some s" "read_frame_from_conn ops s = (s', fr)"
    by (metis not_None_eq surj_pair)
  have h: "c' = c\<lparr>inner_conn := Some s'\<rparr>"
    if "handle_data A body buf (c\<lparr>inner_conn := Some s'\<rparr>) = (c', r)" for body
    using assms(2) handle_data_unchanged [OF that] by (cases r) auto
  have "c' = c\<lparr>inner_conn := Some s'\<rparr>"
    using assms(1) s False h
    by (auto simp: sc_read_def sc_read_locked_def Let_def split: res.splits list.splits if_splits)
  then show ?thesis by simp
qed

theorem failed_read_harmless_witness:
  "\<exists>c'. sc_read toy_aead tcp_ops [0] (toy_conn []) = (c', Blocked) \<and>
     c' = (toy_conn [])\<lparr>inner_conn := inner_conn c'\<rparr>"
proof -
  have "read_loop tcp_ops eof 4 0 (bytearray 4) (toy_tcp []) = (toy_tcp [], Blocked)" for eof
    by (simp add: read_loop.simps tcp_read_def toy_tcp_def TcpConn_init_def stream_read_into_def
        sr_read_def)
  then have "sc_read toy_aead tcp_ops [0] (toy_conn []) =
      ((toy_conn [])\<lparr>inner_conn := Some (toy_tcp [])\<rparr>, Blocked)"
    by (simp add: sc_read_def sc_read_locked_def toy_conn_sel read_frame_from_conn_def)
  then have b: "sc_read toy_aead tcp_ops [0] (toy_conn []) = (toy_conn [], Blocked)"
    by (simp add: toy_conn_def sc_bind_def)
  show ?thesis using failed_read_harmless [OF b] b by simp
qed

text \<open>C7. Whoever controls the carrier, an initiator that returns has read a reply of the right type
  whose public key hashes to the pinned fingerprint and whose signature over the KEM ciphertext that
  key verifies; the session keys come from decapsulating exactly that signed ciphertext with the key
  pair of this handshake, and both counters start at zero.\<close>

theorem initiator_authenticates:
  assumes "handshake_initiator E ops kc sc i peer_fp None s = (s', Return c)"
  shows "\<exists>K s1 body reply ss. kem_backend E = Some K \<and>
    read_frame_from_conn ops s1 = (s', Return body) \<and> unmarshal_hello body = Return reply \<and>
    msg_type reply = MSG_HELLO_REPLY \<and> compute_fingerprint E (public_key reply) = peer_fp \<and>
    verify E (public_key reply) (payload reply) (signature reply) \<and>
    kem_decrypt K (snd (kem_keypair K kc)) (payload reply) = Return ss \<and>
    send_key c = initiator_key (derive_keys E ss) \<and> recv_key c = responder_key (derive_keys E ss) \<and>
    send_counter c = 0 \<and> recv_counter c = 0 \<and> inner_conn c = Some s'"
  using assms
  by (auto simp: handshake_initiator_Return the_verify_def sc_bind_def SecureConn_init_def) blast

theorem initiator_authenticates_witness:
  "\<exists>wire s' c (K :: kem) (reply :: hello) ss. handshake_initiator toy_env tcp_ops 0 0 toy_id (fingerprint toy_env toy_id) None
       (toy_tcp [wire]) = (s', Return c) \<and>
     compute_fingerprint toy_env (public_key reply) = fingerprint toy_env toy_id \<and>
     kem_decrypt K (snd (kem_keypair K 0)) (payload reply) = Return ss"
proof -
  obtain wire s' c where r: "handshake_initiator toy_env tcp_ops 0 0 toy_id (fingerprint toy_env toy_id) None
       (toy_tcp [wire]) = (s', Return c)"
    using toy_initiator by blast
  from initiator_authenticates [OF r] r show ?thesis by blast
qed

text \<open>C8. A responder writes on its connection only after the initiator's HELLO was parsed, its key
  matched the pinned fingerprint and its signature over the KEM key verified; until then, and on every
  failing branch, a TCP connection carries no byte from it.\<close>

theorem responder_silent:
  assumes "wsent (tcp_writer (fst (handshake_responder E tcp_ops kc sc i peer_fp v s))) \<noteq>
      wsent (tcp_writer s)"
  shows "\<exists>s1 body hello. read_frame_from_conn tcp_ops s = (s1, Return body) \<and>
    unmarshal_hello body = Return hello \<and> msg_type hello = MSG_HELLO \<and>
    compute_fingerprint E (public_key hello) = peer_fp \<and>
    the_verify E v (public_key hello) (payload hello) (signature hello)"
proof (rule ccontr)
  assume n: "\<not> ?thesis"
  obtain s1 fr where r: "read_frame_from_conn tcp_ops s = (s1, fr)"
    by (cases "read_frame_from_conn tcp_ops s")
  have w: "wsent (tcp_writer s1) = wsent (tcp_writer s)"
    using read_frame_inv [of "\<lambda>x. wsent (tcp_writer x) = wsent (tcp_writer s)" tcp_ops s] r
    by (auto simp: tcp_read_def split_beta)
  have "fst (handshake_responder E tcp_ops kc sc i peer_fp v s) = s1"
  proof (cases fr)
    case (Return body)
    with n r show ?thesis
      by (intro handshake_responder_silent(1)) (auto simp: res_simps)
  qed (use r in \<open>simp_all add: handshake_responder_def\<close>)
  with w assms show False by simp
qed

theorem responder_silent_witness:
  "\<exists>wire s1 body hello. read_frame_from_conn tcp_ops (toy_tcp [wire]) = (s1, Return body) \<and>
     unmarshal_hello body = Return hello \<and>
     compute_fingerprint toy_env (public_key hello) = fingerprint toy_env toy_id"
proof -
  obtain wire where "wsent (tcp_writer (fst (handshake_responder toy_env tcp_ops 0 0 toy_id
      (fingerprint toy_env toy_id) None (toy_tcp [wire])))) \<noteq> wsent (tcp_writer (toy_tcp [wire]))"
    using toy_responder by (auto simp: toy_tcp_def TcpConn_init_def)
  from responder_silent [OF this] show ?thesis by blast
qed

text \<open>However TCP cuts the stream into segments, reading a frame of up to 16 MiB returns its body
  whole, consumes nothing of what follows and writes nothing.\<close>

theorem frame_any_segmentation:
  assumes "[] \<notin> set (segs r)" "\<not> wclosed w" "wlost w = None"
    and "concat (segs r) = frame body @ rest" "length body \<le> MAX_MESSAGE_SIZE"
  shows "\<exists>s'. read_frame_from_conn tcp_ops (TcpConn_init r w) = (s', Return body) \<and>
    concat (segs (tcp_reader s')) = rest \<and> wsent (tcp_writer s') = wsent w"
proof -
  have "tcp_link (TcpConn_init r w) (frame body @ rest) (wsent w)"
    using assms by (simp add: tcp_link_def TcpConn_init_def reader_ok_def)
  then show ?thesis
    by (rule tcp.read_frame_delivers [OF _ assms(5)]) (auto simp: tcp_link_def)
qed

theorem frame_any_segmentation_witness:
  "\<exists>s'. read_frame_from_conn tcp_ops (toy_tcp [[0], [0, 0, 2, 7], [8, 9]]) = (s', Return [7, 8]) \<and>
     concat (segs (tcp_reader s')) = [9] \<and> wsent (tcp_writer s') = []"
proof -
  have four: "(4 :: nat) = Suc (Suc (Suc (Suc 0)))" by simp
  have "concat [[0], [0, 0, 2, 7], [8, 9 :: byte]] = frame [7, 8] @ [9]"
    unfolding frame_def four by simp
  then show ?thesis
    using frame_any_segmentation [of "\<lparr>segs = [[0], [0, 0, 2, 7], [8, 9]], rtail = Live\<rparr>"
      "\<lparr>wsent = [], wclosed = False, wlost = None, sockname = None, peername = None\<rparr>" "[7, 8]" "[9]"]
    by (simp add: toy_tcp_def MAX_MESSAGE_SIZE_def)
qed

text \<open>C13. An encrypted connection does not bound the size of a write: data whose frame exceeds the 16 MiB
  that the peer accepts is sent and reported as written, and the peer's next read raises
  ``frame too large'' having consumed only the length field.\<close>

theorem oversize_write_breaks_peer:
  assumes "aead_ok A" "sc_keys_ok c" "\<not> sc_closed c" "inner_conn c = Some s" "tcp_link s inb wire"
    and "MAX_MESSAGE_SIZE < length data + 29" "length data + 29 < 2 ^ 32" "send_counter c < 2 ^ 64"
  shows "\<exists>c' s' body. sc_write A now tcp_ops data c = (c', Return (length data)) \<and>
    inner_conn c' = Some s' \<and> tcp_link s' inb (wire @ frame body) \<and>
    (\<forall>p t out buf. \<not> sc_closed p \<and> recv_buf p = [] \<and> inner_conn p = Some t \<and> buf \<noteq> [] \<and>
       tcp_link t (frame body) out \<longrightarrow>
       (\<exists>t'. sc_read A tcp_ops buf p = (p\<lparr>inner_conn := Some t'\<rparr>,
          Raise (Exn ValueError [Txt ''frame too large: '', Num (length data + 29)])) \<and>
        tcp_link t' body out))"
proof -
  let ?body = "data_body A (send_key c) (send_pfx c) (send_counter c) (write_ts now c, data)"
  let ?n = "length data + 29"
  have ne: "data \<noteq> []" using assms(6) by (auto simp: MAX_MESSAGE_SIZE_def)
  have "?n < 256 ^ 4" using assms(7) by simp
  then obtain s' where "sc_write A now tcp_ops data c =
      (c\<lparr>send_counter := send_counter c + 1, inner_conn := Some s'\<rparr>, Return (length data))"
    "tcp_link s' inb (wire @ frame ?body)"
    using tcp.sc_write_puts [OF assms(1-5) TrueI ne _ assms(8) refl, where now = now] by blast
  moreover have "length ?body = ?n"
    using assms(1,2) by (simp add: length_data_body sc_keys_ok_def)
  moreover have "\<exists>t'. sc_read A tcp_ops buf p = (p\<lparr>inner_conn := Some t'\<rparr>,
        Raise (Exn ValueError [Txt ''frame too large: '', Num ?n])) \<and> tcp_link t' ?body out"
    if p: "\<not> sc_closed p" "recv_buf p = []" "inner_conn p = Some t" "buf \<noteq> []"
      "tcp_link t (frame ?body) out" for p t out buf
  proof -
    have "tcp_link t (be_bytes 4 ?n @ ?body) out"
      using p(5) \<open>length ?body = ?n\<close> by (simp add: frame_def)
    then obtain t' where "read_frame_from_conn tcp_ops t =
        (t', Raise (Exn ValueError [Txt ''frame too large: '', Num ?n]))" "tcp_link t' ?body out"
      using tcp.read_frame_too_large assms(6,7) by (metis \<open>?n < 256 ^ 4\<close>)
    with p show ?thesis by (auto simp: sc_read_def sc_read_locked_def)
  qed
  ultimately show ?thesis by (intro exI [of _ "?body"] exI conjI) auto
qed

theorem oversize_write_breaks_peer_witness:
  "\<exists>c'. sc_write toy_aead (\<lambda>_. 0) tcp_ops (bytearray MAX_MESSAGE_SIZE) (toy_conn []) =
     (c', Return MAX_MESSAGE_SIZE)"
proof -
  have "sc_keys_ok (toy_conn [])" by (simp add: sc_keys_ok_def toy_conn_sel)
  from oversize_write_breaks_peer [OF toy_aead_ok this _ toy_conn_sel(8) toy_tcp_link,
      where data = "bytearray MAX_MESSAGE_SIZE" and now = "\<lambda>_. 0"]
  show ?thesis by (auto simp: toy_conn_sel MAX_MESSAGE_SIZE_def)
qed

lemma tcp_read_keeps_tail: "rtail (tcp_reader c) = Live \<Longrightarrow> rtail (tcp_reader (fst (tcp_read buf c))) = Live"
  by (auto simp: tcp_read_def stream_read_into_def sr_read_def Let_def
      split: prod.splits res.splits list.splits stream_tail.splits if_splits)

lemma tcp_empty_waits:
  assumes "tcp_link c [] out" "rtail (tcp_reader c) = Live" "0 < want"
  shows "read_loop tcp_ops eof want 0 acc c = (c, Blocked)"
proof -
  have "segs (tcp_reader c) = []" using assms(1) by (cases "segs (tcp_reader c)") (auto simp: tcp_link_def reader_ok_def)
  with assms show ?thesis
    by (simp add: read_loop.simps [of tcp_ops eof want 0] tcp_read_def stream_read_into_def sr_read_def tcp_link_def)
qed

lemma frame_header_waits:
  assumes "tcp_link s (be_bytes 4 n) out" "rtail (tcp_reader s) = Live" "0 < n" "n \<le> MAX_MESSAGE_SIZE"
  shows "\<exists>s'. read_frame_from_conn tcp_ops s = (s', Blocked) \<and> tcp_link s' [] out"
proof -
  let ?read = "read_loop tcp_ops ''unexpected EOF reading frame length'' 4 0 (bytearray 4) s"
  have l: "tcp_link s (be_bytes 4 n @ []) out" using assms(1) by simp
  obtain s1 where s1: "?read = (s1, Return (be_bytes 4 n))" "tcp_link s1 [] out"
    using tcp.read_loop_delivers [OF l, of "bytearray 4" 4 0] by auto
  have "rtail (tcp_reader (fst ?read)) = Live"
    by (rule read_loop_inv [where P = "\<lambda>s. rtail (tcp_reader s) = Live"]) (simp_all add: tcp_read_keeps_tail assms(2))
  then have "rtail (tcp_reader s1) = Live" using s1(1) by simp
  moreover have "n < 256 ^ 4" using assms(4) by (simp add: MAX_MESSAGE_SIZE_def)
  ultimately show ?thesis
    using s1 tcp_empty_waits [OF s1(2) _ assms(3)] assms(4)
    by (auto simp: read_frame_from_conn_def struct_unpack_pack)
qed

text \<open>C12. A read of an encrypted connection cannot be interrupted: when only the length of a frame has arrived, the read
  has taken it from the stream and waits. If it is cancelled there (a timeout around \<^verbatim>\<open>read\<close> does that) and the rest of
  the frame arrives, the next read takes the front of the body for a length and raises ``frame too large'', although the
  peer did nothing wrong.\<close>

theorem interrupted_read_breaks_stream:
  assumes "\<not> sc_closed c" "recv_buf c = []" "inner_conn c = Some s" "buf \<noteq> []"
    and "body = data_body A key pfx n m" "length body \<le> MAX_MESSAGE_SIZE"
    and "tcp_link s (be_bytes 4 (length body)) out" "rtail (tcp_reader s) = Live"
  shows "\<exists>s'. sc_read A tcp_ops buf c = (c\<lparr>inner_conn := Some s'\<rparr>, Blocked) \<and> tcp_link s' [] out \<and>
    (\<forall>t more. tcp_link t (body @ more) out \<longrightarrow>
      (\<exists>t' len. sc_read A tcp_ops buf (c\<lparr>inner_conn := Some t\<rparr>) =
        (c\<lparr>inner_conn := Some t'\<rparr>, Raise (Exn ValueError [Txt ''frame too large: '', Num len]))))"
proof -
  have ne: "0 < length body" by (simp add: assms(5) data_body_def)
  obtain s' where s': "read_frame_from_conn tcp_ops s = (s', Blocked)" "tcp_link s' [] out"
    using frame_header_waits [OF assms(7,8) ne assms(6)] by blast
  have "\<exists>t' len. sc_read A tcp_ops buf (c\<lparr>inner_conn := Some t\<rparr>) =
        (c\<lparr>inner_conn := Some t'\<rparr>, Raise (Exn ValueError [Txt ''frame too large: '', Num len]))"
    if l: "tcp_link t (body @ more) out" for t more
  proof -
    let ?h = "MSG_DATA # take 3 (be_bytes 4 (fst m))"
    have b: "body @ more = be_bytes 4 (be_val ?h) @ drop 4 (body @ more)"
      using be_bytes_be_val [of ?h] by (simp add: assms(5) data_body_def)
    have "be_val ?h = 3 * 256 ^ 3 + be_val (take 3 (be_bytes 4 (fst m)))"
      by (simp add: be_val_Cons MSG_DATA_def)
    then have "MAX_MESSAGE_SIZE < be_val ?h" "be_val ?h < 256 ^ 4"
      using be_val_bound [of ?h] by (simp_all add: MAX_MESSAGE_SIZE_def)
    with l b obtain t' where "read_frame_from_conn tcp_ops t =
        (t', Raise (Exn ValueError [Txt ''frame too large: '', Num (be_val ?h)]))"
      using tcp.read_frame_too_large by metis
    with assms(1-4) show ?thesis by (auto simp: sc_read_def sc_read_locked_def)
  qed
  moreover have "sc_read A tcp_ops buf c = (c\<lparr>inner_conn := Some s'\<rparr>, Blocked)"
    using assms(1-4) s'(1) by (simp add: sc_read_def sc_read_locked_def)
  ultimately show ?thesis using s'(2) by blast
qed

theorem interrupted_read_breaks_stream_witness:
  "\<exists>c'. sc_read toy_aead tcp_ops [0] (toy_conn [be_bytes 4 31]) = (c', Blocked)"
proof -
  have b: "toy_body = data_body toy_aead (replicate 32 15) (replicate 12 15) 0 (5, [1, 2])" "length toy_body = 31"
    by (simp_all add: toy_body_def length_data_body [OF toy_aead_ok])
  have "be_bytes 4 31 \<noteq> []" by (metis length_be_bytes list.size(3) zero_neq_numeral)
  then have l: "tcp_link (toy_tcp [be_bytes 4 31]) (be_bytes 4 (length toy_body)) []"
    using toy_tcp_link [of "[be_bytes 4 31]"] b(2) by simp
  have t: "rtail (tcp_reader (toy_tcp [be_bytes 4 31])) = Live" by (simp add: toy_tcp_def TcpConn_init_def)
  have m: "length toy_body \<le> MAX_MESSAGE_SIZE" using b(2) by (simp add: MAX_MESSAGE_SIZE_def)
  from interrupted_read_breaks_stream [OF _ _ toy_conn_sel(8) _ b(1) m l t, of "[0]"] show ?thesis
    by (auto simp: toy_conn_sel)
qed

text \<open>After a close, whatever its carrier answered, an encrypted connection stays closed through any
  calls: every read and write raises, closing again succeeds, and the carrier is not touched any more.\<close>

theorem secure_close_refuses:
  assumes "inner_conn c \<noteq> None"
  shows "let (c', r) = sc_close ops c; (c'', rs) = run_calls (secure_ops A now ops) cs c'
    in sc_closed c' \<and> c'' = c' \<and> list_all2 refused cs rs"
  using secure_shut.close_shuts [where s = c and ops = ops] assms
    secure_shut.shut_run [where s = "fst (sc_close ops c)" and A = A and now = now and ops = ops and cs = cs]
  by (simp add: split_beta)

theorem secure_close_refuses_witness:
  "let (c', r) = sc_close tcp_ops (toy_conn []);
       (c'', rs) = run_calls (secure_ops toy_aead (\<lambda>_. 0) tcp_ops) [CallWrite [1], CallClose] c'
   in sc_closed c' \<and> c'' = c' \<and> list_all2 refused [CallWrite [1], CallClose] rs"
  by (rule secure_close_refuses) (simp add: toy_conn_sel)

text \<open>C14. The HELLO parser accepts exactly the bodies with a message type, a key and a payload of their
  declared lengths and a declared signature length; the signature is what is left, cut at that length,
  so a truncated signature is not refused here but left to verification.\<close>

theorem hello_parse_exact:
  "unmarshal_hello body = Return h \<longleftrightarrow>
     (\<exists>sl rest. length (public_key h) < 65536 \<and> length (payload h) < 65536 \<and> sl < 65536 \<and>
        signature h = take sl rest \<and>
        body = msg_type h # be_bytes 2 (length (public_key h)) @ public_key h @
               be_bytes 2 (length (payload h)) @ payload h @ be_bytes 2 sl @ rest)"
  by (rule unmarshal_hello_Return)

text \<open>C15. What \<open>marshal_hello\<close> builds is one frame whose body parses back to the same fields; it raises
  exactly when a field is longer than 65535 bytes.\<close>

theorem hello_roundtrip:
  "(case marshal_hello mt pk pl sig of
      Return bs \<Rightarrow> (\<exists>body. bs = frame body \<and> unmarshal_hello body =
        Return \<lparr>msg_type = mt, public_key = pk, payload = pl, signature = sig\<rparr>)
    | Raise e \<Rightarrow> e = struct_error \<and> (65535 < length pk \<or> 65535 < length pl \<or> 65535 < length sig)
    | Blocked \<Rightarrow> False)"
proof (cases "marshal_hello mt pk pl sig")
  case (Return bs)
  with unmarshal_marshal_hello [OF Return] show ?thesis by auto
next
  case (Raise e)
  then have "\<not> (length pk < 65536 \<and> length pl < 65536 \<and> length sig < 65536)" "e = struct_error"
    by (auto simp: marshal_hello_def struct_pack_def Let_def split: if_splits)
  with Raise show ?thesis by auto
next
  case Blocked
  then show ?thesis by (auto simp: marshal_hello_def struct_pack_def Let_def split: if_splits)
qed

text \<open>C5. A peer session through a relay: when the two ends run the handshake over connections to the
  relay that are themselves encrypted (each with its own keys, clock and cipher) and the relay passes the
  bytes on, they agree on keys and the messages arrive byte for byte, up to the size that fits both
  layers of framing.\<close>

theorem session_through_relay:
  assumes "env_ok E" "aead_ok A"
    and "identity_generate E gi = Return i" "identity_generate E gr = Return r"
    and "\<forall>m \<in> set ms. length m + 62 \<le> MAX_MESSAGE_SIZE" "length ms < 2 ^ 64"
  shows "\<exists>hello reply. length hello = 8798 \<and> length reply = 8798 \<and>
    (\<forall>si oi. leg_link Ai si reply oi \<and> send_counter si = 0 \<longrightarrow>
      (\<exists>s1 ci s2 ci' frames.
        handshake_initiator E (secure_ops Ai ti tcp_ops) kci sci i (fingerprint E r) None si =
          (s1, Return ci) \<and>
        run_calls (secure_ops A now (secure_ops Ai ti tcp_ops)) (map CallWrite ms) ci =
          (ci', map (\<lambda>m. Return ([], length m)) ms) \<and>
        inner_conn ci' = Some s2 \<and> leg_link Ai s2 [] (oi @ hello @ frames) \<and>
        (\<forall>sr orr. leg_link Ar sr (hello @ frames) orr \<and> send_counter sr = 0 \<longrightarrow>
          (\<exists>s3 cr cr'.
            handshake_responder E (secure_ops Ar tr tcp_ops) kcr scr r (fingerprint E i) None sr =
              (s3, Return cr) \<and> leg_link Ar s3 frames (orr @ reply) \<and> keys_match ci cr \<and>
            read_loop (secure_ops A now' (secure_ops Ar tr tcp_ops)) eof (length (concat ms)) 0
              (bytearray (length (concat ms))) cr = (cr', Return (concat ms))))))"
proof -
  have ms: "\<forall>m \<in> set ms. length m + 29 \<le> MAX_MESSAGE_SIZE" "length ms \<le> 2 ^ 64"
    using assms(5,6) by auto
  have w: "sc_wok (\<lambda>_ _. True) s (8798 # map (\<lambda>m. length m + 33) (filter (\<lambda>m. m \<noteq> []) ms))"
    "sc_wok (\<lambda>_ _. True) s [8798]" if "leg_link B s x y \<and> send_counter s = 0" for B s x y
    using fresh_leg_wok [OF assms(5,6)] fresh_leg_wok [of "[]"] that by (simp_all, blast+)
  show ?thesis
    apply (rule ex_forward [OF relay_pair.session_delivers [OF assms(1-4) ms,
          of Ai ti kci sci now Ar tr kcr scr now' eof]])
    apply (erule ex_forward)
    apply (elim conjE, intro conjI allI impI, assumption, assumption)
    apply (drule spec, drule spec, drule mp, erule conjunct1, drule mp, erule w(1))
    apply (elim exE conjE, rule exI, rule exI, rule exI, rule exI, rule exI)
    apply ((rule conjI, assumption)+, intro allI impI)
    apply (drule spec, drule spec, drule mp, erule conjunct1, drule mp, erule w(2), assumption)
    done
qed

theorem session_through_relay_witness:
  "\<exists>wire s1 ci. handshake_initiator toy_env (secure_ops toy_aead (\<lambda>_. 0) tcp_ops) 0 0 toy_id
     (fingerprint toy_env toy_id) None (toy_conn [wire]) = (s1, Return ci)"
proof -
  have "\<forall>m \<in> set [[1, 2], [], [3 :: byte]]. length m + 62 \<le> MAX_MESSAGE_SIZE"
    by (simp add: MAX_MESSAGE_SIZE_def)
  from session_through_relay [OF toy_env_ok toy_aead_ok toy_id_generated toy_id_generated this]
  obtain reply where r: "length reply = 8798" and
    h: "\<forall>si oi. leg_link toy_aead si reply oi \<and> send_counter si = 0 \<longrightarrow> (\<exists>s1 ci.
      handshake_initiator toy_env (secure_ops toy_aead (\<lambda>_. 0) tcp_ops) 0 0 toy_id
        (fingerprint toy_env toy_id) None si = (s1, Return ci))"
    by fastforce
  let ?wire = "data_frames toy_aead (replicate 32 15) (replicate 12 15) 0 [(0, reply)]"
  have "tcp_link (toy_tcp [?wire]) ?wire []"
    using toy_tcp_link [of "[?wire]"] by simp
  moreover have "blake3_ok (blake3 toy_env)" using toy_env_ok by (simp add: env_ok_def)
  moreover have "msg_ok (0, reply)" using r by (auto simp: msg_ok_def MAX_MESSAGE_SIZE_def)
  ultimately have "sc_link toy_aead tcp_link [] (toy_conn [?wire]) (concat (map snd [(0 :: nat, reply)])) []"
    by (intro tcp.fresh_sc_link [OF toy_aead_ok _ _ _ toy_conn_def]) (simp_all add: toy_conn_sel)
  then have "leg_link toy_aead (toy_conn [?wire]) reply []" by (auto simp: leg_link_def)
  with h toy_conn_sel(7) show ?thesis by blast
qed

end
