(* ===== verification/BytePipe.thy ===== *)
theory BytePipe
  imports SecureChannel
begin

text \<open>
  What \<^verbatim>\<open>conn.py\<close> promises of a connection, as an abstract machine: two byte sequences, what is still to be read and what has
  been written. Every carrier that keeps the contract \<open>conn_stream\<close> refines it for any interleaving of reads and
  writes, up to the first read of a stream that is drained; the encrypted connection of \<^verbatim>\<open>secure/conn.py\<close> does.
\<close>

section \<open>The pipe\<close>

inductive pipe_run :: "bytes \<Rightarrow> bytes \<Rightarrow> conn_call list \<Rightarrow> (bytes \<times> nat) res list \<Rightarrow> bytes \<Rightarrow> bytes \<Rightarrow> bool" where
  pipe_done: "pipe_run inb outb [] [] inb outb"
| pipe_read: "\<lbrakk>0 < k; k \<le> length buf; k \<le> length inb; pipe_run (drop k inb) outb cs rs inb' outb'\<rbrakk> \<Longrightarrow>
    pipe_run inb outb (CallRead buf # cs) (Return (take k inb @ drop k buf, k) # rs) inb' outb'"
| pipe_write: "pipe_run inb (outb @ data) cs rs inb' outb' \<Longrightarrow>
    pipe_run inb outb (CallWrite data # cs) (Return ([], length data) # rs) inb' outb'"

inductive_simps pipe_run_simps [simp]:
  "pipe_run inb outb [] rs inb' outb'"
  "pipe_run inb outb (CallWrite data # cs) rs inb' outb'"
  "pipe_run inb outb (CallRead buf # cs) rs inb' outb'"
  "pipe_run inb outb (CallClose # cs) rs inb' outb'"

fun written :: "conn_call list \<Rightarrow> bytes list" where
  "written [] = []"
| "written (CallWrite data # cs) = data # written cs"
| "written (_ # cs) = written cs"

text \<open>The calls the contract is about: reads into a buffer that has room, and writes.\<close>

fun plain_call :: "conn_call \<Rightarrow> bool" where
  "plain_call (CallRead buf) \<longleftrightarrow> buf \<noteq> []"
| "plain_call (CallWrite data) \<longleftrightarrow> True"
| "plain_call CallClose \<longleftrightarrow> False"

text \<open>A pipe hands out its bytes in order, each once, and keeps what is written.\<close>

lemma pipe_conserves:
  "pipe_run inb outb cs rs inb' outb' \<Longrightarrow> inb = delivered cs rs @ inb' \<and> outb' = outb @ concat (written cs)"
proof (induction rule: pipe_run.induct)
  case (pipe_read k buf inb outb cs rs inb' outb')
  then have "inb = take k inb @ delivered cs rs @ inb'" by (metis append_take_drop_id)
  with pipe_read show ?case by simp
qed simp_all

lemma run_calls_length: "length (snd (run_calls ops cs s)) = length cs"
proof (induction cs arbitrary: s)
  case (Cons c cs)
  then show ?case by (cases c) (simp_all add: split_beta Let_def)
qed simp

section \<open>Refinement\<close>

context conn_stream
begin

text \<open>A run of calls follows the pipe as far as there is something to read.\<close>

lemma follows_pipe:
  assumes "link s inb outb" "wok s (map length (written cs))" "list_all plain_call cs" "run_calls ops cs s = (s', rs)"
  shows "\<exists>n inb' outb'. pipe_run inb outb (take n cs) (take n rs) inb' outb' \<and>
    (if n < length cs then inb' = [] \<and> (\<exists>buf. cs ! n = CallRead buf) else link s' inb' outb')"
  using assms
proof (induction cs arbitrary: s inb outb rs)
  case Nil
  then show ?case by (intro exI [of _ 0]) simp
next
  case (Cons c cs)
  show ?case
  proof (cases c)
    case (CallRead buf)
    show ?thesis
    proof (cases "inb = []")
      case True
      with CallRead show ?thesis by (intro exI [of _ 0]) simp
    next
      case False
      have "buf \<noteq> []" using Cons.prems(3) CallRead by simp
      then obtain k s1 where k: "0 < k" "k \<le> length buf" "k \<le> length inb"
        "op_read ops buf s = (s1, Return (take k inb @ drop k buf, k))" "link s1 (drop k inb) outb" "\<And>ns. wok s ns \<Longrightarrow> wok s1 ns"
        using read_someE [OF Cons.prems(1) False] by metis
      obtain rs1 where rs1: "run_calls ops cs s1 = (s', rs1)" "rs = Return (take k inb @ drop k buf, k) # rs1"
        using Cons.prems(4) CallRead k(4) by (auto split: prod.splits)
      have "wok s1 (map length (written cs))" using k(6) Cons.prems(2) CallRead by simp
      from Cons.IH [OF k(5) this _ rs1(1)] Cons.prems(3) obtain n inb' outb' where
        "pipe_run (drop k inb) outb (take n cs) (take n rs1) inb' outb'"
        "if n < length cs then inb' = [] \<and> (\<exists>buf. cs ! n = CallRead buf) else link s' inb' outb'" by auto
      with k(1-3) show ?thesis
        by (intro exI [of _ "Suc n"] exI [of _ inb'] exI [of _ outb']) (auto simp: CallRead rs1(2) split: if_splits)
    qed
  next
    case (CallWrite data)
    have "wok s (length data # map length (written cs))" using Cons.prems(2) CallWrite by simp
    then obtain s1 where s1: "op_write ops data s = (s1, Return (length data))" "link s1 inb (outb @ data)"
      "wok s1 (map length (written cs))" using write_allE [OF Cons.prems(1)] by metis
    obtain rs1 where rs1: "run_calls ops cs s1 = (s', rs1)" "rs = Return ([], length data) # rs1"
      using Cons.prems(4) CallWrite s1(1) by (auto split: prod.splits)
    from Cons.IH [OF s1(2,3) _ rs1(1)] Cons.prems(3) obtain n inb' outb' where
      "pipe_run inb (outb @ data) (take n cs) (take n rs1) inb' outb'"
      "if n < length cs then inb' = [] \<and> (\<exists>buf. cs ! n = CallRead buf) else link s' inb' outb'" by auto
    then show ?thesis
      by (intro exI [of _ "Suc n"] exI [of _ inb'] exI [of _ outb']) (auto simp: CallWrite rs1(2) split: if_splits)
  next
    case CallClose
    with Cons.prems(3) show ?thesis by simp
  qed
qed

end

section \<open>The encrypted connection\<close>

text \<open>C2. An encrypted connection over TCP refines a pipe of bytes. For any interleaving of reads and writes on a fresh
  connection, however TCP segments the frames of the peer and whatever sizes of buffers and messages, the results of the
  calls are those of a pipe that holds the plaintext of the peer, up to the first read of a drained pipe; when there is none,
  what TCP carries in the end is the frames of what was written, and nothing was read twice or lost.\<close>

theorem secure_refines_pipe:
  assumes "aead_ok A" "blake3_ok (blake3 E)" "list_all msg_ok rms" "length rms \<le> 2 ^ 64"
    and "c = sc_bind s (SecureConn_init (derive_keys E ss) initiator)"
      "tcp_link s (data_frames A (recv_key c) (recv_pfx c) 0 rms) out"
    and "list_all plain_call cs" "list_all (\<lambda>m. length m + 29 \<le> MAX_MESSAGE_SIZE) (written cs)" "length (written cs) \<le> 2 ^ 64"
    and "run_calls (secure_ops A now tcp_ops) cs c = (c', rs)"
  shows "\<exists>n inb' outb'. pipe_run (concat (map snd rms)) [] (take n cs) (take n rs) inb' outb' \<and>
    (if n < length cs then inb' = [] \<and> (\<exists>buf. cs ! n = CallRead buf)
     else sc_link A tcp_link out c' inb' outb' \<and>
       concat (map snd rms) = delivered cs rs @ inb' \<and> outb' = concat (written cs))"
proof -
  have l: "sc_link A tcp_link out c (concat (map snd rms)) []" by (rule tcp.fresh_sc_link [OF assms(1-6)])
  have "length (filter (\<lambda>n. 0 < n) (map length (written cs))) \<le> 2 ^ 64"
    using assms(9) length_filter_le [of _ "map length (written cs)"] le_trans by (metis length_map)
  then have w: "sc_wok (\<lambda>_ _. True) c (map length (written cs))"
    using assms(5,8) by (auto simp: sc_wok_def sc_bind_def SecureConn_init_def list_all_iff)
  from conn_stream.follows_pipe [OF tcp.secure_stream l w assms(7,10)]
  obtain n inb' outb' where n: "pipe_run (concat (map snd rms)) [] (take n cs) (take n rs) inb' outb'"
    "if n < length cs then inb' = [] \<and> (\<exists>buf. cs ! n = CallRead buf) else sc_link A tcp_link out c' inb' outb'" by blast
  have "length rs = length cs" using run_calls_length [of "secure_ops A now tcp_ops" cs c] assms(10) by simp
  with n pipe_conserves [OF n(1)] show ?thesis
    by (intro exI [of _ n] exI [of _ inb'] exI [of _ outb']) (simp split: if_splits)
qed

theorem secure_refines_pipe_witness:
  "\<exists>c'. run_calls (secure_ops toy_aead (\<lambda>_. 0) tcp_ops) [CallWrite [7], CallRead [0]] (toy_conn [frame toy_body]) =
       (c', [Return ([], 1), Return ([1], 1)]) \<and> sc_link toy_aead tcp_link [] c' [2] [7]"
proof -
  let ?cs = "[CallWrite [7], CallRead [0]]"
  obtain c' rs where r: "run_calls (secure_ops toy_aead (\<lambda>_. 0) tcp_ops) ?cs (toy_conn [frame toy_body]) = (c', rs)"
    by (cases "run_calls (secure_ops toy_aead (\<lambda>_. 0) tcp_ops) ?cs (toy_conn [frame toy_body])")
  have f: "data_frames toy_aead (recv_key (toy_conn [frame toy_body])) (recv_pfx (toy_conn [frame toy_body])) 0 [(5, [1, 2])] = frame toy_body"
    unfolding toy_conn_sel by (simp add: toy_body_def)
  have "tcp_link (toy_tcp [frame toy_body]) (frame toy_body) []"
    using toy_tcp_link [of "[frame toy_body]"] by (simp add: frame_def toy_body_def data_body_def)
  then have l: "tcp_link (toy_tcp [frame toy_body])
      (data_frames toy_aead (recv_key (toy_conn [frame toy_body])) (recv_pfx (toy_conn [frame toy_body])) 0 [(5, [1, 2])]) []"
    unfolding f .
  have b: "blake3_ok (blake3 toy_env)" using toy_env_ok by (simp add: env_ok_def)
  have h: "list_all msg_ok [(5, [1, 2])]" "length [(5 :: nat, [1, 2 :: byte])] \<le> 2 ^ 64" "list_all plain_call ?cs"
    "list_all (\<lambda>m. length m + 29 \<le> MAX_MESSAGE_SIZE) (written ?cs)" "length (written ?cs) \<le> 2 ^ 64"
    using toy_msg_ok by (simp_all add: MAX_MESSAGE_SIZE_def)
  have e: "concat (map snd [(5 :: nat, [1, 2 :: byte])]) = [1, 2]" "concat (written ?cs) = [7]" "length ?cs = 2" by simp_all
  obtain n inb' outb' where n: "pipe_run [1, 2] [] (take n ?cs) (take n rs) inb' outb'"
    "if n < 2 then inb' = [] \<and> (\<exists>buf. ?cs ! n = CallRead buf)
     else sc_link toy_aead tcp_link [] c' inb' outb' \<and> [1, 2] = delivered ?cs rs @ inb' \<and> outb' = [7]"
    using secure_refines_pipe [OF toy_aead_ok b h(1,2) toy_conn_def l h(3-5) r, unfolded e] by blast
  have "2 \<le> n"
  proof (rule ccontr)
    assume "\<not> 2 \<le> n"
    then have "n = 0 \<or> n = 1" by arith
    with n show False by (cases rs) auto
  qed
  moreover have "length rs = 2" using run_calls_length [of "secure_ops toy_aead (\<lambda>_. 0) tcp_ops" ?cs "toy_conn [frame toy_body]"] r by simp
  ultimately have p: "pipe_run [1, 2] [] ?cs rs inb' outb'" using n(1) by simp
  have "sc_link toy_aead tcp_link [] c' inb' outb' \<and> outb' = [7]" using n(2) \<open>2 \<le> n\<close> by (metis not_less)
  moreover have "rs = [Return ([], 1), Return ([1], 1)] \<and> inb' = [2]" using p by (auto simp: le_Suc_eq)
  ultimately show ?thesis using r by auto
qed

end
