(* ===== verification/ConnTypes.thy ===== *)
theory ConnTypes
  imports SecureChannel
begin

text \<open>
  A typing discipline for connections. The source is untyped: a buffer of the wrong length, a key of the wrong
  size or a counter that does not fit would surface as \<^verbatim>\<open>struct.error\<close>, \<^verbatim>\<open>AssertionError\<close> or an error of the cipher's
  constructor. The contract \<open>conn_typed\<close> says that this never happens while \<open>k\<close> more writes of at most
  \<open>cap\<close> bytes are made, and that reads and writes return the counts the interface documents, in every state
  and with every peer. It holds for TCP, and an encrypted connection has it whenever its carrier does.
\<close>

definition misuse :: "exn \<Rightarrow> bool" where
  "misuse e \<longleftrightarrow> exn_class_of e \<in> {AssertionError, StructError, IndexError, TypeError, AttributeError} \<or>
     e = Exn ValueError [Txt ''ChaCha20_Poly1305.new'']"

lemma misuse_simps [simp]:
  "\<not> misuse (Exn ConnectionError ps)" "\<not> misuse connection_closed" "\<not> misuse conn_closed_error" "\<not> misuse (peer_error body)"
  "misuse (Exn ValueError ps) \<longleftrightarrow> ps = [Txt ''ChaCha20_Poly1305.new'']" "\<not> misuse (Exn TimeoutError ps)"
  by (simp_all add: misuse_def connection_closed_def conn_closed_error_def peer_error_def)

definition read_typed :: "bytes \<Rightarrow> (bytes \<times> nat) res \<Rightarrow> bool" where
  "read_typed buf r =
     (case r of Return (b, n) \<Rightarrow> length b = length buf \<and> n \<le> length buf | Raise e \<Rightarrow> \<not> misuse e | Blocked \<Rightarrow> True)"

definition res_typed :: "('a \<Rightarrow> bool) \<Rightarrow> 'a res \<Rightarrow> bool" where
  "res_typed P r = (case r of Return a \<Rightarrow> P a | Raise e \<Rightarrow> \<not> misuse e | Blocked \<Rightarrow> True)"

lemma typed_simps [simp]:
  "read_typed buf (Return x) \<longleftrightarrow> length (fst x) = length buf \<and> snd x \<le> length buf"
  "read_typed buf (Raise e) \<longleftrightarrow> \<not> misuse e" "read_typed buf Blocked"
  "res_typed P (Return a) \<longleftrightarrow> P a" "res_typed P (Raise e) \<longleftrightarrow> \<not> misuse e" "res_typed P Blocked"
  by (simp_all add: read_typed_def res_typed_def split_beta)

text \<open>The calls of a client, and what they may return.\<close>

definition call_fits :: "nat \<Rightarrow> conn_call \<Rightarrow> bool" where
  "call_fits cap c = (case c of CallWrite d \<Rightarrow> length d \<le> cap | _ \<Rightarrow> True)"

definition call_typed :: "conn_call \<Rightarrow> (bytes \<times> nat) res \<Rightarrow> bool" where
  "call_typed c r =
     (case c of CallRead buf \<Rightarrow> read_typed buf r | CallWrite d \<Rightarrow> res_typed (\<lambda>x. snd x = length d) r
      | CallClose \<Rightarrow> res_typed (\<lambda>_. True) r)"

locale conn_typed =
  fixes ops :: "'s conn_ops"
    and good :: "nat \<Rightarrow> 's \<Rightarrow> bool"
    and cap :: nat
  assumes good_weaken: "good (Suc k) s \<Longrightarrow> good k s"
    and typed_read: "\<lbrakk>good k s; op_read ops buf s = (s', r)\<rbrakk> \<Longrightarrow> good k s' \<and> read_typed buf r"
    and typed_write: "\<lbrakk>good (Suc k) s; length data \<le> cap; op_write ops data s = (s', x)\<rbrakk> \<Longrightarrow>
      good k s' \<and> res_typed (\<lambda>n. n = length data) x"
    and typed_close: "\<lbrakk>good k s; op_close ops s = (s', y)\<rbrakk> \<Longrightarrow> good k s' \<and> res_typed (\<lambda>_. True) y"
begin

lemma run_calls_typed:
  assumes "good (length cs + k) s" "list_all (call_fits cap) cs" "run_calls ops cs s = (s', rs)"
  shows "good k s' \<and> list_all2 call_typed cs rs"
  using assms
proof (induction cs arbitrary: s rs)
  case (Cons c cs)
  show ?case
  proof (cases c)
    case (CallRead buf)
    obtain s1 r where o: "op_read ops buf s = (s1, r)" by (cases "op_read ops buf s")
    with Cons.prems typed_read [OF _ o, of "Suc (length cs + k)"] good_weaken CallRead
    have "good (length cs + k) s1" "read_typed buf r" by auto
    with Cons.IH [of s1] Cons.prems o CallRead show ?thesis
      by (auto simp: call_typed_def split: prod.splits)
  next
    case (CallWrite d)
    obtain s1 r where o: "op_write ops d s = (s1, r)" by (cases "op_write ops d s")
    with Cons.prems typed_write [OF _ _ o, of "length cs + k"] CallWrite
    have "good (length cs + k) s1" "res_typed (\<lambda>n. n = length d) r" by (auto simp: call_fits_def)
    with Cons.IH [of s1] Cons.prems o CallWrite show ?thesis
      by (cases r) (auto simp: call_typed_def split: prod.splits)
  next
    case CallClose
    obtain s1 r where o: "op_close ops s = (s1, r)" by (cases "op_close ops s")
    with Cons.prems typed_close [OF _ o, of "Suc (length cs + k)"] good_weaken CallClose
    have "good (length cs + k) s1" "res_typed (\<lambda>_. True) r" by auto
    with Cons.IH [of s1] Cons.prems o CallClose show ?thesis
      by (cases r) (auto simp: call_typed_def split: prod.splits)
  qed
qed simp

lemma read_loop_typed:
  assumes "good k s" "length acc = want" "offset \<le> want" "read_loop ops eof want offset acc s = (s', r)"
  shows "good k s' \<and> res_typed (\<lambda>b. length b = want) r"
  using assms
proof (induction "want - offset" arbitrary: offset acc s rule: less_induct)
  case less
  show ?case
  proof (cases "offset < want")
    case True
    obtain s1 x where o: "op_read ops (bytearray (want - offset)) s = (s1, x)"
      by (cases "op_read ops (bytearray (want - offset)) s")
    have t: "good k s1" "read_typed (bytearray (want - offset)) x" using typed_read [OF less.prems(1) o] by simp_all
    show ?thesis
    proof (cases "\<exists>b n. x = Return (b, n) \<and> n \<noteq> 0")
      case False
      then show ?thesis
        using less.prems(4) True o t by (cases x) (auto simp: read_loop.simps [of ops eof want offset acc s])
    next
      case True': True
      then obtain b n where x: "x = Return (b, n)" "n \<noteq> 0" by blast
      with t have n: "length b = want - offset" "n \<le> want - offset" by simp_all
      let ?acc = "slice_assign offset (offset + n) (take n b) acc"
      have l: "length ?acc = want" using n True less.prems(2) by (simp add: slice_assign_def)
      have "read_loop ops eof want (offset + n) ?acc s1 = (s', r)"
        using less.prems(4) True o x by (simp add: read_loop.simps [of ops eof want offset acc s])
      from less.hyps [OF _ t(1) l _ this] x n True show ?thesis by simp
    qed
  qed (use less.prems in \<open>auto simp: read_loop.simps\<close>)
qed

lemma read_frame_typed:
  assumes "good k s" "read_frame_from_conn ops s = (s', r)"
  shows "good k s' \<and> res_typed (\<lambda>_. True) r"
proof -
  obtain s1 x where o: "read_loop ops ''unexpected EOF reading frame length'' 4 0 (bytearray 4) s = (s1, x)"
    by (cases "read_loop ops ''unexpected EOF reading frame length'' 4 0 (bytearray 4) s")
  have t: "good k s1" "res_typed (\<lambda>b. length b = 4) x" using read_loop_typed [OF assms(1) _ _ o] by simp_all
  show ?thesis
  proof (cases x)
    case (Return b)
    let ?len = "be_val b" and ?eof = "''unexpected EOF reading frame body''"
    obtain s2 y where p: "read_loop ops ?eof ?len 0 (bytearray ?len) s1 = (s2, y)"
      by (cases "read_loop ops ?eof ?len 0 (bytearray ?len) s1")
    have "good k s2 \<and> res_typed (\<lambda>b. length b = ?len) y" using read_loop_typed [OF t(1) _ _ p] by simp
    then show ?thesis
      using assms(2) o t Return p
      by (cases y) (auto simp: read_frame_from_conn_def struct_unpack_def split: if_splits)
  qed (use assms(2) o t in \<open>auto simp: read_frame_from_conn_def\<close>)
qed

end

section \<open>Encrypted connections\<close>

definition sc_typed :: "(nat \<Rightarrow> 's \<Rightarrow> bool) \<Rightarrow> nat \<Rightarrow> 's secure_conn \<Rightarrow> bool" where
  "sc_typed good k c \<longleftrightarrow> sc_keys_ok c \<and> send_counter c + k \<le> 2 ^ 64 \<and> (\<exists>s. inner_conn c = Some s \<and> good k s)"

lemma fill_buf_typed: "fill_buf buf data = (r, rest) \<Longrightarrow> length (fst r) = length buf \<and> snd r \<le> length buf"
  by (auto simp: fill_buf_eq Let_def)

lemma handle_data_typed:
  assumes "aead_ok A" "sc_keys_ok c" "handle_data A body buf c = (c', r)"
  shows "sc_keys_ok c' \<and> send_counter c' = send_counter c \<and> inner_conn c' = inner_conn c \<and> read_typed buf r"
proof -
  have k: "cipher_new A (recv_key c) (nonce_of (recv_pfx c) ts ctr)" for ts ctr
    using assms(1,2) by (auto simp: aead_ok_def sc_keys_ok_def nonce_of_def)
  show ?thesis
  proof (cases "length body < 13")
    case True
    with assms show ?thesis by (auto simp: handle_data_def)
  next
    case False
    let ?ts = "be_val (slice 1 5 body)" and ?n = "be_val (slice 5 13 body)"
    have l: "length (slice 1 5 body) = 4" "length (slice 5 13 body) = 8" using False by (simp_all add: slice_def)
    have b: "?ts < 2 ^ 32" "?n < 2 ^ 64" using be_val_bound [of "slice 1 5 body"] be_val_bound [of "slice 5 13 body"] l by simp_all
    have "make_nonce (recv_pfx c) ?ts ?n = Return (nonce_of (recv_pfx c) ?ts ?n)"
      using make_nonce_eq [OF _ b] assms(2) by (simp add: sc_keys_ok_def)
    then show ?thesis
      using False assms(2,3) l k
      by (auto simp: handle_data_def struct_unpack_def sc_keys_ok_def Let_def dest: fill_buf_typed
          split: if_splits option.splits prod.splits)
  qed
qed

context conn_typed
begin

lemma sc_read_typed:
  assumes A: "aead_ok A" and w: "sc_typed good k c" and o: "sc_read A ops buf c = (c', r)"
  shows "sc_typed good k c' \<and> read_typed buf r"
proof -
  obtain s where s: "inner_conn c = Some s" "good k s" "sc_keys_ok c" using w by (auto simp: sc_typed_def)
  show ?thesis
  proof (cases "sc_closed c \<or> buf = [] \<or> recv_buf c \<noteq> []")
    case True
    with o w s show ?thesis
      by (auto simp: sc_read_def sc_read_locked_def sc_typed_def sc_keys_ok_def dest: fill_buf_typed split: if_splits prod.splits)
  next
    case False
    obtain s1 x where f: "read_frame_from_conn ops s = (s1, x)" by (cases "read_frame_from_conn ops s")
    have t: "good k s1" "res_typed (\<lambda>_. True) x" using read_frame_typed [OF s(2) f] by simp_all
    let ?c = "c\<lparr>inner_conn := Some s1\<rparr>"
    have c1: "sc_typed good k ?c" "sc_keys_ok ?c" using w t by (auto simp: sc_typed_def sc_keys_ok_def)
    show ?thesis
    proof (cases "\<exists>rest. x = Return (MSG_DATA # rest)")
      case True
      then obtain rest where "x = Return (MSG_DATA # rest)" by blast
      then have "handle_data A (MSG_DATA # rest) buf ?c = (c', r)"
        using o False s(1) f by (simp add: sc_read_def sc_read_locked_def)
      from handle_data_typed [OF A c1(2) this] c1(1) show ?thesis by (auto simp: sc_typed_def sc_keys_ok_def)
    next
      case other: False
      then show ?thesis
        using o False s(1) f t c1(1)
        by (cases x) (auto simp: sc_read_def sc_read_locked_def Let_def split: list.splits if_splits)
    qed
  qed
qed

lemma sc_write_typed:
  assumes A: "aead_ok A" and w: "sc_typed good (Suc k) c" and d: "length data + 33 \<le> cap" "length data + 29 < 256 ^ 4"
    and o: "sc_write A now ops data c = (c', r)"
  shows "sc_typed good k c' \<and> res_typed (\<lambda>n. n = length data) r"
proof -
  obtain s where s: "inner_conn c = Some s" "good (Suc k) s" "sc_keys_ok c" "send_counter c < 2 ^ 64"
    using w by (auto simp: sc_typed_def)
  have weak: "sc_typed good k c" using w good_weaken by (auto simp: sc_typed_def)
  show ?thesis
  proof (cases "sc_closed c \<or> data = []")
    case True
    with o s(1) weak show ?thesis by (auto simp: sc_write_def sc_write_locked_def split: if_splits)
  next
    case False
    let ?body = "data_body A (send_key c) (send_pfx c) (send_counter c) (write_ts now c, data)"
    have l: "length ?body = length data + 29" using A s(3) by (simp add: length_data_body sc_keys_ok_def)
    obtain s1 x where p: "op_write ops (be_bytes 4 (length ?body) @ ?body) s = (s1, x)"
      by (cases "op_write ops (be_bytes 4 (length ?body) @ ?body) s")
    have t: "good k s1" "res_typed (\<lambda>n. n = length data + 33) x"
      using typed_write [OF s(2) _ p] d(1) l by (simp_all add: add.commute)
    have f: "write_frame_to_conn ops ?body s = (s1, map_res (\<lambda>_. ()) x)"
      using p l d(2) by (cases x) (simp_all add: write_frame_to_conn_def struct_pack_def)
    from sc_write_sends [OF A s(3) _ s(1) _ s(4), of data now ops] False o f
    have "c' = c\<lparr>send_counter := send_counter c + 1, inner_conn := Some s1\<rparr>" "r = map_res (\<lambda>_. length data) x"
      by (cases x; simp)+
    with t w show ?thesis by (cases x) (auto simp: sc_typed_def sc_keys_ok_def)
  qed
qed

lemma secure_typed:
  assumes A: "aead_ok A" and d: "m + 33 \<le> cap" "m + 29 < 256 ^ 4"
  shows "conn_typed (secure_ops A now ops) (sc_typed good) m"
proof
  fix c c' :: "'s secure_conn" and k y
  assume "sc_typed good k c" "op_close (secure_ops A now ops) c = (c', y)"
  then show "sc_typed good k c' \<and> res_typed (\<lambda>_. True) y"
    by (auto simp: sc_close_def sc_typed_def sc_keys_ok_def dest: typed_close split: if_splits prod.splits)
next
  fix c c' :: "'s secure_conn" and k data x
  assume "sc_typed good (Suc k) c" "length data \<le> m" "op_write (secure_ops A now ops) data c = (c', x)"
  with d show "sc_typed good k c' \<and> res_typed (\<lambda>n. n = length data) x"
    by - (rule sc_write_typed [OF A], simp_all)
next
  fix c c' :: "'s secure_conn" and k buf r
  assume "sc_typed good k c" "op_read (secure_ops A now ops) buf c = (c', r)"
  then show "sc_typed good k c' \<and> read_typed buf r" by (simp add: sc_read_typed [OF A])
qed (auto simp: sc_typed_def intro: good_weaken)

end

section \<open>TCP\<close>

definition tcp_typed :: "nat \<Rightarrow> tcp_conn \<Rightarrow> bool" where
  "tcp_typed k c \<longleftrightarrow> (\<forall>e. rtail (tcp_reader c) = Failed e \<longrightarrow> \<not> misuse e) \<and> (\<forall>e. wlost (tcp_writer c) = Some e \<longrightarrow> \<not> misuse e)"

interpretation tcp_typing: conn_typed tcp_ops tcp_typed cap
proof
  fix c c' :: tcp_conn and k buf r
  assume "tcp_typed k c" "op_read tcp_ops buf c = (c', r)"
  then show "tcp_typed k c' \<and> read_typed buf r"
    by (auto simp: tcp_typed_def tcp_read_def stream_read_into_def sr_read_def slice_assign_def Let_def
        split: if_splits prod.splits list.splits stream_tail.splits)
qed (auto simp: tcp_typed_def tcp_write_def tcp_close_def sw_write_def sw_drain_def sw_close_def Let_def
    split: if_splits option.splits)

section \<open>Properties\<close>

text \<open>C10. Encrypted connections do not go wrong. Take the connection of two peers, an encrypted connection inside
  the encrypted connection of a relay over TCP, with keys of the right sizes; let any client make any calls, with writes below 4
  GiB and fewer of them than counters can number, and let the relay, the peer and the network send anything. Then every read returns
  the caller's buffer at its length and a count within it, every write returns the length of its data, and no
  call ends in \<^verbatim>\<open>struct.error\<close>, \<^verbatim>\<open>AssertionError\<close>, \<^verbatim>\<open>IndexError\<close>, \<^verbatim>\<open>TypeError\<close>, \<^verbatim>\<open>AttributeError\<close> or a refusal of the
  cipher's constructor; the keys keep their sizes.\<close>

theorem secure_calls_typed:
  assumes "aead_ok A" "sc_typed (sc_typed tcp_typed) (length cs) c"
    and "list_all (call_fits (2 ^ 32 - 63)) cs"
    and "run_calls (secure_ops A now (secure_ops A now' tcp_ops)) cs c = (c', rs)"
  shows "sc_typed (sc_typed tcp_typed) 0 c' \<and> list_all2 call_typed cs rs"
proof -
  have "conn_typed (secure_ops A now' tcp_ops) (sc_typed tcp_typed) (2 ^ 32 - 30)"
    by (rule tcp_typing.secure_typed [OF assms(1), of _ "2 ^ 33"]) simp_all
  from conn_typed.secure_typed [OF this assms(1), of "2 ^ 32 - 63" now]
  have "conn_typed (secure_ops A now (secure_ops A now' tcp_ops)) (sc_typed (sc_typed tcp_typed)) (2 ^ 32 - 63)" by simp
  from conn_typed.run_calls_typed [OF this _ assms(3,4), of 0] assms(2) show ?thesis by simp
qed

theorem secure_calls_typed_witness:
  "\<exists>c' rs. run_calls (secure_ops toy_aead (\<lambda>_. 0) (secure_ops toy_aead (\<lambda>_. 0) tcp_ops)) [CallRead [0, 0], CallWrite [1], CallClose]
       (sc_bind (toy_conn []) (SecureConn_init (derive_keys toy_env []) False)) = (c', rs) \<and>
     list_all2 call_typed [CallRead [0, 0], CallWrite [1], CallClose] rs"
proof -
  let ?cs = "[CallRead [0, 0], CallWrite [1], CallClose]"
  let ?c = "sc_bind (toy_conn []) (SecureConn_init (derive_keys toy_env []) False)"
  let ?ops = "secure_ops toy_aead (\<lambda>_. 0) (secure_ops toy_aead (\<lambda>_. 0) tcp_ops)"
  obtain c' rs where r: "run_calls ?ops ?cs ?c = (c', rs)" by (cases "run_calls ?ops ?cs ?c")
  have b: "blake3_ok (blake3 toy_env)" using toy_env_ok by (simp add: env_ok_def)
  have w: "sc_typed (sc_typed tcp_typed) (length ?cs) ?c" "list_all (call_fits (2 ^ 32 - 63)) ?cs"
    using derive_keys_lengths [OF b, of "[]"]
    by (simp_all add: sc_typed_def sc_keys_ok_def toy_conn_def sc_bind_def SecureConn_init_def tcp_typed_def toy_tcp_def
        TcpConn_init_def call_fits_def)
  from secure_calls_typed [OF toy_aead_ok w r] r show ?thesis by blast
qed

end
