(* ===== verification/Json.thy ===== *)
theory Json
  imports PyText
begin

text \<open>
  The part of the standard library's \<^verbatim>\<open>json\<close> module that the control messages and the negotiation
  use: \<open>json.dumps\<close> with its default options (ASCII only, \<open>", "\<close> and \<open>": "\<close> as separators) and
  \<open>json.loads\<close>.

  A dictionary is the list of its items in insertion order. A float is kept as its source text, since
  no code of the library computes with it. \<open>loads\<close> recurses with a fuel of twice the length of the
  text, which \<open>jscan_fuel\<close> shows to be enough: more never changes the result. The interpreter's limit on
  nesting depth is not modelled.
\<close>

datatype json =
    JNull | JBool bool | JInt int | JFloat pystr | JStr pystr
  | JArr "json list" | JObj "(pystr \<times> json) list"

section \<open>Printing\<close>

definition hex4 :: "nat \<Rightarrow> pystr" where
  "hex4 n = [92, 117, hex_digit (n div 4096 mod 16), hex_digit (n div 256 mod 16),
             hex_digit (n div 16 mod 16), hex_digit (n mod 16)]"

definition dump_char :: "nat \<Rightarrow> pystr" where
  "dump_char c =
     (if c = 34 then [92, 34] else if c = 92 then [92, 92]
      else if c = 10 then [92, 110] else if c = 13 then [92, 114] else if c = 9 then [92, 116]
      else if c = 12 then [92, 102] else if c = 8 then [92, 98]
      else if 32 \<le> c \<and> c \<le> 126 then [c]
      else if c < 0x10000 then hex4 c
      else hex4 (0xD800 + (c - 0x10000) div 1024 mod 1024) @ hex4 (0xDC00 + (c - 0x10000) mod 1024))"

definition dump_str :: "pystr \<Rightarrow> pystr" where
  "dump_str s = 34 # concat (map dump_char s) @ [34]"

definition dump_int :: "int \<Rightarrow> pystr" where
  "dump_int i = (if i < 0 then 45 # dec_digits (nat (- i)) else dec_digits (nat i))"

fun commas :: "pystr list \<Rightarrow> pystr" where
  "commas [] = []"
| "commas [x] = x"
| "commas (x # y # xs) = x @ [44, 32] @ commas (y # xs)"

fun json_dump :: "json \<Rightarrow> pystr" where
  "json_dump JNull = u ''null''"
| "json_dump (JBool b) = (if b then u ''true'' else u ''false'')"
| "json_dump (JInt i) = dump_int i"
| "json_dump (JFloat t) = t"
| "json_dump (JStr s) = dump_str s"
| "json_dump (JArr vs) = 91 # commas (map json_dump vs) @ [93]"
| "json_dump (JObj kvs) = 123 # commas (map (\<lambda>(k, v). dump_str k @ [58, 32] @ json_dump v) kvs) @ [125]"

section \<open>Parsing\<close>

definition skip_ws :: "pystr \<Rightarrow> pystr" where
  "skip_ws s = dropWhile (\<lambda>c. c = 32 \<or> c = 9 \<or> c = 10 \<or> c = 13) s"

fun hex4_val :: "pystr \<Rightarrow> (nat \<times> pystr) option" where
  "hex4_val (a # b # c # d # r) =
     (case (hex_val a, hex_val b, hex_val c, hex_val d) of
        (Some w, Some x, Some y, Some z) \<Rightarrow> Some (w * 4096 + x * 256 + y * 16 + z, r)
      | _ \<Rightarrow> None)"
| "hex4_val _ = None"

text \<open>The code point of a \<open>\u\<close> escape: a high surrogate joins with a low one that follows.\<close>

definition unicode_escape :: "pystr \<Rightarrow> (nat \<times> pystr) option" where
  "unicode_escape s =
     (case hex4_val s of
        None \<Rightarrow> None
      | Some (h, r) \<Rightarrow>
          if 0xD800 \<le> h \<and> h \<le> 0xDBFF \<and> take 2 r = [92, 117] then
            (case hex4_val (drop 2 r) of
               None \<Rightarrow> None
             | Some (l, r') \<Rightarrow>
                 if 0xDC00 \<le> l \<and> l \<le> 0xDFFF
                 then Some (0x10000 + (h - 0xD800) * 1024 + (l - 0xDC00), r') else Some (h, r))
          else Some (h, r))"

definition simple_escape :: "nat \<Rightarrow> nat option" where
  "simple_escape c =
     (if c = 34 \<or> c = 92 \<or> c = 47 then Some c
      else if c = 98 then Some 8 else if c = 102 then Some 12 else if c = 110 then Some 10
      else if c = 114 then Some 13 else if c = 116 then Some 9 else None)"

lemma hex4_val_length: "hex4_val s = Some (n, r) \<Longrightarrow> length s = length r + 4"
  by (cases s rule: hex4_val.cases) (auto split: option.splits)

lemma unicode_escape_length: "unicode_escape s = Some (n, r) \<Longrightarrow> length r < length s"
  by (auto simp: unicode_escape_def split: option.splits if_splits dest!: hex4_val_length)

text \<open>The rest of a string literal after its opening quote, in strict mode.\<close>

function jstr :: "pystr \<Rightarrow> pystr \<Rightarrow> (pystr \<times> pystr) option" where
  "jstr acc [] = None"
| "jstr acc (c # cs) =
     (if c = 34 then Some (rev acc, cs)
      else if c = 92 then
        (case cs of
           [] \<Rightarrow> None
         | e # r \<Rightarrow>
             if e = 117 then (case unicode_escape r of None \<Rightarrow> None | Some (n, r') \<Rightarrow> jstr (n # acc) r')
             else (case simple_escape e of None \<Rightarrow> None | Some n \<Rightarrow> jstr (n # acc) r))
      else if c < 32 then None
      else jstr (c # acc) cs)"
  by pat_completeness auto
termination
  by (relation "measure (\<lambda>(acc, s). length s)") (auto dest: unicode_escape_length)

declare jstr.simps(2) [simp del]

definition strip_lit :: "string \<Rightarrow> pystr \<Rightarrow> pystr option" where
  "strip_lit l s = (if take (length l) s = u l then Some (drop (length l) s) else None)"

text \<open>The number scanner: integer part, optional fraction, optional exponent.\<close>

definition num_int :: "pystr \<Rightarrow> (pystr \<times> pystr) option" where
  "num_int s =
     (case s of
        [] \<Rightarrow> None
      | c # cs \<Rightarrow> if c = 48 then Some ([48], cs)
                  else if is_digit c then Some (takeWhile is_digit s, dropWhile is_digit s) else None)"

definition num_frac :: "pystr \<Rightarrow> pystr \<times> pystr" where
  "num_frac s =
     (case s of
        d # cs \<Rightarrow> if d = 46 \<and> takeWhile is_digit cs \<noteq> []
                  then (46 # takeWhile is_digit cs, dropWhile is_digit cs) else ([], s)
      | [] \<Rightarrow> ([], s))"

definition num_exp :: "pystr \<Rightarrow> pystr \<times> pystr" where
  "num_exp s =
     (case s of
        e # cs \<Rightarrow>
          if e = 101 \<or> e = 69 then
            (let (sg, r) = (case cs of g # gs \<Rightarrow> if g = 43 \<or> g = 45 then ([g], gs) else ([], cs)
                            | [] \<Rightarrow> ([], cs))
             in if takeWhile is_digit r \<noteq> []
                then (e # sg @ takeWhile is_digit r, dropWhile is_digit r) else ([], s))
          else ([], s)
      | [] \<Rightarrow> ([], s))"

definition jnum :: "pystr \<Rightarrow> (json \<times> pystr) option" where
  "jnum s =
     (let (sg, t) = (case s of c # cs \<Rightarrow> if c = 45 then ([45], cs) else ([], s) | [] \<Rightarrow> ([], s)) in
      case num_int t of
        None \<Rightarrow> None
      | Some (ds, r) \<Rightarrow>
          (let (fr, r1) = num_frac r; (ex, r2) = num_exp r1 in
           if fr = [] \<and> ex = [] then
             (if 4300 < length ds then None
              else map_option (\<lambda>i. (JInt (if sg = [] then i else - i), r2)) (digits_val 0 ds))
           else Some (JFloat (sg @ ds @ fr @ ex), r2)))"

fun first_some :: "'a option list \<Rightarrow> 'a option" where
  "first_some [] = None"
| "first_some (x # xs) = (case x of None \<Rightarrow> first_some xs | Some y \<Rightarrow> Some y)"

definition jatom :: "pystr \<Rightarrow> (json \<times> pystr) option" where
  "jatom s = first_some
     [map_option (Pair JNull) (strip_lit ''null'' s),
      map_option (Pair (JBool True)) (strip_lit ''true'' s),
      map_option (Pair (JBool False)) (strip_lit ''false'' s),
      map_option (Pair (JFloat (u ''NaN''))) (strip_lit ''NaN'' s),
      map_option (Pair (JFloat (u ''Infinity''))) (strip_lit ''Infinity'' s),
      map_option (Pair (JFloat (u ''-Infinity''))) (strip_lit ''-Infinity'' s),
      jnum s]"

text \<open>\<open>dict(pairs)\<close>: a later pair replaces the value of an earlier one in its place.\<close>

fun dict_set :: "'k \<Rightarrow> 'v \<Rightarrow> ('k \<times> 'v) list \<Rightarrow> ('k \<times> 'v) list" where
  "dict_set k v [] = [(k, v)]"
| "dict_set k v ((k', v') # d) = (if k' = k then (k', v) # d else (k', v') # dict_set k v d)"

definition dict_of :: "('k \<times> 'v) list \<Rightarrow> ('k \<times> 'v) list" where
  "dict_of kvs = foldl (\<lambda>d (k, v). dict_set k v d) [] kvs"

fun jscan :: "nat \<Rightarrow> pystr \<Rightarrow> (json \<times> pystr) option"
and jarr :: "nat \<Rightarrow> pystr \<Rightarrow> (json list \<times> pystr) option"
and jobj :: "nat \<Rightarrow> pystr \<Rightarrow> ((pystr \<times> json) list \<times> pystr) option" where
  "jscan 0 s = None"
| "jscan (Suc n) s =
     (case s of
        [] \<Rightarrow> None
      | c # cs \<Rightarrow>
          if c = 34 then map_option (\<lambda>(t, r). (JStr t, r)) (jstr [] cs)
          else if c = 123 then
            (case skip_ws cs of
               [] \<Rightarrow> None
             | d # r \<Rightarrow> if d = 125 then Some (JObj [], r)
                        else map_option (\<lambda>(kvs, r). (JObj (dict_of kvs), r)) (jobj n (d # r)))
          else if c = 91 then
            (case skip_ws cs of
               [] \<Rightarrow> None
             | d # r \<Rightarrow> if d = 93 then Some (JArr [], r)
                        else map_option (\<lambda>(vs, r). (JArr vs, r)) (jarr n (d # r)))
          else jatom s)"
| "jarr 0 s = None"
| "jarr (Suc n) s =
     (case jscan n s of
        None \<Rightarrow> None
      | Some (v, r) \<Rightarrow>
          (case skip_ws r of
             [] \<Rightarrow> None
           | d # r' \<Rightarrow>
               if d = 44 then map_option (\<lambda>(vs, r). (v # vs, r)) (jarr n (skip_ws r'))
               else if d = 93 then Some ([v], r') else None))"
| "jobj 0 s = None"
| "jobj (Suc n) s =
     (case s of
        [] \<Rightarrow> None
      | c # cs \<Rightarrow>
          if c \<noteq> 34 then None
          else case jstr [] cs of
            None \<Rightarrow> None
          | Some (k, r) \<Rightarrow>
              (case skip_ws r of
                 [] \<Rightarrow> None
               | e # r1 \<Rightarrow>
                   if e \<noteq> 58 then None
                   else case jscan n (skip_ws r1) of
                     None \<Rightarrow> None
                   | Some (v, r2) \<Rightarrow>
                       (case skip_ws r2 of
                          [] \<Rightarrow> None
                        | d # r3 \<Rightarrow>
                            if d = 44 then map_option (\<lambda>(kvs, r). ((k, v) # kvs, r)) (jobj n (skip_ws r3))
                            else if d = 125 then Some ([(k, v)], r3) else None)))"

definition json_error :: exn where
  "json_error = Exn ValueError [Txt ''json.JSONDecodeError'']"

definition json_loads :: "pystr \<Rightarrow> json res" where
  "json_loads s =
     (if take 1 s = [0xFEFF] then Raise json_error
      else case jscan (2 * length s + 2) (skip_ws s) of
        Some (v, r) \<Rightarrow> if skip_ws r = [] then Return v else Raise json_error
      | None \<Rightarrow> Raise json_error)"

section \<open>The values the library sends\<close>

text \<open>Text, truth values, lists and dictionaries over Unicode scalar values, with distinct keys.\<close>

fun json_plain :: "json \<Rightarrow> bool" where
  "json_plain JNull = True"
| "json_plain (JBool b) = True"
| "json_plain (JInt i) = False"
| "json_plain (JFloat t) = False"
| "json_plain (JStr s) = list_all scalar s"
| "json_plain (JArr vs) = (\<forall>v \<in> set vs. json_plain v)"
| "json_plain (JObj kvs) =
     (distinct (map fst kvs) \<and> (\<forall>kv \<in> set kvs. list_all scalar (fst kv) \<and> json_plain (snd kv)))"

definition printable :: "pystr \<Rightarrow> bool" where
  "printable s \<longleftrightarrow> (\<forall>c \<in> set s. 32 \<le> c \<and> c < 127)"

lemma printable_simps [simp]:
  "printable []" "printable (c # s) \<longleftrightarrow> 32 \<le> c \<and> c < 127 \<and> printable s"
  "printable (s @ t) \<longleftrightarrow> printable s \<and> printable t"
  by (auto simp: printable_def)

lemma printable_hex4: "printable (hex4 n)"
  by (simp add: hex4_def hex_digit_props)

lemma printable_dump_str: "printable (dump_str s)"
proof -
  have "printable (dump_char c)" for c
    by (auto simp: dump_char_def printable_hex4)
  then have "printable (concat (map dump_char s))" by (induction s) auto
  then show ?thesis by (simp add: dump_str_def)
qed

lemma printable_commas: "(\<And>x. x \<in> set xs \<Longrightarrow> printable x) \<Longrightarrow> printable (commas xs)"
  by (induction xs rule: commas.induct) auto

lemma printable_dump: "json_plain v \<Longrightarrow> printable (json_dump v)"
proof (induction v rule: json_dump.induct)
  case (6 vs)
  then show ?case by (auto intro!: printable_commas)
next
  case (7 kvs)
  then have "printable (commas (map (\<lambda>(k, v). dump_str k @ [58, 32] @ json_dump v) kvs))"
    by (intro printable_commas) (fastforce simp: printable_dump_str)
  then show ?case by simp
qed (simp_all add: u_def printable_dump_str)

section \<open>Round trip\<close>

lemma base16_4:
  assumes "n < 65536"
  shows "n div 4096 mod 16 * 4096 + n div 256 mod 16 * 256 + n div 16 mod 16 * 16 + n mod 16 = (n :: nat)"
proof -
  have d: "n div 256 = n div 16 div 16" "n div 4096 = n div 16 div 16 div 16"
    by (simp_all add: div_mult2_eq [of n 16 16, simplified] div_mult2_eq [of "n div 16" 16 16, simplified]
        div_mult2_eq [of n 16 256, simplified])
  have "n div 16 div 16 div 16 < 16" using assms by (simp add: less_mult_imp_div_less)
  then have "n div 16 div 16 div 16 mod 16 = n div 16 div 16 div 16" by simp
  then show ?thesis
    unfolding d
    using div_mult_mod_eq [of n 16] div_mult_mod_eq [of "n div 16" 16]
      div_mult_mod_eq [of "n div 16 div 16" 16] by linarith
qed

lemma hex4_val_digits:
  assumes "n < 65536"
  shows "hex4_val (drop 2 (hex4 n) @ r) = Some (n, r)"
proof -
  define a b c d where abcd: "a = n div 4096 mod 16" "b = n div 256 mod 16" "c = n div 16 mod 16"
    "d = n mod 16"
  have "a < 16" "b < 16" "c < 16" "d < 16" by (simp_all add: abcd)
  then have "hex4_val (hex_digit a # hex_digit b # hex_digit c # hex_digit d # r) =
      Some (a * 4096 + b * 256 + c * 16 + d, r)"
    by (simp add: hex_digit_props)
  moreover have "a * 4096 + b * 256 + c * 16 + d = n"
    unfolding abcd by (rule base16_4 [OF assms])
  moreover have "drop 2 (hex4 n) = [hex_digit a, hex_digit b, hex_digit c, hex_digit d]"
    by (simp add: hex4_def abcd)
  ultimately show ?thesis by simp
qed

lemma hex4_escape: "hex4 n @ r = 92 # 117 # (drop 2 (hex4 n) @ r)"
  by (simp add: hex4_def)

lemma jstr_escape:
  "unicode_escape (drop 2 (hex4 n) @ r) = Some (c, r') \<Longrightarrow> jstr acc (hex4 n @ r) = jstr (c # acc) r'"
  unfolding hex4_escape by (simp add: jstr.simps(2))

lemma jstr_hex4:
  assumes "n < 65536" "\<not> (0xD800 \<le> n \<and> n \<le> 0xDBFF)"
  shows "jstr acc (hex4 n @ r) = jstr (n # acc) r"
proof (rule jstr_escape)
  show "unicode_escape (drop 2 (hex4 n) @ r) = Some (n, r)"
    unfolding unicode_escape_def hex4_val_digits [OF assms(1)] using assms(2) by auto
qed

lemma jstr_pair:
  assumes "0x10000 \<le> c" "c < 0x110000"
  shows "jstr acc (hex4 (0xD800 + (c - 0x10000) div 1024 mod 1024) @
      hex4 (0xDC00 + (c - 0x10000) mod 1024) @ r) = jstr (c # acc) r"
    (is "jstr acc (hex4 ?h @ hex4 ?l @ r) = _")
proof (rule jstr_escape)
  let ?x = "c - 0x10000"
  have m: "?x div 1024 mod 1024 < 1024" "?x mod 1024 < 1024" by simp_all
  then have h: "?h < 65536" "0xD800 \<le> ?h" "?h \<le> 0xDBFF"
    and l: "?l < 65536" "0xDC00 \<le> ?l" "?l \<le> 0xDFFF"
    by linarith+
  have "?x div 1024 < 1024" using assms by (simp add: less_mult_imp_div_less)
  then have "?x div 1024 mod 1024 * 1024 + ?x mod 1024 = ?x" by simp
  then have c: "0x10000 + (?h - 0xD800) * 1024 + (?l - 0xDC00) = c"
    using assms by simp
  have e: "take 2 (hex4 ?l @ r) = [92, 117]" "drop 2 (hex4 ?l @ r) = drop 2 (hex4 ?l) @ r"
    by (simp_all add: hex4_def)
  show "unicode_escape (drop 2 (hex4 ?h) @ (hex4 ?l @ r)) = Some (c, r)"
    unfolding unicode_escape_def hex4_val_digits [OF h(1)] option.case prod.case e
      hex4_val_digits [OF l(1)] using h l c by simp
qed

lemma jstr_dump_char: "scalar c \<Longrightarrow> jstr acc (dump_char c @ r) = jstr (c # acc) r"
proof -
  assume c: "scalar c"
  consider "c \<in> {34, 92, 10, 13, 9, 12, 8}" | "32 \<le> c" "c \<le> 126" "c \<noteq> 34" "c \<noteq> 92"
    | "c < 32 \<or> 126 < c" "c \<notin> {10, 13, 9, 12, 8}" "c < 0x10000" | "0x10000 \<le> c"
    by (cases "c < 0x10000"; cases "32 \<le> c \<and> c \<le> 126"; cases "c \<in> {10, 13, 9, 12, 8}"; auto)
  then show ?thesis
  proof cases
    case 1
    then show ?thesis by (auto simp: dump_char_def jstr.simps(2) simple_escape_def)
  next
    case 2
    then show ?thesis by (auto simp: dump_char_def jstr.simps(2))
  next
    case 3
    then have "dump_char c = hex4 c" by (auto simp: dump_char_def)
    moreover have "\<not> (0xD800 \<le> c \<and> c \<le> 0xDBFF)" using c by (auto simp: scalar_def)
    ultimately show ?thesis using 3 jstr_hex4 [of c acc r] by simp
  next
    case 4
    then show ?thesis using c jstr_pair [of c acc r] by (simp add: dump_char_def scalar_def)
  qed
qed

lemma jstr_dump:
  "list_all scalar s \<Longrightarrow> jstr acc (concat (map dump_char s) @ 34 # r) = Some (rev acc @ s, r)"
  by (induction s arbitrary: acc) (simp_all add: jstr_dump_char, simp add: jstr.simps(2))

lemma dict_of_distinct: "distinct (map fst kvs) \<Longrightarrow> dict_of kvs = kvs"
proof -
  have set_new: "k \<notin> set (map fst d) \<Longrightarrow> dict_set k v d = d @ [(k, v)]" for k v and d :: "('a \<times> 'b) list"
    by (induction k v d rule: dict_set.induct) auto
  have "foldl (\<lambda>d (k, v). dict_set k v d) d kvs = d @ kvs"
    if "distinct (map fst (d @ kvs))" for d
    using that
  proof (induction kvs arbitrary: d)
    case (Cons kv kvs)
    then show ?case
      using Cons.IH [of "d @ [kv]"] by (cases kv) (auto simp: set_new)
  qed simp
  from this [of "[]"] show "distinct (map fst kvs) \<Longrightarrow> dict_of kvs = kvs"
    by (simp add: dict_of_def)
qed

lemma skip_ws_simps [simp]:
  "skip_ws [] = []" "skip_ws (32 # s) = skip_ws s"
  "c \<notin> {32, 9, 10, 13} \<Longrightarrow> skip_ws (c # s) = c # s"
  by (auto simp: skip_ws_def)

text \<open>Every printed value starts with a character that is no white space, and is not empty.\<close>

definition value_start :: "pystr \<Rightarrow> bool" where
  "value_start s \<longleftrightarrow> (\<exists>c r. s = c # r \<and> c \<in> {34, 91, 123, 110, 116, 102})"

lemma value_start_dump: "json_plain v \<Longrightarrow> value_start (json_dump v)"
  by (cases v) (auto simp: value_start_def u_def dump_str_def)

lemma value_start_skip: "value_start s \<Longrightarrow> skip_ws (s @ r) = s @ r"
  by (auto simp: value_start_def)

definition parses :: "json \<Rightarrow> bool" where
  "parses v \<longleftrightarrow> (\<forall>n r. 2 * length (json_dump v) \<le> n \<longrightarrow> jscan n (json_dump v @ r) = Some (v, r))"

lemma jarr_dump:
  assumes "vs \<noteq> []" "\<And>v. v \<in> set vs \<Longrightarrow> parses v \<and> value_start (json_dump v)"
    and "2 * length (commas (map json_dump vs)) < n"
  shows "jarr n (commas (map json_dump vs) @ 93 # r) = Some (vs, r)"
  using assms
proof (induction vs arbitrary: n)
  case (Cons v vs)
  from Cons.prems(3) obtain m where n: "n = Suc m" by (cases n) auto
  show ?case
  proof (cases vs)
    case Nil
    have "jscan m (json_dump v @ 93 # r) = Some (v, 93 # r)"
      using Cons.prems(2) [of v] Cons.prems(3) Nil by (simp add: parses_def n)
    then show ?thesis by (simp add: n Nil)
  next
    case (Cons w ws)
    let ?rest = "commas (map json_dump vs) @ 93 # r"
    have e: "commas (map json_dump (v # vs)) @ 93 # r = json_dump v @ 44 # 32 # ?rest"
      by (simp add: Cons)
    have l: "2 * (length (json_dump v) + 2 + length (commas (map json_dump vs))) < Suc m"
      using Cons.prems(3) by (simp add: n Cons)
    have "jscan m (json_dump v @ 44 # 32 # ?rest) = Some (v, 44 # 32 # ?rest)"
      using Cons.prems(2) [of v] l by (simp add: parses_def)
    moreover have "skip_ws (32 # ?rest) = ?rest"
    proof -
      have "value_start (json_dump w)" using Cons.prems(2) [of w] Cons by simp
      then have "value_start (commas (map json_dump vs))"
        by (cases ws) (auto simp: Cons value_start_def)
      then show ?thesis by (simp add: value_start_skip)
    qed
    moreover have "jarr m ?rest = Some (vs, r)"
      using Cons.prems(2) l by (intro Cons.IH) (auto simp: Cons)
    ultimately show ?thesis unfolding e by (simp add: n)
  qed
qed simp

lemma dump_item_start: "value_start (dump_str k @ r)"
  by (simp add: value_start_def dump_str_def)

lemma jobj_dump:
  assumes "kvs \<noteq> []"
    and "\<And>k v. (k, v) \<in> set kvs \<Longrightarrow> list_all scalar k \<and> parses v \<and> value_start (json_dump v)"
    and "2 * length (commas (map (\<lambda>(k, v). dump_str k @ [58, 32] @ json_dump v) kvs)) < n"
  shows "jobj n (commas (map (\<lambda>(k, v). dump_str k @ [58, 32] @ json_dump v) kvs) @ 125 # r) = Some (kvs, r)"
  using assms
proof (induction kvs arbitrary: n)
  case (Cons kv kvs)
  let ?f = "\<lambda>(k, v). dump_str k @ [58, 32] @ json_dump v"
  obtain k v where kv: "kv = (k, v)" by (cases kv)
  from Cons.prems(3) obtain m where n: "n = Suc m" by (cases n) auto
  have kv': "list_all scalar k" "parses v" "value_start (json_dump v)"
    using Cons.prems(2) [of k v] by (simp_all add: kv)
  have head: "jobj n (dump_str k @ 58 # 32 # json_dump v @ s) =
      (case skip_ws s of
         [] \<Rightarrow> None
       | d # r3 \<Rightarrow>
           if d = 44 then map_option (\<lambda>(kvs, r). ((k, v) # kvs, r)) (jobj m (skip_ws r3))
           else if d = 125 then Some ([(k, v)], r3) else None)"
    if "2 * length (json_dump v) \<le> m" for s
  proof -
    have "jscan m (json_dump v @ s) = Some (v, s)" using kv'(2) that by (simp add: parses_def)
    then show ?thesis
      using jstr_dump [OF kv'(1), of "[]" "58 # 32 # json_dump v @ s"] kv'(3)
      by (simp add: n dump_str_def value_start_skip)
  qed
  show ?case
  proof (cases kvs)
    case Nil
    then show ?thesis using head [of "125 # r"] Cons.prems(3) by (simp add: kv n)
  next
    case (Cons w ws)
    let ?rest = "commas (map ?f kvs) @ 125 # r"
    have e: "commas (map ?f (kv # kvs)) @ 125 # r = dump_str k @ 58 # 32 # json_dump v @ 44 # 32 # ?rest"
      by (simp add: kv Cons)
    have l: "2 * (length (json_dump v) + 2 + length (commas (map ?f kvs))) < Suc m"
      using Cons.prems(3) by (simp add: n kv Cons)
    have "skip_ws (32 # ?rest) = ?rest"
    proof -
      have "value_start (commas (map ?f kvs))"
        by (cases ws) (auto simp: Cons split_beta value_start_def dump_str_def)
      then show ?thesis by (simp add: value_start_skip)
    qed
    moreover have "jobj m ?rest = Some (kvs, r)"
      using Cons.prems(2) l by (intro Cons.IH) (auto simp: Cons)
    ultimately show ?thesis
      unfolding e using head [of "44 # 32 # ?rest"] l by (simp add: kv)
  qed
qed simp

lemma parses_atom: "parses JNull" "parses (JBool b)"
proof -
  have "jscan n (json_dump v @ r) = Some (v, r)"
    if "v = JNull \<or> v = JBool b" "2 * length (json_dump v) \<le> n" for v n r
    using that by (cases n) (auto simp: jatom_def strip_lit_def u_def split: if_splits)
  then show "parses JNull" "parses (JBool b)" unfolding parses_def by blast+
qed

lemma parses_dump: "json_plain v \<Longrightarrow> parses v"
proof (induction v)
  case (JStr s)
  show ?case unfolding parses_def
  proof (intro allI impI)
    fix n r assume "2 * length (json_dump (JStr s)) \<le> n"
    then obtain m where "n = Suc m" by (cases n) (auto simp: dump_str_def)
    then show "jscan n (json_dump (JStr s) @ r) = Some (JStr s, r)"
      using JStr jstr_dump [of s "[]" r] by (simp add: dump_str_def)
  qed
next
  case (JArr vs)
  show ?case unfolding parses_def
  proof (intro allI impI)
    fix n r assume a: "2 * length (json_dump (JArr vs)) \<le> n"
    then obtain m where n: "n = Suc m" by (cases n) auto
    show "jscan n (json_dump (JArr vs) @ r) = Some (JArr vs, r)"
    proof (cases vs)
      case (Cons w ws)
      have "value_start (json_dump w)" using JArr.prems Cons value_start_dump by simp
      then have "value_start (commas (map json_dump vs))"
        by (cases ws) (auto simp: Cons value_start_def)
      then obtain c t where ct: "commas (map json_dump vs) = c # t"
        "c \<in> {34, 91, 123, 110, 116, 102}" by (auto simp: value_start_def)
      moreover have "jarr m (commas (map json_dump vs) @ 93 # r) = Some (vs, r)"
        using JArr Cons a n by (intro jarr_dump) (auto simp: value_start_dump)
      ultimately show ?thesis by (auto simp: n)
    qed (simp add: n)
  qed
next
  case (JObj kvs)
  show ?case unfolding parses_def
  proof (intro allI impI)
    let ?f = "\<lambda>(k, v). dump_str k @ [58, 32] @ json_dump v"
    fix n r assume a: "2 * length (json_dump (JObj kvs)) \<le> n"
    then obtain m where n: "n = Suc m" by (cases n) auto
    show "jscan n (json_dump (JObj kvs) @ r) = Some (JObj kvs, r)"
    proof (cases kvs)
      case (Cons w ws)
      then obtain t where ct: "commas (map ?f kvs) = 34 # t"
        by (cases ws; cases w) (auto simp: dump_str_def)
      moreover have "jobj m (commas (map ?f kvs) @ 125 # r) = Some (kvs, r)"
      proof (rule jobj_dump)
        show "list_all scalar k \<and> parses v \<and> value_start (json_dump v)" if kv: "(k, v) \<in> set kvs" for k v
          using JObj kv value_start_dump by (fastforce simp: Basic_BNFs.snds.simps)
      qed (use Cons a n in auto)
      ultimately show ?thesis using JObj.prems by (simp add: n dict_of_distinct)
    qed (simp add: n dict_of_def)
  qed
qed (simp_all add: parses_atom)

text \<open>Reading back what was printed gives the same value.\<close>

lemma json_loads_dump:
  assumes "json_plain v"
  shows "json_loads (json_dump v) = Return v"
proof -
  have s: "value_start (json_dump v)" using assms by (rule value_start_dump)
  then have "take 1 (json_dump v) \<noteq> [0xFEFF]" "skip_ws (json_dump v) = json_dump v"
    using value_start_skip [of "json_dump v" "[]"] by (auto simp: value_start_def)
  moreover have "jscan (2 * length (json_dump v) + 2) (json_dump v) = Some (v, [])"
    using parses_dump [OF assms, unfolded parses_def, rule_format, of "2 * length (json_dump v) + 2" "[]"]
    by (simp del: jscan.simps)
  ultimately show ?thesis by (simp add: json_loads_def)
qed

section \<open>The fuel is enough\<close>

lemma length_skip_ws: "length (skip_ws s) \<le> length s"
  by (simp add: skip_ws_def length_dropWhile_le)

lemma jstr_length: "jstr acc s = Some (t, r) \<Longrightarrow> length r < length s"
proof (induction acc s rule: jstr.induct)
  case (2 acc c cs)
  then show ?case
    by (subst (asm) jstr.simps(2))
      (fastforce split: if_splits list.splits option.splits dest: unicode_escape_length)
qed simp

lemma num_int_length: "num_int s = Some (ds, r) \<Longrightarrow> length r < length s"
  by (auto simp: num_int_def less_Suc_eq_le length_dropWhile_le split: list.splits if_splits)

lemma num_tail_length: "length (snd (num_frac s)) \<le> length s" "length (snd (num_exp s)) \<le> length s"
  by (auto simp: num_frac_def num_exp_def Let_def le_SucI length_dropWhile_le split: list.splits if_splits)

lemma jnum_length: "jnum s = Some (v, r) \<Longrightarrow> length r < length s"
proof -
  assume j: "jnum s = Some (v, r)"
  define st :: "pystr \<times> pystr" where
    "st = (case s of c # cs \<Rightarrow> if c = 45 then ([45], cs) else ([], s) | [] \<Rightarrow> ([], s))"
  have t: "length (snd st) \<le> length s" by (auto simp: st_def split: list.split)
  from j obtain ds r0 where i: "num_int (snd st) = Some (ds, r0)"
    and r: "r = snd (num_exp (snd (num_frac r0)))"
    unfolding jnum_def st_def [symmetric]
    by (auto simp: Let_def split_beta split: option.splits if_splits)
  have "length r \<le> length r0"
    using num_tail_length(2) [of "snd (num_frac r0)"] num_tail_length(1) [of r0] r by simp
  with num_int_length [OF i] t show ?thesis by simp
qed

lemma jatom_length: "jatom s = Some (v, r) \<Longrightarrow> length r < length s"
proof -
  have "length r < length s" if "strip_lit l s = Some r" "l \<noteq> []" for l
  proof -
    from that have "take (length l) s = u l" "r = drop (length l) s"
      by (auto simp: strip_lit_def split: if_splits)
    moreover from this(1) that(2) have "s \<noteq> []" by (auto simp: u_def)
    ultimately show ?thesis using that(2) by simp
  qed
  then show "jatom s = Some (v, r) \<Longrightarrow> length r < length s"
    by (auto simp: jatom_def jnum_length split: option.splits)
qed

lemma jscan_length:
  "jscan n s = Some (v, r) \<Longrightarrow> length r < length s"
  "jarr n s = Some (vs, r) \<Longrightarrow> length r < length s"
  "jobj n s = Some (kvs, r) \<Longrightarrow> length r < length s"
proof (induction n s and n s and n s arbitrary: v r and vs r and kvs r rule: jscan_jarr_jobj.induct)
  case (2 n s)
  show ?case
  proof (cases s)
    case (Cons c cs)
    show ?thesis
      using 2 Cons length_skip_ws [of cs] jatom_length [of s v r]
      by (fastforce split: if_splits list.splits dest: jstr_length)
  qed (use 2 in simp)
next
  case (4 n s)
  from 4(3) obtain v1 r1 d r2 where a: "jscan n s = Some (v1, r1)" "skip_ws r1 = d # r2"
    and b: "r = r2 \<or> (\<exists>vs'. jarr n (skip_ws r2) = Some (vs', r))"
    and d: "d = 44 \<or> r = r2"
    by (auto split: option.splits list.splits if_splits)
  have "length r1 < length s" "length r2 < length r1"
    using 4(1) [OF a(1)] length_skip_ws [of r1] a(2) by simp_all
  moreover have "length r \<le> length r2"
    using b d 4(2) [OF a(1) refl a(2)] length_skip_ws [of r2] by fastforce
  ultimately show ?case by simp
next
  case (6 n s)
  from 6(3) obtain cs k r0 e r1 v1 r2 d r3 where s: "s = 34 # cs" "jstr [] cs = Some (k, r0)"
    "skip_ws r0 = 58 # r1" and a: "jscan n (skip_ws r1) = Some (v1, r2)" "skip_ws r2 = d # r3"
    and b: "r = r3 \<or> (\<exists>kvs'. jobj n (skip_ws r3) = Some (kvs', r))"
    and d: "d = 44 \<or> r = r3"
    by (auto split: option.splits list.splits if_splits)
  have "length r0 < length s" "length r1 < length r0" "length r2 < length r1" "length r3 < length r2"
    using jstr_length [OF s(2)] 6(1) [OF s(1) _ s(2) refl s(3) _ a(1)]
      length_skip_ws [of r0] length_skip_ws [of r1] length_skip_ws [of r2] s a(2) by simp_all
  moreover have "length r \<le> length r3"
    using b d 6(2) [OF s(1) _ s(2) refl s(3) _ a(1) refl a(2)] length_skip_ws [of r3] by fastforce
  ultimately show ?case by simp
qed simp_all

lemma jscan_fuel:
  "(2 * length s < n \<longrightarrow> n \<le> m \<longrightarrow> jscan m s = jscan n s) \<and>
   (2 * length s + 1 < n \<longrightarrow> n \<le> m \<longrightarrow> jarr m s = jarr n s) \<and>
   (2 * length s + 1 < n \<longrightarrow> n \<le> m \<longrightarrow> jobj m s = jobj n s)"
proof (induction n arbitrary: s m)
  case (Suc n)
  have scan: "jscan m' t = jscan n t" if "2 * length t < n" "n \<le> m'" for t m'
    using Suc.IH [of t m'] that by simp
  have arr: "jarr m' t = jarr n t" "jobj m' t = jobj n t" if "2 * length t + 1 < n" "n \<le> m'" for t m'
    using Suc.IH [of t m'] that by simp_all
  show ?case
  proof (cases m)
    case (Suc m')
    have "jscan m s = jscan (Suc n) s" if l: "2 * length s < Suc n" "Suc n \<le> m"
    proof (cases s)
      case (Cons c cs)
      have l1: "2 * length (d # r) + 1 < n" if "skip_ws cs = d # r" for d r
        using l(1) Cons length_skip_ws [of cs] that by simp
      have "n \<le> m'" using l(2) Suc by simp
      note e = arr [OF l1 this]
      show ?thesis
        unfolding Suc Cons jscan.simps list.case using e by (auto split: list.split)
    qed (simp add: Suc)
    moreover have "jarr m s = jarr (Suc n) s" if l: "2 * length s + 1 < Suc n" "Suc n \<le> m"
    proof -
      have l2: "2 * length (skip_ws r2) + 1 < n" if "jscan n s = Some (v, r)" "skip_ws r = d # r2" for v r d r2
        using l(1) jscan_length(1) [OF that(1)] length_skip_ws [of r] length_skip_ws [of r2] that(2) by simp
      have n: "n \<le> m'" "jscan m' s = jscan n s" using scan [of s m'] l Suc by simp_all
      note e = arr(1) [OF l2 n(1)]
      show ?thesis
        unfolding Suc jarr.simps n(2) using e by (auto split: list.split option.split)
    qed
    moreover have "jobj m s = jobj (Suc n) s" if l: "2 * length s + 1 < Suc n" "Suc n \<le> m"
    proof (cases s)
      case (Cons c cs)
      have l1: "2 * length (skip_ws r1) < n" if "jstr [] cs = Some (k, r0)" "skip_ws r0 = e # r1" for k r0 e r1
        using l(1) Cons jstr_length [OF that(1)] length_skip_ws [of r0] length_skip_ws [of r1] that(2)
        by simp
      have l3: "2 * length (skip_ws r3) + 1 < n"
        if "jstr [] cs = Some (k, r0)" "skip_ws r0 = e # r1" "jscan n (skip_ws r1) = Some (v, r2)"
          "skip_ws r2 = d # r3" for k r0 e r1 v r2 d r3
        using l1 [OF that(1,2)] jscan_length(1) [OF that(3)] length_skip_ws [of r2]
          length_skip_ws [of r3] that(4) by simp
      have n: "n \<le> m'" using l(2) Suc by simp
      show ?thesis
        unfolding Suc Cons jobj.simps list.case
        using scan [OF l1 n] arr(2) [OF l3 n] by (auto split: list.split option.split)
    qed (simp add: Suc)
    ultimately show ?thesis by blast
  qed simp
qed simp

end
