(* ===== verification/Envelope.thy ===== *)
theory Envelope
  imports Json SecureChannel
begin

text \<open>
  Control messages: the message types and payloads of \<^verbatim>\<open>p2p/protocol.py\<close> and \<^verbatim>\<open>read_envelope\<close>
  and \<^verbatim>\<open>write_envelope\<close> of \<^verbatim>\<open>p2p/node.py\<close>. An envelope is one line of JSON, read byte by byte
  from any connection, of at most 65535 bytes.
\<close>

section \<open>Message types and payloads\<close>

definition ANNOUNCE :: pystr where "ANNOUNCE = u ''ANNOUNCE''"
definition FIND_PEER :: pystr where "FIND_PEER = u ''FIND_PEER''"
definition FOUND_PEER :: pystr where "FOUND_PEER = u ''FOUND_PEER''"
definition RELAY_REQ :: pystr where "RELAY_REQ = u ''RELAY_REQ''"
definition INCOMING_RELAY :: pystr where "INCOMING_RELAY = u ''INCOMING_RELAY''"
definition ACCEPT_RELAY :: pystr where "ACCEPT_RELAY = u ''ACCEPT_RELAY''"
definition RELAY_ACK :: pystr where "RELAY_ACK = u ''RELAY_ACK''"
definition ERROR :: pystr where "ERROR = u ''ERROR''"

lemmas msg_type_defs = ANNOUNCE_def FIND_PEER_def FOUND_PEER_def RELAY_REQ_def INCOMING_RELAY_def
  ACCEPT_RELAY_def RELAY_ACK_def ERROR_def

definition announce_payload :: "pystr \<Rightarrow> pystr list \<Rightarrow> json" where
  "announce_payload fp addrs =
     JObj [(u ''fingerprint'', JStr fp), (u ''direct_addresses'', JArr (map JStr addrs))]"

definition relay_req_payload :: "pystr \<Rightarrow> json" where
  "relay_req_payload target = JObj [(u ''target_fingerprint'', JStr target)]"

definition accept_relay_payload :: "json \<Rightarrow> json" where
  "accept_relay_payload token = JObj [(u ''session_token'', token)]"

section \<open>Python's subscripts on a parsed value\<close>

text \<open>\<open>d[key]\<close> and \<open>d.get(key, default)\<close>: a \<open>KeyError\<close> for a missing key, a \<open>TypeError\<close> or
  \<open>AttributeError\<close> when the value is no dictionary.\<close>

definition json_item :: "pystr \<Rightarrow> json \<Rightarrow> json res" where
  "json_item key v =
     (case v of
        JObj kvs \<Rightarrow>
          (case map_of kvs key of Some x \<Rightarrow> Return x | None \<Rightarrow> Raise (Exn KeyError [Str key]))
      | _ \<Rightarrow> Raise (Exn TypeError [Txt ''indices must be integers'']))"

definition json_get :: "pystr \<Rightarrow> json \<Rightarrow> json \<Rightarrow> json res" where
  "json_get key dflt v =
     (case v of
        JObj kvs \<Rightarrow> Return (case map_of kvs key of Some x \<Rightarrow> x | None \<Rightarrow> dflt)
      | _ \<Rightarrow> Raise (Exn AttributeError [Txt ''get'']))"

text \<open>The truth value of a parsed value. A float literal is false when it rounds to zero: its digits
  are all zero, or its value is at most half of the smallest positive double.\<close>

definition float_exponent :: "pystr \<Rightarrow> int" where
  "float_exponent t =
     (case dropWhile (\<lambda>c. c \<noteq> 101 \<and> c \<noteq> 69) t of
        [] \<Rightarrow> 0
      | _ # ex \<Rightarrow> (case py_int ex of Return i \<Rightarrow> i | _ \<Rightarrow> 0))"

definition float_is_zero :: "pystr \<Rightarrow> bool" where
  "float_is_zero t =
     (let mant = takeWhile (\<lambda>c. c \<noteq> 101 \<and> c \<noteq> 69) t;
          digs = foldl (\<lambda>a c. 10 * a + (c - 48)) 0 (filter is_digit mant);
          e = float_exponent t - int (length (filter is_digit (dropWhile (\<lambda>c. c \<noteq> 46) mant)))
      in 78 \<notin> set t \<and> 73 \<notin> set t \<and>
         (digs = 0 \<or> e < 0 \<and> digs * 2 ^ 1075 \<le> 10 ^ nat (- e)))"

fun json_truth :: "json \<Rightarrow> bool" where
  "json_truth JNull = False"
| "json_truth (JBool b) = b"
| "json_truth (JInt i) = (i \<noteq> 0)"
| "json_truth (JFloat t) = (\<not> float_is_zero t)"
| "json_truth (JStr s) = (s \<noteq> [])"
| "json_truth (JArr vs) = (vs \<noteq> [])"
| "json_truth (JObj kvs) = (kvs \<noteq> [])"

section \<open>Reading and writing\<close>

definition ENVELOPE_LIMIT :: nat where "ENVELOPE_LIMIT = 64 * 1024"

text \<open>The loop of \<^verbatim>\<open>read_envelope\<close>: \<open>line\<close> is the line so far, \<open>buf\<close> the one-byte buffer.\<close>

function read_line :: "'s conn_ops \<Rightarrow> bytes \<Rightarrow> bytes \<Rightarrow> 's \<Rightarrow> 's \<times> bytes res" where
  "read_line ops line buf s =
     (if length line < ENVELOPE_LIMIT then
        (case op_read ops buf s of
           (s', Return (buf', n)) \<Rightarrow>
             if n = 0 then (s', Raise (Exn ConnectionError [Txt ''connection closed by peer'']))
             else (case buf' of
                     [] \<Rightarrow> (s', Raise (Exn IndexError [Txt ''bytearray index out of range'']))
                   | b # _ \<Rightarrow> if b = 10 then (s', Return line) else read_line ops (line @ [b]) buf' s')
         | (s', Raise e) \<Rightarrow> (s', Raise e)
         | (s', Blocked) \<Rightarrow> (s', Blocked))
      else (s, Raise (Exn ValueError [Txt ''control message too large''])))"
  by pat_completeness auto
termination
  by (relation "measure (\<lambda>(ops, line, buf, s). ENVELOPE_LIMIT - length line)") auto

declare read_line.simps [simp del]

definition read_envelope :: "'s conn_ops \<Rightarrow> 's \<Rightarrow> 's \<times> json res" where
  "read_envelope ops s =
     res_bind (read_line ops [] (bytearray 1) s)
       (\<lambda>s line. (s, bind_res (utf8_decode line) json_loads))"

definition envelope :: "pystr \<Rightarrow> json \<Rightarrow> json" where
  "envelope mt pl = JObj [(u ''type'', JStr mt), (u ''payload'', pl)]"

definition write_envelope :: "'s conn_ops \<Rightarrow> pystr \<Rightarrow> json \<Rightarrow> 's \<Rightarrow> 's \<times> nat res" where
  "write_envelope ops mt pl s =
     (case utf8_encode (json_dump (envelope mt pl) @ [10]) of
        Return data \<Rightarrow> op_write ops data s
      | Raise e \<Rightarrow> (s, Raise e)
      | Blocked \<Rightarrow> (s, Blocked))"

section \<open>An envelope on any connection that keeps the stream contract\<close>

definition envelope_line :: "pystr \<Rightarrow> json \<Rightarrow> bytes" where
  "envelope_line mt pl = map of_nat (json_dump (envelope mt pl))"

lemma envelope_plain: "list_all scalar mt \<Longrightarrow> json_plain pl \<Longrightarrow> json_plain (envelope mt pl)"
  by (simp add: envelope_def u_def scalar_def)

lemma dump_ascii: "json_plain v \<Longrightarrow> list_all (\<lambda>c. 32 \<le> c \<and> c < 127) (json_dump v)"
  using printable_dump by (simp add: printable_def list_all_iff)

lemma envelope_encode:
  assumes "list_all scalar mt" "json_plain pl"
  shows "utf8_encode (json_dump (envelope mt pl)) = Return (envelope_line mt pl)"
    "utf8_encode (json_dump (envelope mt pl) @ [10]) = Return (envelope_line mt pl @ [10])"
    "10 \<notin> set (envelope_line mt pl)"
proof -
  have a: "list_all (\<lambda>c. 32 \<le> c \<and> c < 127) (json_dump (envelope mt pl))"
    using assms by (intro dump_ascii envelope_plain)
  then have b: "list_all (\<lambda>c. c < 0x80) (json_dump (envelope mt pl))"
    by (auto simp: list_all_iff)
  then show "utf8_encode (json_dump (envelope mt pl)) = Return (envelope_line mt pl)"
    "utf8_encode (json_dump (envelope mt pl) @ [10]) = Return (envelope_line mt pl @ [10])"
    by (simp_all add: utf8_encode_ascii envelope_line_def)
  have "(of_nat c :: byte) \<noteq> 10" if "32 \<le> c" "c < 127" for c
  proof
    assume "(of_nat c :: byte) = 10"
    then have "unat (of_nat c :: byte) = unat (10 :: byte)" by simp
    with that show False by (simp add: unat_of_nat)
  qed
  with a show "10 \<notin> set (envelope_line mt pl)"
    by (fastforce simp: envelope_line_def list_all_iff)
qed

context conn_stream
begin

lemma read_line_delivers:
  assumes "link s (data @ 10 # rest) outb" "10 \<notin> set data"
    and "length line + length data < ENVELOPE_LIMIT" "length buf = 1"
  shows "\<exists>s'. read_line ops line buf s = (s', Return (line @ data)) \<and> link s' rest outb \<and>
    (\<forall>ns. wok s ns \<longrightarrow> wok s' ns)"
  using assms
proof (induction data arbitrary: line buf s)
  case Nil
  obtain x where x: "buf = [x]" using Nil.prems(4) by (auto simp: length_Suc_conv)
  have "link s (10 # rest) outb" using Nil.prems(1) by simp
  then obtain s' where "op_read ops [x] s = (s', Return ([10], 1))" "link s' rest outb"
    "\<And>ns. wok s ns \<Longrightarrow> wok s' ns" by (rule read_one_byte [where x = x]) (rule that)
  with Nil x show ?case by (simp add: read_line.simps)
next
  case (Cons b data)
  obtain x where x: "buf = [x]" using Cons.prems(4) by (auto simp: length_Suc_conv)
  have "link s (b # (data @ 10 # rest)) outb" using Cons.prems(1) by simp
  then obtain s1 where s1: "op_read ops [x] s = (s1, Return ([b], 1))" "link s1 (data @ 10 # rest) outb"
    "\<And>ns. wok s ns \<Longrightarrow> wok s1 ns" by (rule read_one_byte [where x = x]) (rule that)
  have "\<exists>s'. read_line ops (line @ [b]) [b] s1 = (s', Return ((line @ [b]) @ data)) \<and>
      link s' rest outb \<and> (\<forall>ns. wok s1 ns \<longrightarrow> wok s' ns)"
    using Cons.prems s1(2) by (intro Cons.IH) auto
  moreover have "read_line ops line buf s = read_line ops (line @ [b]) [b] s1"
    using Cons.prems(2,3) s1(1) x by (simp add: read_line.simps [of ops line "[x]" s])
  ultimately show ?case using s1(3) by auto
qed

lemma read_line_too_large:
  assumes "link s (data @ rest) outb" "10 \<notin> set data"
    and "length line + length data = ENVELOPE_LIMIT" "length buf = 1"
  shows "\<exists>s'. read_line ops line buf s = (s', Raise (Exn ValueError [Txt ''control message too large''])) \<and>
    link s' rest outb"
  using assms
proof (induction data arbitrary: line buf s)
  case Nil
  then show ?case by (auto simp: read_line.simps)
next
  case (Cons b data)
  obtain x where x: "buf = [x]" using Cons.prems(4) by (auto simp: length_Suc_conv)
  have "link s (b # (data @ rest)) outb" using Cons.prems(1) by simp
  then obtain s1 where s1: "op_read ops [x] s = (s1, Return ([b], 1))" "link s1 (data @ rest) outb"
    by (rule read_one_byte [where x = x]) (rule that)
  have "read_line ops line buf s = read_line ops (line @ [b]) [b] s1"
    using Cons.prems(2,3) s1(1) x by (simp add: read_line.simps [of ops line "[x]" s])
  moreover have "\<exists>s'. read_line ops (line @ [b]) [b] s1 =
      (s', Raise (Exn ValueError [Txt ''control message too large''])) \<and> link s' rest outb"
    using Cons.prems s1(2) by (intro Cons.IH) auto
  ultimately show ?case by simp
qed

lemma write_envelope_puts:
  assumes "link s inb outb" "wok s ((length (envelope_line mt pl) + 1) # ns)"
    and "list_all scalar mt" "json_plain pl"
  obtains s' where "write_envelope ops mt pl s = (s', Return (length (envelope_line mt pl) + 1))"
    "link s' inb (outb @ envelope_line mt pl @ [10])" "wok s' ns"
proof -
  have "wok s (length (envelope_line mt pl @ [10]) # ns)" using assms(2) by simp
  then obtain s' where "op_write ops (envelope_line mt pl @ [10]) s =
      (s', Return (length (envelope_line mt pl @ [10])))"
    "link s' inb (outb @ envelope_line mt pl @ [10])" "wok s' ns"
    using write_allE [OF assms(1)] by metis
  then show thesis
    by (intro that) (simp_all add: write_envelope_def envelope_encode(2) [OF assms(3,4)])
qed

lemma read_envelope_delivers:
  assumes "link s (envelope_line mt pl @ [10] @ rest) outb"
    and "list_all scalar mt" "json_plain pl" "length (envelope_line mt pl) < ENVELOPE_LIMIT"
  obtains s' where "read_envelope ops s = (s', Return (envelope mt pl))" "link s' rest outb"
    "\<And>ns. wok s ns \<Longrightarrow> wok s' ns"
proof -
  have l: "link s (envelope_line mt pl @ 10 # rest) outb" using assms(1) by simp
  obtain s' where s': "read_line ops [] (bytearray 1) s = (s', Return (envelope_line mt pl))"
    "link s' rest outb" "\<forall>ns. wok s ns \<longrightarrow> wok s' ns"
    using read_line_delivers [OF l envelope_encode(3) [OF assms(2,3)], of "[]" "bytearray 1"] assms(4)
    by auto
  moreover have "utf8_decode (envelope_line mt pl) = Return (json_dump (envelope mt pl))"
    using envelope_encode(1) [OF assms(2,3)] by (rule utf8_decode_encode)
  moreover have "json_loads (json_dump (envelope mt pl)) = Return (envelope mt pl)"
    using assms(2,3) by (intro json_loads_dump envelope_plain)
  ultimately show thesis by (intro that [of s']) (simp_all add: read_envelope_def)
qed

end

section \<open>Properties\<close>

text \<open>C20. An envelope written to an encrypted connection is one line, and the peer that receives this
  line reads exactly this message back, whatever text its strings contain, and nothing of what
  follows; this holds for lines of up to 65535 bytes.\<close>

theorem envelope_roundtrip:
  assumes "leg_link A a inb out" "send_counter a < 2 ^ 64"
    and "list_all scalar mt" "json_plain pl" "length (envelope_line mt pl) < 65536"
  shows "\<exists>a' line. write_envelope (secure_ops A now tcp_ops) mt pl a = (a', Return (length line)) \<and>
    leg_link A a' inb (out @ line) \<and>
    (\<forall>A' now' b rest o'. leg_link A' b (line @ rest) o' \<longrightarrow>
      (\<exists>b'. read_envelope (secure_ops A' now' tcp_ops) b = (b', Return (envelope mt pl)) \<and>
        leg_link A' b' rest o'))"
proof -
  let ?line = "envelope_line mt pl @ [10]"
  obtain w where "inner_conn a = Some w" using assms(1) by (auto simp: leg_link_def sc_link_def)
  then have w: "sc_wok (\<lambda>_ _. True) a [length (envelope_line mt pl) + 1]"
    using assms(2,5) by (simp add: sc_wok_def MAX_MESSAGE_SIZE_def)
  obtain a' where a': "write_envelope (secure_ops A now tcp_ops) mt pl a = (a', Return (length ?line))"
    "leg_link A a' inb (out @ ?line)"
    by (rule tcp_secure.write_envelope_puts [OF assms(1) w assms(3,4)]) simp
  have lim: "length (envelope_line mt pl) < ENVELOPE_LIMIT"
    using assms(5) by (simp add: ENVELOPE_LIMIT_def)
  have "\<exists>b'. read_envelope (secure_ops A' now' tcp_ops) b = (b', Return (envelope mt pl)) \<and>
      leg_link A' b' rest o'" if "leg_link A' b (?line @ rest) o'" for A' now' b rest o'
  proof -
    have l: "leg_link A' b (envelope_line mt pl @ [10] @ rest) o'" using that by simp
    show ?thesis by (rule tcp_secure.read_envelope_delivers [OF l assms(3,4) lim]) blast
  qed
  with a' show ?thesis by blast
qed

theorem envelope_roundtrip_witness:
  "\<exists>a' line. write_envelope (secure_ops toy_aead (\<lambda>_. 0) tcp_ops) RELAY_REQ
     (relay_req_payload (u ''ab'')) (toy_conn []) = (a', Return (length line)) \<and>
     leg_link toy_aead a' [] line"
proof -
  have "sc_link toy_aead tcp_link [] (toy_conn []) (concat (map snd ([] :: (nat \<times> bytes) list))) []"
    using toy_env_ok toy_tcp_link [of "[]"]
    by (intro tcp.fresh_sc_link [OF toy_aead_ok _ _ _ toy_conn_def]) (simp_all add: env_ok_def)
  then have l: "leg_link toy_aead (toy_conn []) [] []" by (auto simp: leg_link_def)
  have p: "list_all scalar RELAY_REQ" "json_plain (relay_req_payload (u ''ab''))"
    "length (envelope_line RELAY_REQ (relay_req_payload (u ''ab''))) < 65536"
    by (simp_all add: msg_type_defs relay_req_payload_def envelope_line_def envelope_def dump_str_def
        dump_char_def u_def scalar_def)
  show ?thesis
    using envelope_roundtrip [OF l _ p, of "\<lambda>_. 0"] by (auto simp: toy_conn_sel)
qed

text \<open>A control line that has no newline in its first 65536 bytes is refused with ``control message
  too large'' after exactly these bytes, so a hostile relay cannot make a node buffer more.\<close>

theorem envelope_limit:
  assumes "tcp_link s (data @ rest) out" "10 \<notin> set data" "length data = 65536"
  shows "\<exists>s'. read_envelope tcp_ops s =
      (s', Raise (Exn ValueError [Txt ''control message too large''])) \<and> tcp_link s' rest out"
  using tcp.read_line_too_large [OF assms(1,2), of "[]" "bytearray 1"] assms(3)
  by (auto simp: read_envelope_def ENVELOPE_LIMIT_def)

theorem envelope_limit_witness:
  "\<exists>s'. read_envelope tcp_ops (toy_tcp [replicate 65536 32]) =
     (s', Raise (Exn ValueError [Txt ''control message too large'']))"
proof -
  have "tcp_link (toy_tcp [replicate 65536 32]) (replicate 65536 32 @ []) []"
    using toy_tcp_link [of "[replicate 65536 32]"] by simp
  from envelope_limit [OF this] show ?thesis by auto
qed

end
