(* ===== verification/Negotiate.thy ===== *)
theory Negotiate
  imports Envelope
begin

text \<open>
  The first half of \<^verbatim>\<open>multi/__init__.py\<close>: the negotiate response and \<^verbatim>\<open>MultiDialer\<close>. Names and
  addresses that come from the server are parsed JSON values of any kind, as they are in the source.

  The HTTP client is third-party code: \<open>http_get\<close> is what fetching the URL does. A dialer is a
  function that also changes the state \<open>'w\<close> of the outside world, so every attempt is visible; its
  outcome is the one of \<^verbatim>\<open>asyncio.wait_for\<close> with the configured timeout.
\<close>

section \<open>Negotiate response\<close>

definition DEFAULT_PRIORITY :: "pystr list" where
  "DEFAULT_PRIORITY = [u ''webtransport'', u ''quic'', u ''websocket'', u ''kcp'', u ''tcp'']"

record protocol_entry =
  pe_name :: json
  pe_address :: json

record negotiate_response =
  protocols :: "protocol_entry list"
  nr_fingerprint :: json

definition neg_to_json :: "negotiate_response \<Rightarrow> pystr" where
  "neg_to_json r =
     (let d = [(u ''protocols'',
                 JArr (map (\<lambda>p. JObj [(u ''name'', pe_name p), (u ''address'', pe_address p)]) (protocols r)))];
          d = (if nr_fingerprint r \<noteq> JNull then d @ [(u ''fingerprint'', nr_fingerprint r)] else d)
      in json_dump (JObj d))"

text \<open>Iteration over a parsed value.\<close>

definition json_iter :: "json \<Rightarrow> json list res" where
  "json_iter v =
     (case v of
        JArr vs \<Rightarrow> Return vs
      | JObj kvs \<Rightarrow> Return (map (JStr \<circ> fst) kvs)
      | JStr s \<Rightarrow> Return (map (\<lambda>c. JStr [c]) s)
      | _ \<Rightarrow> Raise (Exn TypeError [Txt ''object is not iterable'']))"

fun map_res_list :: "('a \<Rightarrow> 'b res) \<Rightarrow> 'a list \<Rightarrow> 'b list res" where
  "map_res_list f [] = Return []"
| "map_res_list f (x # xs) =
     bind_res (f x) (\<lambda>y. bind_res (map_res_list f xs) (\<lambda>ys. Return (y # ys)))"

definition entry_of_json :: "json \<Rightarrow> protocol_entry res" where
  "entry_of_json p =
     bind_res (json_item (u ''name'') p) (\<lambda>nm.
     bind_res (json_item (u ''address'') p) (\<lambda>ad.
       Return \<lparr>pe_name = nm, pe_address = ad\<rparr>))"

definition neg_from_json :: "pystr \<Rightarrow> negotiate_response res" where
  "neg_from_json data =
     bind_res (json_loads data) (\<lambda>obj.
     bind_res (json_get (u ''protocols'') (JArr []) obj) (\<lambda>ps.
     bind_res (json_iter ps) (\<lambda>items.
     bind_res (map_res_list entry_of_json items) (\<lambda>entries.
     bind_res (json_get (u ''fingerprint'') JNull obj) (\<lambda>fp.
       Return \<lparr>protocols = entries, nr_fingerprint = fp\<rparr>)))))"

definition neg_plain :: "negotiate_response \<Rightarrow> bool" where
  "neg_plain r \<longleftrightarrow> json_plain (nr_fingerprint r) \<and>
     (\<forall>p \<in> set (protocols r). json_plain (pe_name p) \<and> json_plain (pe_address p))"

lemma neg_json_plain:
  assumes "neg_plain r"
  shows "json_plain (JObj ([(u ''protocols'',
      JArr (map (\<lambda>p. JObj [(u ''name'', pe_name p), (u ''address'', pe_address p)]) (protocols r)))] @
      (if nr_fingerprint r \<noteq> JNull then [(u ''fingerprint'', nr_fingerprint r)] else [])))"
  using assms by (auto simp: neg_plain_def u_eq u_scalar)

lemma entries_of_json:
  "map_res_list entry_of_json
     (map (\<lambda>p. JObj [(u ''name'', pe_name p), (u ''address'', pe_address p)]) ps) = Return ps"
  by (induction ps) (simp_all add: entry_of_json_def json_item_def u_eq)

section \<open>MultiDialer\<close>

record 'w http_client =
  http_get :: "pystr \<Rightarrow> 'w \<Rightarrow> 'w \<times> (nat \<times> pystr res) res"

type_synonym ('w, 'c) dialers = "pystr \<Rightarrow> (json \<Rightarrow> 'w \<Rightarrow> 'w \<times> 'c res) option"

record ('w, 'c) multi_config =
  negotiate_url :: pystr
  mc_dialers :: "('w, 'c) dialers"
  mc_priority :: "pystr list"

text \<open>The dictionary from names to addresses: a list or a dictionary as a name is unhashable.\<close>

fun server_map :: "protocol_entry list \<Rightarrow> (json \<times> json) list \<Rightarrow> (json \<times> json) list res" where
  "server_map [] d = Return d"
| "server_map (p # ps) d =
     (case pe_name p of
        JArr _ \<Rightarrow> Raise (Exn TypeError [Txt ''unhashable type''])
      | JObj _ \<Rightarrow> Raise (Exn TypeError [Txt ''unhashable type''])
      | nm \<Rightarrow> server_map ps (dict_set nm (pe_address p) d))"

text \<open>Which protocols are tried: the server has a non-null address for it and there is a dialer.\<close>

definition usable :: "('w, 'c) dialers \<Rightarrow> (json \<times> json) list \<Rightarrow> pystr \<Rightarrow>
    (json \<times> (json \<Rightarrow> 'w \<Rightarrow> 'w \<times> 'c res)) option" where
  "usable D m proto =
     (case map_of m (JStr proto) of
        None \<Rightarrow> None
      | Some ad \<Rightarrow>
          if ad = JNull then None
          else (case D proto of None \<Rightarrow> None | Some d \<Rightarrow> Some (ad, d)))"

definition proto_error :: "pystr \<Rightarrow> exn \<Rightarrow> exn" where
  "proto_error proto e = Exn RuntimeError [Txt ''['', Str proto, Txt ''] '', Exc e]"

fun dial_loop :: "('w, 'c) dialers \<Rightarrow> (json \<times> json) list \<Rightarrow> pystr list \<Rightarrow> exn option \<Rightarrow> 'w \<Rightarrow>
    'w \<times> ('c \<times> pystr) res" where
  "dial_loop D m [] le w =
     (w, case le of
           Some e \<Rightarrow> Raise (Exn RuntimeError [Txt ''all protocols failed, last: '', Exc e])
         | None \<Rightarrow> Raise (Exn RuntimeError [Txt ''no compatible protocol found'']))"
| "dial_loop D m (proto # ps) le w =
     (case usable D m proto of
        None \<Rightarrow> dial_loop D m ps le w
      | Some (ad, d) \<Rightarrow>
          (case d ad w of
             (w', Return c) \<Rightarrow> (w', Return (c, proto))
           | (w', Raise e) \<Rightarrow>
               if exn_class_of e = CancelledError then (w', Raise e)
               else dial_loop D m ps (Some (proto_error proto e)) w'
           | (w', Blocked) \<Rightarrow> (w', Blocked)))"

definition multi_dial ::
  "'w http_client \<Rightarrow> ('w, 'c) multi_config \<Rightarrow> 'w \<Rightarrow> 'w \<times> ('c \<times> pystr) res" where
  "multi_dial H cfg w =
     res_bind (http_get H (negotiate_url cfg) w) (\<lambda>w (status, text).
       if status \<noteq> 200
       then (w, Raise (Exn RuntimeError [Txt ''negotiate: HTTP '', Num status]))
       else case bind_res text (\<lambda>body. bind_res (neg_from_json body) (\<lambda>neg. server_map (protocols neg) [])) of
         Raise e \<Rightarrow> (w, Raise e)
       | Blocked \<Rightarrow> (w, Blocked)
       | Return m \<Rightarrow> dial_loop (mc_dialers cfg) m (mc_priority cfg) None w)"

text \<open>Dialling the protocols of a list that all fail, and nothing else.\<close>

fun all_fail :: "('w, 'c) dialers \<Rightarrow> (json \<times> json) list \<Rightarrow> pystr list \<Rightarrow> 'w \<Rightarrow> 'w option" where
  "all_fail D m [] w = Some w"
| "all_fail D m (proto # ps) w =
     (case usable D m proto of
        None \<Rightarrow> all_fail D m ps w
      | Some (ad, d) \<Rightarrow>
          (case d ad w of
             (w', Raise e) \<Rightarrow> if exn_class_of e = CancelledError then None else all_fail D m ps w'
           | _ \<Rightarrow> None))"

lemma dial_loop_Return:
  "dial_loop D m ps le w = (w', Return (c, proto)) \<longleftrightarrow>
     (\<exists>pre post w1 ad d. ps = pre @ proto # post \<and> all_fail D m pre w = Some w1 \<and>
        usable D m proto = Some (ad, d) \<and> d ad w1 = (w', Return c))"
    (is "_ \<longleftrightarrow> ?R ps w")
proof (induction ps arbitrary: le w)
  case (Cons p ps)
  have split: "?R (p # ps) w \<longleftrightarrow>
      p = proto \<and> (\<exists>ad d. usable D m proto = Some (ad, d) \<and> d ad w = (w', Return c)) \<or>
      (\<exists>w2. all_fail D m [p] w = Some w2 \<and> ?R ps w2)" (is "_ \<longleftrightarrow> ?now \<or> ?later")
  proof
    assume "?R (p # ps) w"
    then obtain pre post w1 ad d where r: "p # ps = pre @ proto # post"
      "all_fail D m pre w = Some w1" "usable D m proto = Some (ad, d)"
      "d ad w1 = (w', Return c)" by blast
    show "?now \<or> ?later"
    proof (cases pre)
      case Nil
      with r show ?thesis by auto
    next
      case (Cons q pre')
      with r(2) obtain w2 where "all_fail D m [q] w = Some w2" "all_fail D m pre' w2 = Some w1"
        by (auto split: option.splits prod.splits res.splits if_splits)
      with r Cons show ?thesis by auto
    qed
  next
    assume "?now \<or> ?later"
    then show "?R (p # ps) w"
    proof
      assume ?now
      moreover have "p # ps = [] @ p # ps" "all_fail D m [] w = Some w" by simp_all
      ultimately show ?thesis by blast
    next
      assume ?later
      then obtain w2 pre post w1 ad d where r: "all_fail D m [p] w = Some w2" "ps = pre @ proto # post"
        "all_fail D m pre w2 = Some w1" "usable D m proto = Some (ad, d)"
        "d ad w1 = (w', Return c)" by blast
      then have "all_fail D m (p # pre) w = Some w1"
        by (auto split: option.splits prod.splits res.splits if_splits)
      moreover have "p # ps = (p # pre) @ proto # post" using r(2) by simp
      ultimately show ?thesis using r(4,5) by blast
    qed
  qed
  show ?case
    unfolding split by (auto simp: Cons split: option.splits prod.splits res.splits if_splits)
qed (auto split: option.splits)

lemma dial_loop_exhausted:
  assumes "all_fail D m ps w = Some w'"
  shows "\<exists>e. dial_loop D m ps le w = (w', Raise e) \<and>
    (e = Exn RuntimeError [Txt ''no compatible protocol found''] \<longleftrightarrow>
      le = None \<and> (\<forall>p \<in> set ps. usable D m p = None))"
  using assms
proof (induction ps arbitrary: le w)
  case (Cons p ps)
  show ?case
  proof (cases "usable D m p")
    case None
    with Cons show ?thesis by simp
  next
    case (Some ad)
    with Cons.prems obtain w1 x where d: "snd ad (fst ad) w = (w1, Raise x)"
      "exn_class_of x \<noteq> CancelledError" "all_fail D m ps w1 = Some w'"
      by (auto split: prod.splits res.splits if_splits)
    from Cons.IH [OF d(3), of "Some (proto_error p x)"] d(1,2) Some show ?thesis
      by (cases ad) auto
  qed
qed (auto split: option.split)

section \<open>Properties\<close>

text \<open>A client that parses the negotiate response a server printed gets back the same list of
  protocols, in order, and the same fingerprint (absent when there was none).\<close>

theorem negotiate_roundtrip:
  assumes "neg_plain r"
  shows "neg_from_json (neg_to_json r) = Return r"
proof -
  let ?d = "[(u ''protocols'',
      JArr (map (\<lambda>p. JObj [(u ''name'', pe_name p), (u ''address'', pe_address p)]) (protocols r)))] @
      (if nr_fingerprint r \<noteq> JNull then [(u ''fingerprint'', nr_fingerprint r)] else [])"
  have "neg_to_json r = json_dump (JObj ?d)" by (simp add: neg_to_json_def)
  then have "json_loads (neg_to_json r) = Return (JObj ?d)"
    using json_loads_dump [OF neg_json_plain [OF assms]] by simp
  then show ?thesis
    by (cases r) (simp add: neg_from_json_def json_get_def json_iter_def entries_of_json u_eq)
qed

theorem negotiate_roundtrip_witness:
  "neg_from_json (neg_to_json \<lparr>protocols = [\<lparr>pe_name = JStr (u ''tcp''), pe_address = JStr (u ''h:1'')\<rparr>],
       nr_fingerprint = JNull\<rparr>) =
     Return \<lparr>protocols = [\<lparr>pe_name = JStr (u ''tcp''), pe_address = JStr (u ''h:1'')\<rparr>],
       nr_fingerprint = JNull\<rparr>"
  by (rule negotiate_roundtrip) (simp add: neg_plain_def u_scalar)

text \<open>C19. The dialer connects with the first protocol of its priority list that the server offers, that
  it has a dialer for and whose dial succeeds: it returns a connection exactly when every such protocol
  before that one was dialled, in order, and failed; none after it is dialled.\<close>

theorem dial_best_protocol:
  "multi_dial H cfg w = (w', Return (c, proto)) \<longleftrightarrow>
     (\<exists>w0 body neg m pre post w1 ad d.
        http_get H (negotiate_url cfg) w = (w0, Return (200, Return body)) \<and>
        neg_from_json body = Return neg \<and> server_map (protocols neg) [] = Return m \<and>
        mc_priority cfg = pre @ proto # post \<and> all_fail (mc_dialers cfg) m pre w0 = Some w1 \<and>
        usable (mc_dialers cfg) m proto = Some (ad, d) \<and> d ad w1 = (w', Return c))"
    (is "?L \<longleftrightarrow> ?R")
proof
  assume ?L
  then obtain w0 body neg m where "http_get H (negotiate_url cfg) w = (w0, Return (200, Return body))"
    "neg_from_json body = Return neg" "server_map (protocols neg) [] = Return m"
    "dial_loop (mc_dialers cfg) m (mc_priority cfg) None w0 = (w', Return (c, proto))"
    by (auto simp: multi_dial_def res_simps split: if_splits res.splits)
  then show ?R unfolding dial_loop_Return by blast
next
  assume ?R
  then obtain w0 body neg m where "http_get H (negotiate_url cfg) w = (w0, Return (200, Return body))"
    "neg_from_json body = Return neg" "server_map (protocols neg) [] = Return m"
    "dial_loop (mc_dialers cfg) m (mc_priority cfg) None w0 = (w', Return (c, proto))"
    unfolding dial_loop_Return by blast
  then show ?L by (simp add: multi_dial_def)
qed

text \<open>When every usable protocol fails, dialling raises; the error says that no compatible protocol
  was found exactly when none was usable, and then nothing was dialled.\<close>

theorem dial_exhausted_error:
  assumes "all_fail D m ps w = Some w'"
  shows "\<exists>e. dial_loop D m ps None w = (w', Raise e) \<and> exn_class_of e = RuntimeError \<and>
    (e = Exn RuntimeError [Txt ''no compatible protocol found''] \<longleftrightarrow>
      (\<forall>p \<in> set ps. usable D m p = None))"
proof -
  have cls: "exn_class_of e = RuntimeError" if "dial_loop D m ps le w = (w', Raise e)"
    "all_fail D m ps w = Some w'" for e le
    using that
    by (induction ps arbitrary: w le)
      (auto split: option.splits prod.splits res.splits if_splits)
  from dial_loop_exhausted [OF assms, of None] cls assms show ?thesis by blast
qed

theorem dial_exhausted_error_witness:
  "\<exists>e. dial_loop (\<lambda>p. None :: (json \<Rightarrow> nat \<Rightarrow> nat \<times> nat res) option) [] DEFAULT_PRIORITY None 0 =
       (0, Raise e) \<and> e = Exn RuntimeError [Txt ''no compatible protocol found'']"
  using dial_exhausted_error [of "\<lambda>p. None :: (json \<Rightarrow> nat \<Rightarrow> nat \<times> nat res) option" "[]" DEFAULT_PRIORITY 0 0]
  by (simp add: DEFAULT_PRIORITY_def usable_def)

end
