(* ===== verification/MultiListener.thy ===== *)
theory MultiListener
  imports Negotiate "HOL-Library.Multiset"
begin

text \<open>
  The second half of \<^verbatim>\<open>multi/__init__.py\<close>: \<^verbatim>\<open>MultiListener\<close>, which fans the connections of several
  listeners into one queue. Coroutines run interleaved; each operation below is what the source does
  between two suspension points, and \<open>ml_step\<close> is the relation of all interleavings.

  \<^item> An accept loop (a task of \<open>_tasks\<close>) waits in its listener's \<open>accept\<close> or is done.
  \<^item> A call of \<open>accept_with\<close> waits, or its task \<open>incoming\<close> holds a connection that the call has not
    returned yet, or it is over.
  \<^item> The fields \<open>ml_taken\<close>, \<open>ml_returned\<close> and \<open>ml_shut\<close> record the connections that came from a
    listener, those handed to a caller and those on which \<open>close\<close> was called; the code does not keep
    them, the properties speak about them.
\<close>

datatype loop_state = LoopWaiting | LoopDone
datatype 'c acceptor = AccWaiting | AccGot 'c pystr | AccDone
datatype close_phase = NotClosing | Cancelling | Finished

record 'c ml =
  ml_transports :: "(pystr \<times> pystr) list"
  ml_queue :: "('c \<times> pystr) list"
  ml_closed :: bool
  ml_ended :: bool
  ml_error :: "exn option"
  ml_active :: int
  ml_loops :: "loop_state list"
  ml_acceptors :: "'c acceptor list"
  ml_closing :: close_phase
  ml_listeners_closed :: bool
  ml_taken :: "'c list"
  ml_returned :: "'c list"
  ml_shut :: "'c list"

definition ml_new :: "(pystr \<times> pystr) list \<Rightarrow> 'c ml" where
  "ml_new ts =
     \<lparr>ml_transports = ts, ml_queue = [], ml_closed = False, ml_ended = False, ml_error = None,
      ml_active = 0, ml_loops = [], ml_acceptors = [], ml_closing = NotClosing,
      ml_listeners_closed = False, ml_taken = [], ml_returned = [], ml_shut = []\<rparr>"

definition MultiListener_init :: "(pystr \<times> pystr) list \<Rightarrow> 'c ml res" where
  "MultiListener_init ts =
     (if ts = [] then Raise (Exn ValueError [Txt ''multi: at least one transport is required''])
      else Return (ml_new ts))"

definition ml_closed_error :: exn where
  "ml_closed_error = Exn RuntimeError [Txt ''listener closed'']"

definition ml_start :: "'c ml \<Rightarrow> 'c ml \<times> unit res" where
  "ml_start l =
     (if ml_closed l then (l, Raise ml_closed_error)
      else if ml_loops l \<noteq> [] then (l, Return ())
      else (l\<lparr>ml_active := int (length (ml_transports l)),
              ml_loops := replicate (length (ml_transports l)) LoopWaiting\<rparr>, Return ()))"

definition get_negotiate_response :: "json \<Rightarrow> 'c ml \<Rightarrow> negotiate_response" where
  "get_negotiate_response fp l =
     \<lparr>protocols = map (\<lambda>(p, a). \<lparr>pe_name = JStr p, pe_address = JStr a\<rparr>) (ml_transports l),
      nr_fingerprint = fp\<rparr>"

section \<open>The accept loops\<close>

text \<open>Loop \<open>i\<close> got connection \<open>c\<close> from its listener.\<close>

definition ml_loop_accept :: "nat \<Rightarrow> 'c \<Rightarrow> 'c ml \<Rightarrow> 'c ml" where
  "ml_loop_accept i c l =
     (let l = l\<lparr>ml_taken := ml_taken l @ [c]\<rparr> in
      if ml_closed l
      then l\<lparr>ml_shut := ml_shut l @ [c], ml_loops := (ml_loops l)[i := LoopDone]\<rparr>
      else l\<lparr>ml_queue := ml_queue l @ [(c, fst (ml_transports l ! i))]\<rparr>)"

text \<open>The listener of loop \<open>i\<close> raised.\<close>

definition ml_loop_fail :: "nat \<Rightarrow> exn \<Rightarrow> 'c ml \<Rightarrow> 'c ml" where
  "ml_loop_fail i e l =
     (let l' = (if \<not> ml_closed l then
                  (let l = l\<lparr>ml_active := ml_active l - 1\<rparr> in
                   if ml_active l = 0 then l\<lparr>ml_error := Some e, ml_ended := True\<rparr> else l)
                else l)
      in l'\<lparr>ml_loops := (ml_loops l')[i := LoopDone]\<rparr>)"

definition ml_loop_cancel :: "nat \<Rightarrow> 'c ml \<Rightarrow> 'c ml" where
  "ml_loop_cancel i l = l\<lparr>ml_loops := (ml_loops l)[i := LoopDone]\<rparr>"

section \<open>accept\<close>

definition ml_end_error :: "'c ml \<Rightarrow> exn" where
  "ml_end_error l = (case ml_error l of Some e \<Rightarrow> e | None \<Rightarrow> ml_closed_error)"

definition ml_accept_call :: "'c ml \<Rightarrow> 'c ml \<times> ('c \<times> pystr) res" where
  "ml_accept_call l =
     (if ml_ended l then (l, Raise (ml_end_error l))
      else (l\<lparr>ml_acceptors := ml_acceptors l @ [AccWaiting]\<rparr>, Blocked))"

text \<open>The task \<open>incoming\<close> of call \<open>k\<close> takes the head of the queue.\<close>

definition ml_get :: "nat \<Rightarrow> 'c ml \<Rightarrow> 'c ml" where
  "ml_get k l =
     (case ml_queue l of
        [] \<Rightarrow> l
      | (c, p) # q \<Rightarrow> l\<lparr>ml_queue := q, ml_acceptors := (ml_acceptors l)[k := AccGot c p]\<rparr>)"

text \<open>Call \<open>k\<close> resumes after its wait, or its caller cancels it.\<close>

definition ml_resume :: "nat \<Rightarrow> 'c ml \<Rightarrow> 'c ml \<times> ('c \<times> pystr) res" where
  "ml_resume k l =
     (let l' = l\<lparr>ml_acceptors := (ml_acceptors l)[k := AccDone]\<rparr> in
      case ml_acceptors l ! k of
        AccGot c p \<Rightarrow>
          if ml_ended l then (l'\<lparr>ml_shut := ml_shut l' @ [c]\<rparr>, Raise (ml_end_error l))
          else (l'\<lparr>ml_returned := ml_returned l' @ [c]\<rparr>, Return (c, p))
      | _ \<Rightarrow> (l', Raise (ml_end_error l)))"

text \<open>\<^verbatim>\<open>accept\<close> is \<^verbatim>\<open>accept_with\<close> without the protocol.\<close>

definition ml_accept :: "'c ml \<times> ('c \<times> pystr) res \<Rightarrow> 'c ml \<times> 'c res" where
  "ml_accept r = (fst r, map_res fst (snd r))"

definition ml_accept_cancel :: "nat \<Rightarrow> 'c ml \<Rightarrow> 'c ml" where
  "ml_accept_cancel k l =
     (let l' = l\<lparr>ml_acceptors := (ml_acceptors l)[k := AccDone]\<rparr> in
      case ml_acceptors l ! k of
        AccGot c p \<Rightarrow> l'\<lparr>ml_shut := ml_shut l' @ [c]\<rparr>
      | _ \<Rightarrow> l')"

section \<open>close\<close>

definition ml_close :: "'c ml \<Rightarrow> 'c ml" where
  "ml_close l =
     (if ml_closed l then l
      else l\<lparr>ml_closed := True, ml_ended := True, ml_closing := Cancelling\<rparr>)"

text \<open>Once the cancelled loops are done: the queue is emptied, every connection in it and every
  listener closed. \<open>results\<close> is what closing the listeners and then the connections gave, in that
  order; the first exception is raised after all of them.\<close>

definition ml_close_drain :: "unit res list \<Rightarrow> 'c ml \<Rightarrow> 'c ml \<times> unit res" where
  "ml_close_drain results l =
     (l\<lparr>ml_queue := [], ml_shut := ml_shut l @ map fst (ml_queue l), ml_listeners_closed := True,
        ml_closing := Finished\<rparr>,
      (case filter (\<lambda>r. \<exists>e. r = Raise e) results of r # _ \<Rightarrow> r | [] \<Rightarrow> Return ()))"

section \<open>All interleavings\<close>

inductive ml_step :: "'c ml \<Rightarrow> 'c ml \<Rightarrow> bool" where
  start: "ml_step l (fst (ml_start l))"
| loop_accept: "i < length (ml_loops l) \<Longrightarrow> ml_loops l ! i = LoopWaiting \<Longrightarrow>
    ml_step l (ml_loop_accept i c l)"
| loop_fail: "i < length (ml_loops l) \<Longrightarrow> ml_loops l ! i = LoopWaiting \<Longrightarrow>
    ml_step l (ml_loop_fail i e l)"
| loop_cancel: "i < length (ml_loops l) \<Longrightarrow> ml_closed l \<Longrightarrow> ml_step l (ml_loop_cancel i l)"
| accept_call: "ml_step l (fst (ml_accept_call l))"
| get: "k < length (ml_acceptors l) \<Longrightarrow> ml_acceptors l ! k = AccWaiting \<Longrightarrow>
    ml_step l (ml_get k l)"
| resume: "k < length (ml_acceptors l) \<Longrightarrow> ml_acceptors l ! k \<noteq> AccDone \<Longrightarrow>
    ml_ended l \<or> ml_acceptors l ! k \<noteq> AccWaiting \<Longrightarrow> ml_step l (fst (ml_resume k l))"
| accept_cancel: "k < length (ml_acceptors l) \<Longrightarrow> ml_acceptors l ! k \<noteq> AccDone \<Longrightarrow>
    ml_step l (ml_accept_cancel k l)"
| close: "ml_step l (ml_close l)"
| close_drain: "ml_closing l = Cancelling \<Longrightarrow> list_all (\<lambda>s. s = LoopDone) (ml_loops l) \<Longrightarrow>
    length results = length (ml_transports l) + length (ml_queue l) \<Longrightarrow>
    ml_step l (fst (ml_close_drain results l))"

inductive ml_reaches :: "'c ml \<Rightarrow> 'c ml \<Rightarrow> bool" where
  ml_here: "ml_reaches l l"
| ml_then: "ml_reaches l l' \<Longrightarrow> ml_step l' l'' \<Longrightarrow> ml_reaches l l''"

definition ml_reachable :: "'c ml \<Rightarrow> bool" where
  "ml_reachable l \<longleftrightarrow> (\<exists>ts l0. MultiListener_init ts = Return l0 \<and> ml_reaches l0 l)"

section \<open>Ownership of connections\<close>

primrec acc_held :: "'c acceptor \<Rightarrow> 'c multiset" where
  "acc_held AccWaiting = {#}"
| "acc_held (AccGot c p) = {#c#}"
| "acc_held AccDone = {#}"

definition ml_held :: "'c ml \<Rightarrow> 'c multiset" where
  "ml_held l = sum_list (map acc_held (ml_acceptors l))"

definition ml_owned :: "'c ml \<Rightarrow> bool" where
  "ml_owned l \<longleftrightarrow> mset (ml_taken l) =
     mset (map fst (ml_queue l)) + ml_held l + mset (ml_returned l) + mset (ml_shut l)"

lemma held_none:
  "k < length as \<Longrightarrow> acc_held (as ! k) = {#} \<Longrightarrow>
     sum_list (map acc_held (as[k := a])) = sum_list (map acc_held as) + acc_held a"
  using sum_list_map_update [of k as acc_held a] by simp

lemma held_release:
  "k < length as \<Longrightarrow> as ! k = AccGot c p \<Longrightarrow>
     sum_list (map acc_held as) = add_mset c (sum_list (map acc_held (as[k := AccDone])))"
  using sum_list_map_update [of k as acc_held AccDone] by simp

lemma ml_step_owned: "ml_step l l' \<Longrightarrow> ml_owned l \<Longrightarrow> ml_owned l'"
proof (induction rule: ml_step.induct)
  case (get k l)
  then show ?case
    by (cases "ml_queue l") (auto simp: ml_owned_def ml_held_def ml_get_def held_none ac_simps)
next
  case (resume k l)
  show ?case
  proof (cases "ml_acceptors l ! k")
    case (AccGot c p)
    note h = held_release [OF resume(1) AccGot]
    from resume AccGot show ?thesis
      by (simp add: ml_owned_def ml_held_def ml_resume_def Let_def h)
  qed (use resume held_none [of k "ml_acceptors l" AccDone] in
      \<open>simp_all add: ml_owned_def ml_held_def ml_resume_def Let_def\<close>)
next
  case (accept_cancel k l)
  show ?case
  proof (cases "ml_acceptors l ! k")
    case (AccGot c p)
    note h = held_release [OF accept_cancel(1) AccGot]
    from accept_cancel AccGot show ?thesis
      by (simp add: ml_owned_def ml_held_def ml_accept_cancel_def Let_def h)
  qed (use accept_cancel held_none [of k "ml_acceptors l" AccDone] in
      \<open>simp_all add: ml_owned_def ml_held_def ml_accept_cancel_def Let_def\<close>)
qed (auto simp: ml_owned_def ml_held_def ml_start_def ml_loop_accept_def ml_loop_fail_def ml_loop_cancel_def
    ml_accept_call_def ml_close_def ml_close_drain_def Let_def ac_simps)

section \<open>Well-formed states\<close>

definition waiting_loops :: "'c ml \<Rightarrow> nat" where
  "waiting_loops l = length (filter (\<lambda>s. s = LoopWaiting) (ml_loops l))"

definition ml_wf :: "'c ml \<Rightarrow> bool" where
  "ml_wf l \<longleftrightarrow> ml_transports l \<noteq> [] \<and>
     (ml_closed l \<longrightarrow> ml_ended l) \<and> (ml_closed l \<longleftrightarrow> ml_closing l \<noteq> NotClosing) \<and>
     (\<not> ml_closed l \<longrightarrow> ml_active l = int (waiting_loops l) \<and>
        (ml_ended l \<longleftrightarrow> ml_loops l \<noteq> [] \<and> waiting_loops l = 0) \<and>
        (ml_ended l \<longleftrightarrow> ml_error l \<noteq> None)) \<and>
     (ml_closing l = Finished \<longrightarrow> ml_queue l = [] \<and> waiting_loops l = 0 \<and> ml_listeners_closed l)"

lemma waiting_update:
  assumes "i < length xs" "xs ! i = LoopWaiting"
  shows "Suc (length (filter (\<lambda>s. s = LoopWaiting) (xs[i := LoopDone]))) =
    length (filter (\<lambda>s. s = LoopWaiting) xs)"
  using assms
proof (induction xs arbitrary: i)
  case (Cons x xs)
  then show ?case by (cases i) auto
qed simp

lemma waiting_le:
  "length (filter (\<lambda>s. s = LoopWaiting) (xs[i := LoopDone])) \<le> length (filter (\<lambda>s. s = LoopWaiting) xs)"
proof (induction xs arbitrary: i)
  case (Cons x xs)
  show ?case using Cons [of "i - 1"] by (cases i) auto
qed simp

lemma ml_step_wf: "ml_step l l' \<Longrightarrow> ml_wf l \<Longrightarrow> ml_wf l'"
proof (induction rule: ml_step.induct)
  case (loop_accept i l c)
  have w: "0 < waiting_loops l"
    using waiting_update [OF loop_accept(1,2)] unfolding waiting_loops_def by linarith
  show ?case
  proof (cases "ml_closed l")
    case True
    with loop_accept w show ?thesis
      by (auto simp: ml_wf_def ml_loop_accept_def waiting_loops_def)
  next
    case False
    with loop_accept w show ?thesis by (auto simp: ml_wf_def ml_loop_accept_def waiting_loops_def)
  qed
next
  case (loop_fail i l e)
  have u: "Suc (length (filter (\<lambda>s. s = LoopWaiting) ((ml_loops l)[i := LoopDone]))) = waiting_loops l"
    using waiting_update [OF loop_fail(1,2)] by (simp add: waiting_loops_def)
  show ?case
  proof (cases "ml_closed l")
    case True
    with loop_fail u show ?thesis
      by (auto simp: ml_wf_def ml_loop_fail_def waiting_loops_def Let_def)
  next
    case False
    with loop_fail u have "ml_active l = int (waiting_loops l)" "ml_loops l \<noteq> []" "\<not> ml_ended l"
      by (auto simp: ml_wf_def)
    with False loop_fail u show ?thesis
      by (auto simp: ml_wf_def ml_loop_fail_def waiting_loops_def Let_def)
  qed
next
  case (loop_cancel i l)
  then show ?case
    using waiting_le [of "ml_loops l" i] by (auto simp: ml_wf_def ml_loop_cancel_def waiting_loops_def)
next
  case (get k l)
  then show ?case by (cases "ml_queue l") (auto simp: ml_wf_def ml_get_def waiting_loops_def)
next
  case (resume k l)
  then show ?case
    by (cases "ml_acceptors l ! k") (auto simp: ml_wf_def ml_resume_def waiting_loops_def Let_def)
next
  case (accept_cancel k l)
  then show ?case
    by (cases "ml_acceptors l ! k") (auto simp: ml_wf_def ml_accept_cancel_def waiting_loops_def Let_def)
next
  case (close_drain l results)
  then have "waiting_loops l = 0" by (auto simp: waiting_loops_def list_all_iff filter_empty_conv)
  with close_drain show ?case by (auto simp: ml_wf_def ml_close_drain_def waiting_loops_def)
qed (auto simp: ml_wf_def ml_start_def ml_accept_call_def ml_close_def waiting_loops_def)

lemma ml_reaches_inv:
  assumes "ml_reaches l l'" "ml_owned l \<and> ml_wf l"
  shows "ml_owned l' \<and> ml_wf l'"
  using assms by (induction rule: ml_reaches.induct) (auto intro: ml_step_owned ml_step_wf)

lemma ml_reachable_inv: "ml_reachable l \<Longrightarrow> ml_owned l \<and> ml_wf l"
proof -
  assume "ml_reachable l"
  then obtain ts l0 where "MultiListener_init ts = Return l0" "ml_reaches l0 l"
    by (auto simp: ml_reachable_def)
  moreover from this(1) have "ml_owned l0 \<and> ml_wf l0"
    by (auto simp: MultiListener_init_def ml_new_def ml_owned_def ml_held_def ml_wf_def waiting_loops_def
        split: if_splits)
  ultimately show ?thesis using ml_reaches_inv by blast
qed

lemma ml_step_ended:
  "ml_step l l' \<Longrightarrow> ml_wf l \<Longrightarrow> ml_ended l \<Longrightarrow> ml_ended l' \<and> ml_returned l' = ml_returned l"
proof (induction rule: ml_step.induct)
  case (resume k l)
  then show ?case by (cases "ml_acceptors l ! k") (auto simp: ml_resume_def Let_def)
next
  case (accept_cancel k l)
  then show ?case by (cases "ml_acceptors l ! k") (auto simp: ml_accept_cancel_def Let_def)
next
  case (get k l)
  then show ?case by (cases "ml_queue l") (auto simp: ml_get_def)
qed (auto simp: ml_start_def ml_loop_accept_def ml_loop_fail_def ml_loop_cancel_def
    ml_accept_call_def ml_close_def ml_close_drain_def Let_def)

lemma ml_reaches_ended:
  assumes "ml_reaches l l'" "ml_owned l \<and> ml_wf l" "ml_ended l"
  shows "ml_ended l' \<and> ml_returned l' = ml_returned l"
  using assms
proof (induction rule: ml_reaches.induct)
  case (ml_then l l' l'')
  then show ?case using ml_step_ended [of l' l''] ml_reaches_inv [of l l'] by auto
qed simp

text \<open>A short run for the witnesses: one transport, one connection taken and left in the queue, close.\<close>

definition toy_ml :: "nat ml" where
  "toy_ml = ml_loop_accept 0 7 (fst (ml_start (ml_new [(u ''tcp'', u ''h:1'')])))"

definition toy_ml_dead :: "nat ml" where
  "toy_ml_dead = ml_loop_fail 0 ml_closed_error toy_ml"

definition toy_ml_closed :: "nat ml" where
  "toy_ml_closed = fst (ml_close_drain [Return (), Return ()] (ml_loop_cancel 0 (ml_close toy_ml)))"

lemma toy_ml_reachable: "ml_reachable toy_ml" "ml_reachable toy_ml_dead" "ml_reachable toy_ml_closed"
proof -
  let ?l0 = "ml_new [(u ''tcp'', u ''h:1'')] :: nat ml"
  have "ml_reaches ?l0 (fst (ml_start ?l0))" by (intro ml_then [OF ml_here] ml_step.start)
  then have r: "ml_reaches ?l0 toy_ml" unfolding toy_ml_def
    by (rule ml_then) (rule ml_step.loop_accept; simp add: ml_start_def ml_new_def)
  have w: "0 < length (ml_loops toy_ml)" "ml_loops toy_ml ! 0 = LoopWaiting"
    by (simp_all add: toy_ml_def ml_start_def ml_new_def ml_loop_accept_def)
  have "ml_reaches ?l0 toy_ml_dead" unfolding toy_ml_dead_def
    by (rule ml_then [OF r]) (rule ml_step.loop_fail [OF w])
  moreover have "ml_reaches ?l0 toy_ml_closed"
  proof -
    have "ml_reaches ?l0 (ml_close toy_ml)" by (rule ml_then [OF r ml_step.close])
    then have "ml_reaches ?l0 (ml_loop_cancel 0 (ml_close toy_ml))"
      by (rule ml_then) (rule ml_step.loop_cancel;
        simp add: toy_ml_def ml_start_def ml_new_def ml_loop_accept_def ml_close_def)
    then show ?thesis unfolding toy_ml_closed_def
      by (rule ml_then) (rule ml_step.close_drain;
        simp add: toy_ml_def ml_start_def ml_new_def ml_loop_accept_def ml_close_def ml_loop_cancel_def)
  qed
  moreover have "MultiListener_init [(u ''tcp'', u ''h:1'')] = Return ?l0"
    by (simp add: MultiListener_init_def)
  ultimately show "ml_reachable toy_ml" "ml_reachable toy_ml_dead" "ml_reachable toy_ml_closed"
    using r unfolding ml_reachable_def by blast+
qed

lemmas toy_ml_eval = toy_ml_closed_def toy_ml_dead_def toy_ml_def ml_start_def ml_new_def ml_loop_accept_def
  ml_close_def ml_loop_cancel_def ml_close_drain_def ml_loop_fail_def ml_held_def waiting_loops_def Let_def

section \<open>Properties\<close>



text \<open>C18. When \<open>close\<close> has finished and no accept is pending, every connection that was never returned to a
  caller has been closed, the queue is empty, all loops are over and all listeners are closed.\<close>

theorem multi_close_no_leak:
  assumes "ml_reachable l" "ml_closing l = Finished" "\<forall>a \<in> set (ml_acceptors l). a = AccDone"
  shows "mset (ml_taken l) = mset (ml_returned l) + mset (ml_shut l) \<and> ml_queue l = [] \<and>
    waiting_loops l = 0 \<and> ml_listeners_closed l"
proof -
  have i: "ml_owned l" "ml_wf l" using ml_reachable_inv [OF assms(1)] by simp_all
  have "sum_list (map acc_held as) = {#}" if "\<forall>a \<in> set as. a = AccDone" for as :: "'a acceptor list"
    using that by (induction as) auto
  with assms(3) have "ml_held l = {#}" by (simp add: ml_held_def)
  with i assms(2) show ?thesis by (auto simp: ml_owned_def ml_wf_def)
qed

theorem multi_close_no_leak_witness:
  "mset (ml_taken toy_ml_closed) = mset (ml_returned toy_ml_closed) + mset (ml_shut toy_ml_closed) \<and>
   ml_shut toy_ml_closed = [7]"
  using multi_close_no_leak [OF toy_ml_reachable(3)] by (simp add: toy_ml_eval)

text \<open>The listener stops on its own exactly when every accept loop has failed: as long as one loop
  still waits for its listener, the failure of the others does not end it.\<close>

theorem multi_ends_only_when_all_fail:
  assumes "ml_reachable l" "\<not> ml_closed l"
  shows "ml_ended l \<longleftrightarrow> ml_loops l \<noteq> [] \<and> waiting_loops l = 0"
  using ml_reachable_inv [OF assms(1)] assms(2) by (simp add: ml_wf_def)

theorem multi_ends_only_when_all_fail_witness:
  "\<not> ml_ended toy_ml \<and> ml_ended toy_ml_dead"
  using multi_ends_only_when_all_fail [OF toy_ml_reachable(1)]
    multi_ends_only_when_all_fail [OF toy_ml_reachable(2)] by (simp add: toy_ml_eval)

text \<open>Once it has ended (closed, or every loop failed) it never hands out a connection again: accepting
  raises even while accepted connections are still queued, and calls that already hold one close it.\<close>

theorem multi_ended_refuses:
  assumes "ml_reachable l" "ml_ended l" "ml_reaches l l'"
  shows "ml_returned l' = ml_returned l \<and> ml_accept_call l' = (l', Raise (ml_end_error l'))"
  using ml_reaches_ended [OF assms(3) ml_reachable_inv [OF assms(1)] assms(2)]
  by (simp add: ml_accept_call_def)

theorem multi_ended_refuses_witness:
  "ml_accept_call toy_ml_dead = (toy_ml_dead, Raise (ml_end_error toy_ml_dead)) \<and>
   ml_queue toy_ml_dead = [(7, u ''tcp'')]"
  using multi_ended_refuses [OF toy_ml_reachable(2) _ ml_here] by (simp add: toy_ml_eval)

end
