(* ===== verification/NodeOps.thy ===== *)
theory NodeOps
  imports Envelope
begin

text \<open>
  What a node of \<^verbatim>\<open>p2p/node.py\<close> says on its connections: the coroutines \<open>connect\<close>, \<open>accept\<close> and
  \<open>dial\<close> that \<^verbatim>\<open>_setup\<close> runs on a fresh connection to the relay, and how the control loop reads a
  message. They combine the handshake, the encrypted connection and the envelopes; a connection to a
  peer is an encrypted connection over the encrypted connection to the relay.

  The coins of a handshake are a pair: those of the key pair or the encapsulation and those of the
  signature. On an error the caller closes the underlying connection, so only the error is returned.
\<close>

type_synonym coins = "nat \<times> nat"

record p2p_env =
  pe_hs :: hs_env
  pe_aead :: aead
  pe_now :: "nat \<Rightarrow> int"
  pe_verify :: "verify_fn option"

definition relay_hs ::
  "p2p_env \<Rightarrow> 's conn_ops \<Rightarrow> coins \<Rightarrow> identity \<Rightarrow> bytes \<Rightarrow> 's \<Rightarrow> 's \<times> 's secure_conn res" where
  "relay_hs P ops c i fp s =
     handshake_initiator (pe_hs P) ops (fst c) (snd c) i fp (pe_verify P) s"

definition sc_ops :: "p2p_env \<Rightarrow> 's conn_ops \<Rightarrow> 's secure_conn conn_ops" where
  "sc_ops P ops = secure_ops (pe_aead P) (pe_now P) ops"

definition op_connect ::
  "p2p_env \<Rightarrow> 's conn_ops \<Rightarrow> coins \<Rightarrow> identity \<Rightarrow> bytes \<Rightarrow> 's \<Rightarrow> 's secure_conn res" where
  "op_connect P ops c i relay_fp s =
     bind_res (snd (relay_hs P ops c i relay_fp s)) (\<lambda>sc.
       (case write_envelope (sc_ops P ops) ANNOUNCE
               (announce_payload (bytes_hex (fingerprint (pe_hs P) i)) []) sc of
          (sc', r) \<Rightarrow> bind_res r (\<lambda>_. Return sc')))"

text \<open>The requester of an incoming relay, from the payload of the control message.\<close>

definition requester_of :: "json \<Rightarrow> bytes res" where
  "requester_of pl =
     bind_res (json_item (u ''requester_fingerprint'') pl) (\<lambda>v.
       case v of
         JStr t \<Rightarrow> bind_res (bytes_fromhex t) (\<lambda>fp.
           if length fp \<noteq> 64 then Raise (Exn ValueError [Txt ''requester fingerprint must be 64 bytes''])
           else Return fp)
       | _ \<Rightarrow> Raise (Exn TypeError [Txt ''fromhex() argument must be str'']))"

definition op_accept ::
  "p2p_env \<Rightarrow> 's conn_ops \<Rightarrow> coins \<Rightarrow> coins \<Rightarrow> identity \<Rightarrow> bytes \<Rightarrow> bytes \<Rightarrow> json \<Rightarrow> 's \<Rightarrow>
     's secure_conn secure_conn res" where
  "op_accept P ops c1 c2 i relay_fp requester_fp pl s =
     bind_res (snd (relay_hs P ops c1 i relay_fp s)) (\<lambda>sc.
     bind_res (json_item (u ''session_token'') pl) (\<lambda>token.
       (case write_envelope (sc_ops P ops) ACCEPT_RELAY (accept_relay_payload token) sc of
          (sc', r) \<Rightarrow> bind_res r (\<lambda>_.
            snd (handshake_responder (pe_hs P) (sc_ops P ops) (fst c2) (snd c2) i requester_fp
                   (pe_verify P) sc')))))"

text \<open>A parsed value in an f-string; only the text of a string is spelled out.\<close>

definition json_text :: "json \<Rightarrow> exn_part" where
  "json_text v = (case v of JStr s \<Rightarrow> Str s | _ \<Rightarrow> Txt ''<value>'')"

text \<open>The relay's answer to a request.\<close>

definition check_ack :: "json \<Rightarrow> unit res" where
  "check_ack ack =
     bind_res (json_item (u ''type'') ack) (\<lambda>t.
       if t \<noteq> JStr RELAY_ACK
       then Raise (Exn ConnectionError [Txt ''expected RELAY_ACK, got '', json_text t])
       else
         bind_res (json_item (u ''payload'') ack) (\<lambda>pl.
         bind_res (json_get (u ''success'') (JBool False) pl) (\<lambda>ok.
           if json_truth ok then Return ()
           else bind_res (json_get (u ''reason'') (JStr (u ''unknown'')) pl) (\<lambda>reason.
             Raise (Exn ConnectionError [Txt ''relay proxy failed: '', json_text reason])))))"

definition op_dial ::
  "p2p_env \<Rightarrow> 's conn_ops \<Rightarrow> coins \<Rightarrow> coins \<Rightarrow> identity \<Rightarrow> bytes \<Rightarrow> bytes \<Rightarrow> 's \<Rightarrow>
     's secure_conn secure_conn res" where
  "op_dial P ops c1 c2 i relay_fp peer_fp s =
     bind_res (snd (relay_hs P ops c1 i relay_fp s)) (\<lambda>sc.
       (case write_envelope (sc_ops P ops) RELAY_REQ (relay_req_payload (bytes_hex peer_fp)) sc of
          (sc1, r) \<Rightarrow> bind_res r (\<lambda>_.
            (case read_envelope (sc_ops P ops) sc1 of
               (sc2, a) \<Rightarrow> bind_res a (\<lambda>ack. bind_res (check_ack ack) (\<lambda>_.
                 snd (handshake_initiator (pe_hs P) (sc_ops P ops) (fst c2) (snd c2) i peer_fp
                        (pe_verify P) sc2)))))))"

text \<open>One turn of the control loop: ignore the message, start a proxy, or stop the session.\<close>

datatype control_action = CtlIgnore | CtlProxy json | CtlLost exn | CtlWait

definition control_lost :: "exn \<Rightarrow> exn" where
  "control_lost e = Exn ConnectionError [Txt ''relay control connection lost: '', Exc e]"

definition control_turn :: "json res \<Rightarrow> control_action" where
  "control_turn r =
     (case bind_res r (\<lambda>env. bind_res (json_item (u ''type'') env) (\<lambda>t.
             if t = JStr INCOMING_RELAY
             then bind_res (json_item (u ''payload'') env) (\<lambda>pl. Return (Some pl))
             else Return None)) of
        Return None \<Rightarrow> CtlIgnore
      | Return (Some pl) \<Rightarrow> CtlProxy pl
      | Raise e \<Rightarrow> CtlLost (control_lost e)
      | Blocked \<Rightarrow> CtlWait)"

section \<open>Lemmas\<close>

lemma bind_snd_Return:
  "bind_res (snd x) f = Return y \<longleftrightarrow> (\<exists>a b. x = (a, Return b) \<and> f b = Return y)"
  by (cases x) (auto simp: res_simps)

lemma op_dial_Return:
  "op_dial P ops c1 c2 i relay_fp peer_fp s = Return conn \<longleftrightarrow>
     (\<exists>s1 sc sc1 n sc2 ack sc3.
        handshake_initiator (pe_hs P) ops (fst c1) (snd c1) i relay_fp (pe_verify P) s = (s1, Return sc) \<and>
        write_envelope (sc_ops P ops) RELAY_REQ (relay_req_payload (bytes_hex peer_fp)) sc =
          (sc1, Return n) \<and>
        read_envelope (sc_ops P ops) sc1 = (sc2, Return ack) \<and> check_ack ack = Return () \<and>
        handshake_initiator (pe_hs P) (sc_ops P ops) (fst c2) (snd c2) i peer_fp (pe_verify P) sc2 =
          (sc3, Return conn))"
proof -
  have b: "(case x of (sc', r) \<Rightarrow> bind_res r (g sc')) = Return y \<longleftrightarrow>
      (\<exists>sc' n. x = (sc', Return n) \<and> g sc' n = Return y)" for x :: "'x \<times> 'y res" and g and y :: 'z
    by (cases x) (auto simp: res_simps)
  show ?thesis
    unfolding op_dial_def relay_hs_def bind_snd_Return b
    by (auto simp: res_simps prod_eq_iff)
qed

text \<open>What a message of the relay may look like to be accepted as an acknowledgement.\<close>

lemma check_ack_Return:
  "check_ack ack = Return () \<longleftrightarrow>
     (\<exists>kvs pl ok. ack = JObj kvs \<and> map_of kvs (u ''type'') = Some (JStr RELAY_ACK) \<and>
        map_of kvs (u ''payload'') = Some (JObj pl) \<and> map_of pl (u ''success'') = Some ok \<and> json_truth ok)"
  by (cases ack)
    (auto simp: check_ack_def json_item_def json_get_def res_simps split: option.splits json.splits if_splits)


section \<open>Dialling a peer through an honest relay\<close>

lemma honest_ack:
  "check_ack (envelope RELAY_ACK (JObj [(u ''success'', JBool True)])) = Return ()"
  by (simp add: check_ack_def envelope_def json_item_def json_get_def u_def)

lemma relay_req_plain: "json_plain (relay_req_payload (bytes_hex fp))"
  by (simp add: relay_req_payload_def bytes_hex_scalar u_def scalar_def)

context conn_stream
begin

text \<open>The handshake with the relay: afterwards the encrypted connection will deliver what the relay's frames
  carry, and can write messages of the lengths \<open>ns\<close>.\<close>

lemma relay_leg:
  assumes E: "kem_backend (pe_hs P) = Some K" "blake3_ok (blake3 (pe_hs P))" "aead_ok (pe_aead P)"
    and h: "initiator_hello (pe_hs P) K (fst c1) (snd c1) i = Return hello1" "length hello1 = 8798"
      "unmarshal_hello body1 = Return reply1" "length body1 \<le> MAX_MESSAGE_SIZE"
      "check_hello (pe_hs P) MSG_HELLO_REPLY ''HELLO_REPLY'' relay_fp (pe_verify P) reply1 = Return ()"
      "kem_decrypt K (snd (kem_keypair K (fst c1))) (payload reply1) = Return ss1"
    and rms: "list_all msg_ok rms" "length rms \<le> 2 ^ 64"
    and keys: "keys = derive_keys (pe_hs P) ss1"
    and l: "link s (frame body1 @ data_frames (pe_aead P) (responder_key keys) (responder_nonce_pfx keys) 0 rms) out"
    and w: "wok s (8798 # map (\<lambda>n. n + 33) (filter (\<lambda>n. 0 < n) ns))" "list_all (\<lambda>n. n + 29 \<le> MAX_MESSAGE_SIZE) ns" "length ns \<le> 2 ^ 64"
  obtains s1 where "relay_hs P ops c1 i relay_fp s = (s1, Return (sc_bind s1 (SecureConn_init keys True)))"
    "sc_link (pe_aead P) link (out @ hello1) (sc_bind s1 (SecureConn_init keys True)) (concat (map snd rms)) []"
    "sc_wok wok (sc_bind s1 (SecureConn_init keys True)) ns"
proof -
  let ?A = "pe_aead P" and ?c = "\<lambda>s. sc_bind s (SecureConn_init keys True)" and ?ns = "map (\<lambda>n. n + 33) (filter (\<lambda>n. 0 < n) ns)"
  have "wok s (length hello1 # ?ns)" using w(1) h(2) by simp
  then obtain s1 where s1: "handshake_initiator (pe_hs P) ops (fst c1) (snd c1) i relay_fp (pe_verify P) s =
      (s1, Return (?c s1))" "link s1 (data_frames ?A (responder_key keys) (responder_nonce_pfx keys) 0 rms)
        (out @ hello1)" "wok s1 ?ns"
    using initiator_completes [OF l h(4) _ E(1) h(1,3,5,6)] unfolding keys by metis
  have "sc_link ?A link (out @ hello1) (?c s1) (concat (map snd rms)) []"
    using s1(2) fresh_sc_link [OF E(3,2) rms, of "?c s1" s1 ss1 True]
    by (simp add: keys sc_bind_def SecureConn_init_def)
  moreover have "length (filter (\<lambda>n. 0 < n) ns) \<le> 2 ^ 64" using w(3) le_trans [OF length_filter_le] by blast
  then have "sc_wok wok (?c s1) ns"
    using s1(3) w(2) by (auto simp: sc_wok_def sc_bind_def SecureConn_init_def list_all_iff Let_def)
  ultimately show thesis using s1(1) by (intro that) (simp_all add: relay_hs_def)
qed

text \<open>The relay answers the handshake, acknowledges, and passes on the peer's reply; the pieces may be
  cut into frames in any way. Afterwards the carrier of the new connection holds what follows the reply, and
  the relay has received the request and the HELLO for the peer.\<close>

lemma op_dial_completes:
  assumes E: "kem_backend (pe_hs P) = Some K" "blake3_ok (blake3 (pe_hs P))" "aead_ok (pe_aead P)"
    and h1: "initiator_hello (pe_hs P) K (fst c1) (snd c1) i = Return hello1" "length hello1 = 8798"
      "unmarshal_hello body1 = Return reply1" "length body1 \<le> MAX_MESSAGE_SIZE"
      "check_hello (pe_hs P) MSG_HELLO_REPLY ''HELLO_REPLY'' relay_fp (pe_verify P) reply1 = Return ()"
      "kem_decrypt K (snd (kem_keypair K (fst c1))) (payload reply1) = Return ss1"
    and h2: "initiator_hello (pe_hs P) K (fst c2) (snd c2) i = Return hello2" "length hello2 = 8798"
      "unmarshal_hello body2 = Return reply2" "length body2 \<le> MAX_MESSAGE_SIZE"
      "check_hello (pe_hs P) MSG_HELLO_REPLY ''HELLO_REPLY'' peer_fp (pe_verify P) reply2 = Return ()"
      "kem_decrypt K (snd (kem_keypair K (fst c2))) (payload reply2) = Return ss2"
    and ack: "json_plain ap" "length (envelope_line RELAY_ACK ap) < ENVELOPE_LIMIT"
      "check_ack (envelope RELAY_ACK ap) = Return ()"
    and line: "line = envelope_line RELAY_REQ (relay_req_payload (bytes_hex peer_fp))"
    and rms: "list_all msg_ok rms" "length rms \<le> 2 ^ 64"
      "concat (map snd rms) = envelope_line RELAY_ACK ap @ [10] @ frame body2 @ rest"
    and keys: "keys = derive_keys (pe_hs P) ss1"
    and l: "link s (frame body1 @ data_frames (pe_aead P) (responder_key keys) (responder_nonce_pfx keys) 0 rms) out"
    and w: "wok s (8798 # map (\<lambda>n. n + 33) (filter (\<lambda>n. 0 < n) ((length line + 1) # 8798 # ns)))"
      "list_all (\<lambda>n. n + 29 \<le> MAX_MESSAGE_SIZE) ((length line + 1) # 8798 # ns)" "length ns + 2 \<le> 2 ^ 64"
  shows "\<exists>sc. op_dial P ops c1 c2 i relay_fp peer_fp s = Return (sc_bind sc (SecureConn_init (derive_keys (pe_hs P) ss2) True)) \<and>
    sc_link (pe_aead P) link (out @ hello1) sc rest (line @ [10] @ hello2) \<and> sc_wok wok sc ns"
proof -
  let ?A = "pe_aead P" and ?E = "pe_hs P" and ?ops = "sc_ops P ops"
  let ?c = "\<lambda>s. sc_bind s (SecureConn_init keys True)"
  have st: "conn_stream ?ops (sc_link ?A link b) (sc_wok wok)" for b
    unfolding sc_ops_def by (rule secure_stream)
  have w3: "length ((length line + 1) # 8798 # ns) \<le> 2 ^ 64" using w(3) by simp
  obtain s1 where s1: "relay_hs P ops c1 i relay_fp s = (s1, Return (?c s1))"
    "sc_link ?A link (out @ hello1) (?c s1) (concat (map snd rms)) []"
    "sc_wok wok (?c s1) ((length line + 1) # 8798 # ns)"
    by (rule relay_leg [OF E h1 rms(1,2) keys l w(1,2) w3])
  obtain sc1 where sc1: "write_envelope ?ops RELAY_REQ (relay_req_payload (bytes_hex peer_fp)) (?c s1) =
      (sc1, Return (length line + 1))"
    "sc_link ?A link (out @ hello1) sc1 (envelope_line RELAY_ACK ap @ [10] @ (frame body2 @ rest)) ([] @ line @ [10])"
    "sc_wok wok sc1 (8798 # ns)"
    using conn_stream.write_envelope_puts [OF st s1(2) s1(3) [unfolded line] _ relay_req_plain] unfolding rms(3) line
    by (metis RELAY_REQ_def u_scalar append.assoc)
  obtain sc2 where sc2: "read_envelope ?ops sc1 = (sc2, Return (envelope RELAY_ACK ap))"
    "sc_link ?A link (out @ hello1) sc2 (frame body2 @ rest) ([] @ line @ [10])" "sc_wok wok sc2 (8798 # ns)"
    using conn_stream.read_envelope_delivers [OF st sc1(2) _ ack(1,2)] sc1(3)
    by (metis RELAY_ACK_def u_scalar)
  have "sc_wok wok sc2 (length hello2 # ns)" using sc2(3) h2(2) by simp
  then obtain sc3 where "handshake_initiator ?E ?ops (fst c2) (snd c2) i peer_fp (pe_verify P) sc2 =
      (sc3, Return (sc_bind sc3 (SecureConn_init (derive_keys ?E ss2) True)))"
    "sc_link ?A link (out @ hello1) sc3 rest (([] @ line @ [10]) @ hello2)" "sc_wok wok sc3 ns"
    using conn_stream.initiator_completes [OF st sc2(2) h2(4) _ E(1) h2(1,3,5,6)] by metis
  then show ?thesis
    using s1(1) sc1(1) sc2(1) ack(3) by (intro exI [of _ sc3]) (simp add: op_dial_Return relay_hs_def)
qed

text \<open>The accepting side: the relay gets the token and the peer's HELLO is answered.\<close>

lemma op_accept_completes:
  assumes E: "kem_backend (pe_hs P) = Some K" "blake3_ok (blake3 (pe_hs P))" "aead_ok (pe_aead P)"
    and h1: "initiator_hello (pe_hs P) K (fst c1) (snd c1) i = Return hello1" "length hello1 = 8798"
      "unmarshal_hello body1 = Return reply1" "length body1 \<le> MAX_MESSAGE_SIZE"
      "check_hello (pe_hs P) MSG_HELLO_REPLY ''HELLO_REPLY'' relay_fp (pe_verify P) reply1 = Return ()"
      "kem_decrypt K (snd (kem_keypair K (fst c1))) (payload reply1) = Return ss1"
    and h2: "unmarshal_hello body2 = Return hello2" "length body2 \<le> MAX_MESSAGE_SIZE"
      "check_hello (pe_hs P) MSG_HELLO ''HELLO'' requester_fp (pe_verify P) hello2 = Return ()"
      "responder_reply (pe_hs P) K (fst c2) (snd c2) i (payload hello2) = Return (reply2, ss2)" "length reply2 = 8798"
    and tok: "json_item (u ''session_token'') pl = Return token" "json_plain token"
      "line = envelope_line ACCEPT_RELAY (accept_relay_payload token)"
    and rms: "list_all msg_ok rms" "length rms \<le> 2 ^ 64" "concat (map snd rms) = frame body2 @ rest"
    and keys: "keys = derive_keys (pe_hs P) ss1"
    and l: "link s (frame body1 @ data_frames (pe_aead P) (responder_key keys) (responder_nonce_pfx keys) 0 rms) out"
    and w: "wok s (8798 # map (\<lambda>n. n + 33) (filter (\<lambda>n. 0 < n) ((length line + 1) # 8798 # ns)))"
      "list_all (\<lambda>n. n + 29 \<le> MAX_MESSAGE_SIZE) ((length line + 1) # 8798 # ns)" "length ns + 2 \<le> 2 ^ 64"
  shows "\<exists>sc. op_accept P ops c1 c2 i relay_fp requester_fp pl s =
      Return (sc_bind sc (SecureConn_init (derive_keys (pe_hs P) ss2) False)) \<and>
    sc_link (pe_aead P) link (out @ hello1) sc rest (line @ [10] @ reply2) \<and> sc_wok wok sc ns"
proof -
  let ?A = "pe_aead P" and ?E = "pe_hs P" and ?ops = "sc_ops P ops"
  let ?c = "\<lambda>s. sc_bind s (SecureConn_init keys True)"
  have st: "conn_stream ?ops (sc_link ?A link b) (sc_wok wok)" for b
    unfolding sc_ops_def by (rule secure_stream)
  have w3: "length ((length line + 1) # 8798 # ns) \<le> 2 ^ 64" using w(3) by simp
  obtain s1 where s1: "relay_hs P ops c1 i relay_fp s = (s1, Return (?c s1))"
    "sc_link ?A link (out @ hello1) (?c s1) (concat (map snd rms)) []"
    "sc_wok wok (?c s1) ((length line + 1) # 8798 # ns)"
    by (rule relay_leg [OF E h1 rms(1,2) keys l w(1,2) w3])
  have p: "json_plain (accept_relay_payload token)"
    using tok(2) by (simp add: accept_relay_payload_def u_def scalar_def)
  obtain sc1 where sc1: "write_envelope ?ops ACCEPT_RELAY (accept_relay_payload token) (?c s1) =
      (sc1, Return (length line + 1))"
    "sc_link ?A link (out @ hello1) sc1 (frame body2 @ rest) ([] @ line @ [10])" "sc_wok wok sc1 (8798 # ns)"
    using conn_stream.write_envelope_puts [OF st s1(2) s1(3) [unfolded tok(3)] _ p] unfolding rms(3) tok(3)
    by (metis ACCEPT_RELAY_def u_scalar append.assoc)
  have "sc_wok wok sc1 (length reply2 # ns)" using sc1(3) h2(5) by simp
  then obtain sc2 where "handshake_responder ?E ?ops (fst c2) (snd c2) i requester_fp (pe_verify P) sc1 =
      (sc2, Return (sc_bind sc2 (SecureConn_init (derive_keys ?E ss2) False)))"
    "sc_link ?A link (out @ hello1) sc2 rest (([] @ line @ [10]) @ reply2)" "sc_wok wok sc2 ns"
    using conn_stream.responder_completes [OF st sc1(2) h2(2,1,3) E(1) h2(4)] by metis
  then show ?thesis
    using s1(1) sc1(1) tok(1) by (intro exI [of _ sc2]) (simp add: op_accept_def)
qed

end

section \<open>Honest messages\<close>

lemma dump_hex: "concat (map dump_char (bytes_hex fp)) = bytes_hex fp"
proof -
  have d: "dump_char (hex_digit n) = [hex_digit n]" if "n < 16" for n
    using hex_digit_props [OF that] by (auto simp: dump_char_def)
  have "concat (map dump_char [hex_digit (unat b div 16), hex_digit (unat b mod 16)]) =
      [hex_digit (unat b div 16), hex_digit (unat b mod 16)]" for b :: byte
    using d [of "unat b div 16"] d [of "unat b mod 16"] unat_byte [of b] by simp
  then show ?thesis by (induction fp) (simp_all add: bytes_hex_def)
qed

lemma length_bytes_hex [simp]: "length (bytes_hex fp) = 2 * length fp"
  by (induction fp) (simp_all add: bytes_hex_def)

lemma dump_u:
  assumes "list_all (\<lambda>c. 32 \<le> c \<and> c \<le> 126 \<and> c \<noteq> 34 \<and> c \<noteq> 92) s"
  shows "dump_str s = 34 # s @ [34]"
  using assms by (induction s) (auto simp: dump_str_def dump_char_def)

lemma length_relay_req:
  "length (envelope_line RELAY_REQ (relay_req_payload (bytes_hex fp))) = 2 * length fp + 60"
  by (simp add: envelope_line_def envelope_def relay_req_payload_def RELAY_REQ_def dump_u u_def
      dump_str_def [of "bytes_hex fp"] dump_hex)

definition ack_ok :: json where
  "ack_ok = JObj [(u ''success'', JBool True)]"

lemma ack_ok_props:
  "json_plain ack_ok" "length (envelope_line RELAY_ACK ack_ok) < ENVELOPE_LIMIT"
  "check_ack (envelope RELAY_ACK ack_ok) = Return ()"
  by (simp_all add: ack_ok_def envelope_line_def envelope_def RELAY_ACK_def dump_u u_def scalar_def
      ENVELOPE_LIMIT_def check_ack_def json_item_def json_get_def)

lemma fingerprint_length: "blake3_ok (blake3 E) \<Longrightarrow> length (fingerprint E i) = 64"
  by (simp add: fingerprint_def compute_fingerprint_def blake3_ok_def FINGERPRINT_SIZE_def)

lemma honest_dial:
  assumes "env_ok (pe_hs P)" "aead_ok (pe_aead P)" "pe_verify P = None"
    and "identity_generate (pe_hs P) gi = Return i" "identity_generate (pe_hs P) gr = Return r"
    and "identity_generate (pe_hs P) gp = Return p"
  shows "\<exists>K reply1 ss1 reply2 ss2. kem_backend (pe_hs P) = Some K \<and> length reply1 = 8798 \<and> length reply2 = 8798 \<and>
    responder_reply (pe_hs P) K kr sr r (fst (kem_keypair K (fst c1))) = Return (reply1, ss1) \<and>
    responder_reply (pe_hs P) K kp sp p (fst (kem_keypair K (fst c2))) = Return (reply2, ss2) \<and>
    (\<forall>rms rest s out.
      list_all msg_ok rms \<and> length rms \<le> 2 ^ 64 \<and>
      concat (map snd rms) = envelope_line RELAY_ACK ack_ok @ [10] @ reply2 @ rest \<and>
      tcp_link s (reply1 @ data_frames (pe_aead P) (responder_key (derive_keys (pe_hs P) ss1))
        (responder_nonce_pfx (derive_keys (pe_hs P) ss1)) 0 rms) out \<longrightarrow>
      (\<exists>conn. op_dial P tcp_ops c1 c2 i (fingerprint (pe_hs P) r) (fingerprint (pe_hs P) p) s = Return conn \<and>
        send_key conn = initiator_key (derive_keys (pe_hs P) ss2) \<and>
        recv_key conn = responder_key (derive_keys (pe_hs P) ss2)))"
proof -
  let ?E = "pe_hs P"
  obtain K where K: "kem_backend ?E = Some K" and b3: "blake3_ok (blake3 ?E)"
    using assms(1) by (auto simp: env_ok_def)
  obtain h1 where h1: "initiator_hello ?E K (fst c1) (snd c1) i = Return (frame h1)" "length h1 = 8794"
    using honest_hello [OF assms(1,4) K] by blast
  obtain h2 where h2: "initiator_hello ?E K (fst c2) (snd c2) i = Return (frame h2)" "length h2 = 8794"
    using honest_hello [OF assms(1,4) K] by blast
  obtain b1 m1 ss1 where a1: "responder_reply ?E K kr sr r (fst (kem_keypair K (fst c1))) = Return (frame b1, ss1)"
    and r1: "length b1 = 8794" "unmarshal_hello b1 = Return m1"
    "kem_decrypt K (snd (kem_keypair K (fst c1))) (payload m1) = Return ss1"
    "check_hello ?E MSG_HELLO_REPLY ''HELLO_REPLY'' (fingerprint ?E r) None m1 = Return ()"
    using honest_reply [OF assms(1,5) K] by blast
  obtain b2 m2 ss2 where a2: "responder_reply ?E K kp sp p (fst (kem_keypair K (fst c2))) = Return (frame b2, ss2)"
    and r2: "length b2 = 8794" "unmarshal_hello b2 = Return m2"
    "kem_decrypt K (snd (kem_keypair K (fst c2))) (payload m2) = Return ss2"
    "check_hello ?E MSG_HELLO_REPLY ''HELLO_REPLY'' (fingerprint ?E p) None m2 = Return ()"
    using honest_reply [OF assms(1,6) K] by blast
  have len: "length (envelope_line RELAY_REQ (relay_req_payload (bytes_hex (fingerprint ?E p)))) = 188"
    using fingerprint_length [OF b3, of p] by (simp add: length_relay_req)
  have size: "length b1 \<le> MAX_MESSAGE_SIZE" "length b2 \<le> MAX_MESSAGE_SIZE" "188 + 30 \<le> MAX_MESSAGE_SIZE"
    "length (frame h1) = 8798" "length (frame h2) = 8798"
    using r1 r2 h1 h2 by (simp_all add: MAX_MESSAGE_SIZE_def)
  have "\<exists>conn. op_dial P tcp_ops c1 c2 i (fingerprint ?E r) (fingerprint ?E p) s = Return conn \<and>
      send_key conn = initiator_key (derive_keys ?E ss2) \<and>
      recv_key conn = responder_key (derive_keys ?E ss2)"
    if "list_all msg_ok rms" "length rms \<le> 2 ^ 64"
      "concat (map snd rms) = envelope_line RELAY_ACK ack_ok @ [10] @ frame b2 @ rest"
      "tcp_link s (frame b1 @ data_frames (pe_aead P) (responder_key (derive_keys ?E ss1))
         (responder_nonce_pfx (derive_keys ?E ss1)) 0 rms) out" for rms rest s out
  proof -
    have c: "check_hello ?E MSG_HELLO_REPLY ''HELLO_REPLY'' (fingerprint ?E r) (pe_verify P) m1 = Return ()"
      "check_hello ?E MSG_HELLO_REPLY ''HELLO_REPLY'' (fingerprint ?E p) (pe_verify P) m2 = Return ()"
      using r1(4) r2(4) assms(3) by simp_all
    show ?thesis
      using tcp.op_dial_completes [OF K b3 assms(2) h1(1) size(4) r1(2) size(1) c(1) r1(3) h2(1) size(5) r2(2)
          size(2) c(2) r2(3) ack_ok_props refl that(1-3) refl that(4), of "[]"] len size(3)
      by (auto simp: sc_bind_def SecureConn_init_def MAX_MESSAGE_SIZE_def)
  qed
  moreover have "length (frame b1) = 8798" "length (frame b2) = 8798" using r1(1) r2(1) by simp_all
  ultimately show ?thesis
    by (intro exI [of _ K] exI [of _ "frame b1"] exI [of _ ss1] exI [of _ "frame b2"] exI [of _ ss2]) (use K a1 a2 in blast)
qed

text \<open>A run for the witnesses.\<close>

definition toy_p2p :: p2p_env where
  "toy_p2p = \<lparr>pe_hs = toy_env, pe_aead = toy_aead, pe_now = (\<lambda>_. 0), pe_verify = None\<rparr>"

lemma toy_p2p_sel [simp]:
  "pe_hs toy_p2p = toy_env" "pe_aead toy_p2p = toy_aead" "pe_verify toy_p2p = None"
  by (simp_all add: toy_p2p_def)

lemma toy_rms:
  assumes "length reply2 = 8798"
  shows "list_all msg_ok [(0, envelope_line RELAY_ACK ack_ok @ [10] @ reply2)]"
  using assms ack_ok_props(2) by (auto simp: msg_ok_def ENVELOPE_LIMIT_def MAX_MESSAGE_SIZE_def)

lemma toy_wire_link:
  assumes "length reply1 = 8798"
  shows "tcp_link (toy_tcp [reply1 @ w]) (reply1 @ w) []"
  using assms toy_tcp_link [of "[reply1 @ w]"] by (cases reply1) simp_all

lemma toy_dial:
  "\<exists>wire conn. op_dial toy_p2p tcp_ops (0, 0) (0, 0) toy_id (fingerprint toy_env toy_id)
     (fingerprint toy_env toy_id) (toy_tcp [wire]) = Return conn"
proof -
  note h = honest_dial [where P = toy_p2p and gi = 1 and gr = 1 and gp = 1 and i = toy_id and r = toy_id and p = toy_id and
      ?c1.0 = "(0, 0)" and ?c2.0 = "(0, 0)" and kr = 0 and sr = 0 and kp = 0 and sp = 0, unfolded toy_p2p_sel,
      OF toy_env_ok toy_aead_ok refl toy_id_generated toy_id_generated toy_id_generated]
  then obtain reply1 reply2 and ss1 where r: "length reply1 = 8798" "length reply2 = 8798"
    and h: "\<And>rms rest s out.
      list_all msg_ok rms \<and> length rms \<le> 2 ^ 64 \<and>
      concat (map snd rms) = envelope_line RELAY_ACK ack_ok @ [10] @ reply2 @ rest \<and>
      tcp_link s (reply1 @ data_frames toy_aead (responder_key (derive_keys toy_env ss1)) (responder_nonce_pfx (derive_keys toy_env ss1)) 0 rms) out \<Longrightarrow>
      \<exists>conn. op_dial toy_p2p tcp_ops (0, 0) (0, 0) toy_id (fingerprint toy_env toy_id)
         (fingerprint toy_env toy_id) s = Return conn"
    by blast
  show ?thesis
    using h [of "[(0, envelope_line RELAY_ACK ack_ok @ [10] @ reply2)]" "[]"] toy_rms [OF r(2)]
      toy_wire_link [OF r(1)] by simp blast
qed

section \<open>Properties\<close>



text \<open>With an honest relay and an honest peer, dialling over TCP always succeeds: take, for any
  coins, the replies of the relay and of the peer to the two HELLO messages of the node. However the relay
  cuts its acknowledgement and the peer's reply into encrypted frames and TCP those into segments, \<open>dial\<close>
  returns a connection, whose keys come from the secret that the peer encapsulated.\<close>

theorem dial_completes:
  assumes "env_ok (pe_hs P)" "aead_ok (pe_aead P)" "pe_verify P = None"
    and "identity_generate (pe_hs P) gi = Return i" "identity_generate (pe_hs P) gr = Return r"
    and "identity_generate (pe_hs P) gp = Return p"
  shows "\<exists>K reply1 ss1 reply2 ss2. kem_backend (pe_hs P) = Some K \<and> length reply1 = 8798 \<and> length reply2 = 8798 \<and>
    responder_reply (pe_hs P) K kr sr r (fst (kem_keypair K (fst c1))) = Return (reply1, ss1) \<and>
    responder_reply (pe_hs P) K kp sp p (fst (kem_keypair K (fst c2))) = Return (reply2, ss2) \<and>
    (\<forall>rms rest s out.
      list_all msg_ok rms \<and> length rms \<le> 2 ^ 64 \<and>
      concat (map snd rms) = envelope_line RELAY_ACK ack_ok @ [10] @ reply2 @ rest \<and>
      tcp_link s (reply1 @ data_frames (pe_aead P) (responder_key (derive_keys (pe_hs P) ss1))
        (responder_nonce_pfx (derive_keys (pe_hs P) ss1)) 0 rms) out \<longrightarrow>
      (\<exists>conn. op_dial P tcp_ops c1 c2 i (fingerprint (pe_hs P) r) (fingerprint (pe_hs P) p) s = Return conn \<and>
        send_key conn = initiator_key (derive_keys (pe_hs P) ss2) \<and>
        recv_key conn = responder_key (derive_keys (pe_hs P) ss2)))"
  by (rule honest_dial [OF assms])

theorem dial_completes_witness:
  "\<exists>wire conn. op_dial toy_p2p tcp_ops (0, 0) (0, 0) toy_id (fingerprint toy_env toy_id)
     (fingerprint toy_env toy_id) (toy_tcp [wire]) = Return conn"
proof -
  note h = dial_completes [where P = toy_p2p and gi = 1 and gr = 1 and gp = 1 and i = toy_id and r = toy_id and p = toy_id and
      ?c1.0 = "(0, 0)" and ?c2.0 = "(0, 0)" and kr = 0 and sr = 0 and kp = 0 and sp = 0, unfolded toy_p2p_sel,
      OF toy_env_ok toy_aead_ok refl toy_id_generated toy_id_generated toy_id_generated]
  then obtain reply1 reply2 and ss1 where r: "length reply1 = 8798" "length reply2 = 8798"
    and h: "\<And>rms rest s out.
      list_all msg_ok rms \<and> length rms \<le> 2 ^ 64 \<and>
      concat (map snd rms) = envelope_line RELAY_ACK ack_ok @ [10] @ reply2 @ rest \<and>
      tcp_link s (reply1 @ data_frames toy_aead (responder_key (derive_keys toy_env ss1)) (responder_nonce_pfx (derive_keys toy_env ss1)) 0 rms) out \<Longrightarrow>
      \<exists>conn. op_dial toy_p2p tcp_ops (0, 0) (0, 0) toy_id (fingerprint toy_env toy_id)
         (fingerprint toy_env toy_id) s = Return conn"
    by blast
  show ?thesis
    using h [of "[(0, envelope_line RELAY_ACK ack_ok @ [10] @ reply2)]" "[]"] toy_rms [OF r(2)]
      toy_wire_link [OF r(1)] by simp blast
qed

end
