(* ===== verification/Ownership.thy ===== *)
theory Ownership
  imports Prelude "HOL-Library.Multiset"
begin

text \<open>
  What a node promises about the connections it opens, as an abstract machine: who is responsible
  for closing a connection to the relay. Sessions and connections are numbers.

  \<^item> \<open>o_opened\<close>: every connection a dialer returned to the node.
  \<^item> \<open>o_held\<close>: connections that a running operation of a session still refers to.
  \<^item> \<open>o_pend\<close>: per session, the connections it closes when it ends.
  \<^item> \<open>o_dead\<close>: the sessions that have ended.
  \<^item> \<open>o_given\<close>: handed to a caller, who owns them from then on.
  \<^item> \<open>o_shut\<close>: closed by the node.

  The node of \<^verbatim>\<open>p2p/node.py\<close> is shown to refine this machine.
\<close>

record own =
  o_held :: "(nat \<times> nat) multiset"
  o_pend :: "(nat \<times> nat) set"
  o_dead :: "nat set"
  o_opened :: "nat set"
  o_given :: "nat set"
  o_shut :: "nat set"

definition own_start :: own where
  "own_start = \<lparr>o_held = {#}, o_pend = {}, o_dead = {}, o_opened = {}, o_given = {}, o_shut = {}\<rparr>"

inductive own_step :: "own \<Rightarrow> own \<Rightarrow> bool" where
  own_open: "r \<notin> o_opened s \<Longrightarrow> sid \<notin> o_dead s \<Longrightarrow>
    own_step s (s\<lparr>o_opened := insert r (o_opened s), o_held := add_mset (sid, r) (o_held s),
      o_pend := insert (sid, r) (o_pend s)\<rparr>)"
| own_open_late: "r \<notin> o_opened s \<Longrightarrow>
    own_step s (s\<lparr>o_opened := insert r (o_opened s), o_shut := insert r (o_shut s)\<rparr>)"
| own_drop: "o_held s = add_mset (sid, r) H \<Longrightarrow>
    own_step s (s\<lparr>o_held := H, o_pend := o_pend s - {(sid, r)}, o_shut := insert r (o_shut s)\<rparr>)"
| own_drop_dead: "o_held s = add_mset (sid, r) H \<Longrightarrow> sid \<in> o_dead s \<Longrightarrow>
    own_step s (s\<lparr>o_held := H, o_shut := insert r (o_shut s)\<rparr>)"
| own_give: "o_held s = add_mset (sid, r) H \<Longrightarrow> sid \<notin> o_dead s \<Longrightarrow>
    own_step s (s\<lparr>o_held := H, o_pend := o_pend s - {(sid, r)}, o_given := insert r (o_given s)\<rparr>)"
| own_forget: "o_held s = M + H \<Longrightarrow> own_step s (s\<lparr>o_held := H\<rparr>)"
| own_stop: "own_step s (s\<lparr>o_dead := insert sid (o_dead s),
      o_shut := o_shut s \<union> {r. (sid, r) \<in> o_pend s}, o_pend := {x \<in> o_pend s. fst x \<noteq> sid}\<rparr>)"

definition own_inv :: "own \<Rightarrow> bool" where
  "own_inv s \<longleftrightarrow>
     (\<forall>r. count (image_mset snd (o_held s)) r \<le> 1) \<and>
     (\<forall>sid r. (sid, r) \<in># o_held s \<longrightarrow> sid \<in> o_dead s \<longrightarrow> r \<in> o_shut s) \<and>
     (\<forall>sid r. (sid, r) \<in># o_held s \<longrightarrow> sid \<notin> o_dead s \<longrightarrow> (sid, r) \<in> o_pend s) \<and>
     (\<forall>sid r. (sid, r) \<in> o_pend s \<longrightarrow> sid \<notin> o_dead s \<and> r \<notin> o_given s \<and> r \<notin> o_shut s) \<and>
     o_given s \<inter> o_shut s = {} \<and>
     o_opened s = o_given s \<union> o_shut s \<union> snd ` o_pend s \<and>
     (\<forall>sid sid' r. (sid, r) \<in> o_pend s \<longrightarrow> (sid', r) \<in> o_pend s \<longrightarrow> sid = sid')"

lemma own_invI:
  assumes "\<And>r. count (image_mset snd (o_held s)) r \<le> 1"
    "\<And>sid r. (sid, r) \<in># o_held s \<Longrightarrow> sid \<in> o_dead s \<Longrightarrow> r \<in> o_shut s"
    "\<And>sid r. (sid, r) \<in># o_held s \<Longrightarrow> sid \<notin> o_dead s \<Longrightarrow> (sid, r) \<in> o_pend s"
    "\<And>sid r. (sid, r) \<in> o_pend s \<Longrightarrow> sid \<notin> o_dead s \<and> r \<notin> o_given s \<and> r \<notin> o_shut s"
    "o_given s \<inter> o_shut s = {}"
    "o_opened s = o_given s \<union> o_shut s \<union> snd ` o_pend s"
    "\<And>sid sid' r. (sid, r) \<in> o_pend s \<Longrightarrow> (sid', r) \<in> o_pend s \<Longrightarrow> sid = sid'"
  shows "own_inv s"
  unfolding own_inv_def using assms by simp

lemma own_invD:
  assumes "own_inv s"
  shows "count (image_mset snd (o_held s)) r \<le> 1"
    "(sid, r) \<in># o_held s \<Longrightarrow> sid \<in> o_dead s \<Longrightarrow> r \<in> o_shut s"
    "(sid, r) \<in># o_held s \<Longrightarrow> sid \<notin> o_dead s \<Longrightarrow> (sid, r) \<in> o_pend s"
    "(sid, r) \<in> o_pend s \<Longrightarrow> sid \<notin> o_dead s \<and> r \<notin> o_given s \<and> r \<notin> o_shut s"
    "o_given s \<inter> o_shut s = {}"
    "o_opened s = o_given s \<union> o_shut s \<union> snd ` o_pend s"
    "(sid, r) \<in> o_pend s \<Longrightarrow> (sid', r) \<in> o_pend s \<Longrightarrow> sid = sid'"
  using assms unfolding own_inv_def by simp_all

lemma own_inv_start: "own_inv own_start"
  by (simp add: own_inv_def own_start_def)

text \<open>Taking a connection out of the held ones leaves no other reference to it.\<close>

lemma own_taken:
  assumes "own_inv s" "o_held s = add_mset (sid, r) H"
  shows "(sid', r) \<notin># H" "count (image_mset snd H) r' \<le> 1" "r \<notin> o_given s"
    "(sid', r') \<in># H \<Longrightarrow> (sid', r') \<in># o_held s" "(sid, r) \<in># o_held s"
proof -
  have "count (image_mset snd H) r = 0" using own_invD(1) [OF assms(1), of r] assms(2) by simp
  then show "(sid', r) \<notin># H" by (force simp: count_eq_zero_iff)
  show "count (image_mset snd H) r' \<le> 1"
    using own_invD(1) [OF assms(1), of r'] assms(2) by (simp split: if_splits)
  show h: "(sid', r') \<in># H \<Longrightarrow> (sid', r') \<in># o_held s" "(sid, r) \<in># o_held s" by (simp_all add: assms(2))
  show "r \<notin> o_given s"
    using own_invD(2,3) [OF assms(1) h(2)] own_invD(4) [OF assms(1), of sid r] own_invD(5) [OF assms(1)] by blast
qed

lemma own_fresh:
  assumes "own_inv s" "r \<notin> o_opened s"
  shows "r \<notin> o_given s" "r \<notin> o_shut s" "\<And>sid. (sid, r) \<notin> o_pend s" "\<And>sid. (sid, r) \<notin># o_held s"
proof -
  show n: "r \<notin> o_given s" "r \<notin> o_shut s" "\<And>sid. (sid, r) \<notin> o_pend s"
    using assms(2) unfolding own_invD(6) [OF assms(1)] by force+
  show "\<And>sid. (sid, r) \<notin># o_held s" using own_invD(2,3) [OF assms(1)] n by blast
qed

text \<open>References may be forgotten.\<close>

lemma own_inv_forget:
  assumes "own_inv s" "o_held s = M + H"
  shows "own_inv (s\<lparr>o_held := H\<rparr>)"
proof (rule own_invI)
  note d = own_invD [OF assms(1)]
  show "count (image_mset snd (o_held (s\<lparr>o_held := H\<rparr>))) r \<le> 1" for r using d(1) [of r] assms(2) by simp
  show "r \<in> o_shut (s\<lparr>o_held := H\<rparr>)" if "(sid, r) \<in># o_held (s\<lparr>o_held := H\<rparr>)" "sid \<in> o_dead (s\<lparr>o_held := H\<rparr>)" for sid r
    using that d(2) [of sid r] assms(2) by simp
  show "(sid, r) \<in> o_pend (s\<lparr>o_held := H\<rparr>)" if "(sid, r) \<in># o_held (s\<lparr>o_held := H\<rparr>)" "sid \<notin> o_dead (s\<lparr>o_held := H\<rparr>)" for sid r
    using that d(3) assms(2) by simp
qed (use own_invD(4-7) [OF assms(1)] in simp_all)

lemma inv_own_open:
  assumes "r \<notin> o_opened s" "sid \<notin> o_dead s" "own_inv s"
  shows "own_inv (s\<lparr>o_opened := insert r (o_opened s), o_held := add_mset (sid, r) (o_held s),
      o_pend := insert (sid, r) (o_pend s)\<rparr>)"
proof -
  note f = own_fresh [OF assms(3,1)]
  note d = own_invD [OF assms(3)]
  have c: "count (image_mset snd (o_held s)) r = 0" using f(4) by (force simp: count_eq_zero_iff)
  show ?thesis
  proof (rule own_invI, goal_cases)
    case (1 r') then show ?case using d(1) [of r'] c by auto
  next
    case (2 sid' r') then show ?case using d(2) assms(2) by auto
  next
    case (3 sid' r') then show ?case using d(3) by auto
  next
    case (4 sid' r') then show ?case using d(4) assms(2) f by auto
  next
    case 5 then show ?case using d(5) by simp
  next
    case 6 then show ?case using d(6) by auto
  next
    case (7 a b r') then show ?case using d(7) f(3) by auto
  qed
qed

lemma inv_own_drop:
  assumes "o_held s = add_mset (sid, r) H" "own_inv s"
  shows "own_inv (s\<lparr>o_held := H, o_pend := o_pend s - {(sid, r)}, o_shut := insert r (o_shut s)\<rparr>)"
proof -
  note d = own_invD [OF assms(2)]
  note t = own_taken [OF assms(2,1)]
  have p: "r \<in> o_shut s \<or> (sid, r) \<in> o_pend s" using d(2,3) [OF t(5)] by blast
  have u: "(a, r) \<in> o_pend s \<Longrightarrow> a = sid" for a using p d(4) [of a r] d(7) [of a r sid] by blast
  have e: "insert r (snd ` (o_pend s - {(sid, r)})) = insert r (snd ` o_pend s)" by force
  have "r \<in> o_shut s \<union> snd ` o_pend s" using p by force
  then have op: "o_opened s = o_given s \<union> insert r (o_shut s) \<union> snd ` (o_pend s - {(sid, r)})"
    using d(6) e by blast
  show ?thesis
    apply (rule own_invI)
    apply (use t in simp)
    subgoal for a b using d(2) [of a b] t(4) [of a b] by auto
    subgoal for a b using d(3) [of a b] t(1) [of a] t(4) [of a b] by auto
    subgoal for a b using d(4) [of a b] u [of a] by auto
    apply (use d(5) t(3) in simp)
    apply (use op in simp)
    subgoal for a b x using d(7) [of a x b] by simp
    done
qed

lemma inv_own_give:
  assumes "o_held s = add_mset (sid, r) H" "sid \<notin> o_dead s" "own_inv s"
  shows "own_inv (s\<lparr>o_held := H, o_pend := o_pend s - {(sid, r)}, o_given := insert r (o_given s)\<rparr>)"
proof -
  note d = own_invD [OF assms(3)]
  note t = own_taken [OF assms(3,1)]
  have p: "(sid, r) \<in> o_pend s" using d(3) [OF t(5) assms(2)] .
  show ?thesis
    apply (rule own_invI)
    apply (use t in simp)
    subgoal for a b using d(2) [of a b] t(4) [of a b] by auto
    subgoal for a b using d(3) [of a b] t(1) [of a] t(4) [of a b] by auto
    subgoal for a b using d(4) [of a b] d(7) [of a r sid] p by auto
    apply (use d(5) d(4) [OF p] in simp)
    apply (use d(6) p in force)
    subgoal for a b x using d(7) [of a x b] by simp
    done
qed

lemma own_step_inv:
  assumes "own_step s s'" "own_inv s"
  shows "own_inv s'"
  using assms
proof (induction rule: own_step.induct)
  case (own_open r s sid) then show ?case by (blast intro: inv_own_open)
next
  case (own_open_late r s)
  note f = own_fresh [OF own_open_late(2,1)]
  note d = own_invD [OF own_open_late(2)]
  show ?case
    by (rule own_invI)
      ((use d(1) in simp)[1], (use d(2) in auto)[1], (use d(3) in simp)[1], (use d(4) f in auto)[1], (use d(5) f in simp)[1], (use d(6) in simp)[1], (use d(7) in simp)[1])
next
  case (own_drop s sid r H) then show ?case by (blast intro: inv_own_drop)
next
  case (own_drop_dead s sid r H)
  have "(sid, r) \<in># o_held s" by (simp add: own_drop_dead(1))
  then have "insert r (o_shut s) = o_shut s"
    using own_invD(2) [OF own_drop_dead(3)] own_drop_dead(2) by (simp add: insert_absorb)
  then show ?case using own_inv_forget [OF own_drop_dead(3), of "{#(sid, r)#}" H] own_drop_dead(1) by simp
next
  case (own_give s sid r H) then show ?case by (blast intro: inv_own_give)
next
  case (own_forget s M H)
  then show ?case by (blast intro: own_inv_forget)
next
  case (own_stop s sid)
  note d = own_invD [OF own_stop]
  show ?case
    by (rule own_invI)
      ((use d(1) in simp)[1], (use d(2,3) in auto)[1], (use d(3) in simp)[1], (use d(4,7) in auto)[1], (use d(4,5) in auto)[1], (use d(6) in force)[1], simp, use d(7) in blast)
qed

section \<open>What the promise gives\<close>

inductive own_reaches :: "own \<Rightarrow> own \<Rightarrow> bool" where
  own_here: "own_reaches s s"
| own_then: "own_reaches s s' \<Longrightarrow> own_step s' s'' \<Longrightarrow> own_reaches s s''"

lemma own_reaches_trans: "own_reaches s' s'' \<Longrightarrow> own_reaches s s' \<Longrightarrow> own_reaches s s''"
  by (induction rule: own_reaches.induct) (auto intro: own_then)

lemma own_reaches_step: "own_step s s' \<Longrightarrow> own_reaches s s'"
  by (rule own_then [OF own_here])

lemma own_reaches_inv: "own_reaches s s' \<Longrightarrow> own_inv s \<Longrightarrow> own_inv s'"
  by (induction rule: own_reaches.induct) (auto intro: own_step_inv)

lemma own_step_mono:
  "own_step s s' \<Longrightarrow> o_given s \<subseteq> o_given s' \<and> o_shut s \<subseteq> o_shut s' \<and> o_dead s \<subseteq> o_dead s'"
  by (induction rule: own_step.induct) auto

text \<open>A connection is closed, handed out, or still owned by a session that is alive.\<close>

lemma own_accounted:
  assumes "own_inv s"
  shows "o_opened s = o_given s \<union> o_shut s \<union> {r. \<exists>sid. (sid, r) \<in> o_pend s \<and> sid \<notin> o_dead s}"
  using own_invD(4) [OF assms] unfolding own_invD(6) [OF assms] by force

end
