(* ===== verification/Node.thy ===== *)
theory Node
  imports NodeOps Ownership
begin

text \<open>
  The lifecycle of \<^verbatim>\<open>Node\<close> in \<^verbatim>\<open>p2p/node.py\<close>: sessions with the relay, the tasks they own, and
  which connections are handed to callers. Coroutines run interleaved; each definition below is what
  the source does between two suspension points, and \<open>node_step\<close> is the relation of all interleavings.

  \<^item> Connections to the relay are numbers, given out by the dialer; a connection to a peer is named by
    the relay connection it runs over. What is said on a connection is the business of \<open>NodeOps\<close>.
  \<^item> Objects that coroutines share (sessions, tasks) are entries of lists, referred to by index.
  \<^item> A cancelled or timed-out wait shows as a failure at the \<open>await\<close> where it strikes, with the
    exception as a parameter; the duration of the timeouts is not modelled.
  \<^item> \<open>n_opened\<close>, \<open>n_given\<close> and \<open>n_shut\<close> record the connections dialled, handed to a caller, and
    closed by the node; the code does not keep them, the properties speak about them.
\<close>

section \<open>State\<close>

record session =
  s_addr :: pystr
  s_fp :: bytes
  s_control :: "nat option"
  s_error :: "exn option"
  s_ended :: bool
  s_pending :: "nat set"
  s_incoming :: "nat list"

definition new_session :: "pystr \<Rightarrow> bytes \<Rightarrow> session" where
  "new_session a fp = \<lparr>s_addr = a, s_fp = fp, s_control = None, s_error = None, s_ended = False,
     s_pending = {}, s_incoming = []\<rparr>"

text \<open>A task running \<^verbatim>\<open>run()\<close> of \<^verbatim>\<open>_setup\<close>: created, inside the dialer, inside the operation on its
  connection, returned but its result not yet picked up, picked up (or the one waiting for it is gone),
  or ended by an exception.\<close>

datatype run_state = RunNew | RunDialing | RunOp nat | RunOk nat | RunTaken | RunFailed exn

record setup_run =
  run_session :: nat
  run_state :: run_state

text \<open>A stop in progress waits for the tasks it cancelled: runs, proxies and control loops.\<close>

datatype stop_state = StopWait nat "nat list" "nat list" "nat list" | StopOver | StopAborted
datatype proxy_state = PxNew nat json | PxSetup nat | PxDone
datatype ctl_state = CtlReading nat | CtlStopping nat | CtlOver
datatype dial_state = DialSetup nat | DialOver
datatype accept_state = Awaiting nat | Received nat nat | Answered
datatype connect_state =
    ConnIdle | ConnStopping nat pystr bytes | ConnSetup nat | ConnFailing nat exn

record node =
  n_closed :: bool
  n_session :: "nat option"
  n_relay_addr :: pystr
  n_relay_fp :: bytes
  n_control :: "nat option"
  n_connect :: connect_state
  n_sessions :: "session list"
  n_runs :: "setup_run list"
  n_proxies :: "proxy_state list"
  n_ctls :: "ctl_state list"
  n_dials :: "dial_state list"
  n_accepts :: "accept_state list"
  n_stops :: "stop_state list"
  n_opened :: "nat set"
  n_given :: "nat set"
  n_shut :: "nat set"

definition Node_init :: node where
  "Node_init =
     \<lparr>n_closed = False, n_session = None, n_relay_addr = [], n_relay_fp = [], n_control = None,
      n_connect = ConnIdle, n_sessions = [], n_runs = [], n_proxies = [], n_ctls = [], n_dials = [],
      n_accepts = [], n_stops = [], n_opened = {}, n_given = {}, n_shut = {}\<rparr>"

definition upd_session :: "nat \<Rightarrow> (session \<Rightarrow> session) \<Rightarrow> node \<Rightarrow> node" where
  "upd_session i f n = n\<lparr>n_sessions := (n_sessions n)[i := f (n_sessions n ! i)]\<rparr>"

definition set_run :: "nat \<Rightarrow> run_state \<Rightarrow> node \<Rightarrow> node" where
  "set_run k st n = n\<lparr>n_runs := (n_runs n)[k := (n_runs n ! k)\<lparr>run_state := st\<rparr>]\<rparr>"

definition discard :: "nat \<Rightarrow> nat \<Rightarrow> node \<Rightarrow> node" where
  "discard i r n = upd_session i (\<lambda>s. s\<lparr>s_pending := s_pending s - {r}\<rparr>) n"

definition shut :: "nat \<Rightarrow> node \<Rightarrow> node" where
  "shut r n = n\<lparr>n_shut := insert r (n_shut n)\<rparr>"

definition give :: "nat \<Rightarrow> node \<Rightarrow> node" where
  "give r n = n\<lparr>n_given := insert r (n_given n)\<rparr>"

section \<open>Stopping a session\<close>

fun run_active :: "run_state \<Rightarrow> bool" where
  "run_active RunNew = True"
| "run_active RunDialing = True"
| "run_active (RunOp r) = True"
| "run_active _ = False"

definition proxy_session :: "node \<Rightarrow> proxy_state \<Rightarrow> nat option" where
  "proxy_session n p =
     (case p of PxNew i pl \<Rightarrow> Some i | PxSetup k \<Rightarrow> Some (run_session (n_runs n ! k)) | PxDone \<Rightarrow> None)"

definition stop_session :: "node \<Rightarrow> stop_state \<Rightarrow> nat option" where
  "stop_session n st = (case st of StopWait i rs ps cs \<Rightarrow> Some i | _ \<Rightarrow> None)"

definition ctl_session :: "node \<Rightarrow> ctl_state \<Rightarrow> nat option" where
  "ctl_session n c =
     (case c of CtlReading i \<Rightarrow> Some i | CtlStopping k \<Rightarrow> stop_session n (n_stops n ! k) | CtlOver \<Rightarrow> None)"

text \<open>\<open>session.tasks\<close> without the calling control loop, if it is one that calls.\<close>

definition session_runs :: "nat \<Rightarrow> node \<Rightarrow> nat list" where
  "session_runs i n =
     filter (\<lambda>k. run_session (n_runs n ! k) = i \<and> run_active (run_state (n_runs n ! k))) [0..<length (n_runs n)]"

definition session_proxies :: "nat \<Rightarrow> node \<Rightarrow> nat list" where
  "session_proxies i n = filter (\<lambda>k. proxy_session n (n_proxies n ! k) = Some i) [0..<length (n_proxies n)]"

definition session_ctls :: "nat option \<Rightarrow> nat \<Rightarrow> node \<Rightarrow> nat list" where
  "session_ctls current i n =
     filter (\<lambda>k. ctl_session n (n_ctls n ! k) = Some i \<and> current \<noteq> Some k) [0..<length (n_ctls n)]"

text \<open>\<^verbatim>\<open>_stop_session\<close> up to its second \<open>gather\<close>; the answer is the index of the stop that now waits, if
  this call is the one that stops.\<close>

definition stop_begin :: "nat \<Rightarrow> exn \<Rightarrow> nat option \<Rightarrow> node \<Rightarrow> node \<times> nat option" where
  "stop_begin i reason current n =
     (let s = n_sessions n ! i in
      if s_error s \<noteq> None then (n, None)
      else (upd_session i (\<lambda>s. s\<lparr>s_error := Some reason, s_ended := True, s_pending := {}\<rparr>)
              (n\<lparr>n_shut := n_shut n \<union> s_pending s,
                 n_stops := n_stops n @
                   [StopWait i (session_runs i n) (session_proxies i n) (session_ctls current i n)]\<rparr>),
            Some (length (n_stops n))))"

definition tasks_done :: "nat list \<Rightarrow> nat list \<Rightarrow> nat list \<Rightarrow> node \<Rightarrow> bool" where
  "tasks_done rs ps cs n \<longleftrightarrow>
     list_all (\<lambda>k. \<not> run_active (run_state (n_runs n ! k))) rs \<and>
     list_all (\<lambda>k. n_proxies n ! k = PxDone) ps \<and> list_all (\<lambda>k. n_ctls n ! k = CtlOver) cs"

text \<open>The rest of \<^verbatim>\<open>_stop_session\<close>, once the cancelled tasks are done.\<close>

definition stop_finish :: "nat \<Rightarrow> node \<Rightarrow> node" where
  "stop_finish k n =
     (case n_stops n ! k of
        StopWait i rs ps cs \<Rightarrow>
          (let n = upd_session i (\<lambda>s. s\<lparr>s_incoming := []\<rparr>) n;
               n = (if n_session n = Some i then n\<lparr>n_control := None\<rparr> else n)
           in n\<lparr>n_stops := (n_stops n)[k := StopOver]\<rparr>)
      | _ \<Rightarrow> n)"

text \<open>The caller of \<^verbatim>\<open>_stop_session\<close> is cancelled while it waits.\<close>

definition stop_abort :: "nat \<Rightarrow> node \<Rightarrow> node" where
  "stop_abort k n = n\<lparr>n_stops := (n_stops n)[k := StopAborted]\<rparr>"

definition node_closed_error :: exn where
  "node_closed_error = Exn ConnectionError [Txt ''node closed'']"

definition session_error :: "session \<Rightarrow> exn" where
  "session_error s = Exn ConnectionError [case s_error s of Some e \<Rightarrow> Exc e | None \<Rightarrow> Txt ''None'']"

definition current_session :: "node \<Rightarrow> nat res" where
  "current_session n =
     (if n_closed n then Raise node_closed_error
      else case n_session n of
             None \<Rightarrow> Raise (Exn ConnectionError [Txt ''must connect to relay before using peers''])
           | Some i \<Rightarrow>
               if s_error (n_sessions n ! i) \<noteq> None then Raise (session_error (n_sessions n ! i))
               else if s_control (n_sessions n ! i) = None
               then Raise (Exn ConnectionError [Txt ''must connect to relay before using peers''])
               else Return i)"

section \<open>Setup tasks\<close>

definition spawn_run :: "nat \<Rightarrow> node \<Rightarrow> node \<times> nat" where
  "spawn_run i n = (n\<lparr>n_runs := n_runs n @ [\<lparr>run_session = i, run_state = RunNew\<rparr>]\<rparr>, length (n_runs n))"

definition the_session :: "nat \<Rightarrow> node \<Rightarrow> session" where
  "the_session k n = n_sessions n ! run_session (n_runs n ! k)"

definition run_start :: "nat \<Rightarrow> node \<Rightarrow> node" where
  "run_start k n =
     set_run k (if s_ended (the_session k n) then RunFailed (session_error (the_session k n)) else RunDialing) n"

text \<open>The dialer returned connection \<open>r\<close>.\<close>

definition run_dialed :: "nat \<Rightarrow> nat \<Rightarrow> node \<Rightarrow> node" where
  "run_dialed k r n =
     (let i = run_session (n_runs n ! k);
          n = n\<lparr>n_opened := insert r (n_opened n)\<rparr>;
          n = upd_session i (\<lambda>s. s\<lparr>s_pending := insert r (s_pending s)\<rparr>) n
      in if s_ended (the_session k n)
         then set_run k (RunFailed (session_error (the_session k n))) (shut r (discard i r n))
         else set_run k (RunOp r) n)"

definition run_dial_failed :: "nat \<Rightarrow> exn \<Rightarrow> node \<Rightarrow> node" where
  "run_dial_failed k e n = set_run k (RunFailed e) n"

text \<open>The operation on connection \<open>r\<close> returned, or raised (a cancellation included).\<close>

definition run_op_failed :: "nat \<Rightarrow> nat \<Rightarrow> exn \<Rightarrow> node \<Rightarrow> node" where
  "run_op_failed k r e n =
     set_run k (RunFailed e) (shut r (discard (run_session (n_runs n ! k)) r n))"

definition run_op_done :: "nat \<Rightarrow> nat \<Rightarrow> node \<Rightarrow> node" where
  "run_op_done k r n =
     (if s_ended (the_session k n) then run_op_failed k r (session_error (the_session k n)) n
      else set_run k (RunOk r) n)"

text \<open>What \<^verbatim>\<open>_setup\<close> raises when its wait ends with \<open>e\<close>.\<close>

definition setup_error :: "session \<Rightarrow> exn \<Rightarrow> exn" where
  "setup_error s e =
     (if exn_class_of e = CancelledError \<and> s_error s \<noteq> None then session_error s else e)"

section \<open>connect_relay\<close>

definition check_fp :: "string \<Rightarrow> bytes \<Rightarrow> unit res" where
  "check_fp who fp =
     (if length fp \<noteq> 64 then Raise (Exn ValueError [Txt who, Txt '' fingerprint must be 64 bytes'']) else Return ())"

definition connect_open :: "pystr \<Rightarrow> bytes \<Rightarrow> node \<Rightarrow> node" where
  "connect_open a fp n =
     (let i = length (n_sessions n);
          n = n\<lparr>n_sessions := n_sessions n @ [new_session a fp], n_session := Some i\<rparr>;
          (n, k) = spawn_run i n
      in n\<lparr>n_connect := ConnSetup k\<rparr>)"

text \<open>The call, once it holds the lock.\<close>

definition connect_enter :: "pystr \<Rightarrow> bytes \<Rightarrow> node \<Rightarrow> node \<times> unit res" where
  "connect_enter a fp n =
     (case check_fp ''relay'' fp of
        Raise e \<Rightarrow> (n, Raise e)
      | _ \<Rightarrow>
         if n_closed n then (n, Raise node_closed_error)
         else case n_session n of
                None \<Rightarrow> (connect_open a fp n, Blocked)
              | Some i \<Rightarrow>
                  (case stop_begin i (Exn ConnectionError [Txt ''relay session replaced'']) None n of
                     (n, None) \<Rightarrow> (connect_open a fp n, Blocked)
                   | (n, Some k) \<Rightarrow> (n\<lparr>n_connect := ConnStopping k a fp\<rparr>, Blocked)))"

definition cancelled :: exn where
  "cancelled = Exn CancelledError []"

definition connect_stopped :: "node \<Rightarrow> node \<times> unit res" where
  "connect_stopped n =
     (case n_connect n of
        ConnStopping k a fp \<Rightarrow>
          (case n_stops n ! k of
             StopOver \<Rightarrow> (connect_open a fp n, Blocked)
           | StopAborted \<Rightarrow> (n\<lparr>n_connect := ConnIdle\<rparr>, Raise cancelled)
           | _ \<Rightarrow> (n, Blocked))
      | _ \<Rightarrow> (n, Blocked))"

definition connect_done :: "nat \<Rightarrow> nat \<Rightarrow> node \<Rightarrow> node \<times> unit res" where
  "connect_done k r n =
     (let i = run_session (n_runs n ! k);
          n = set_run k RunTaken n;
          n = upd_session i (\<lambda>s. s\<lparr>s_control := Some r\<rparr>) n
      in (n\<lparr>n_relay_addr := s_addr (n_sessions n ! i), n_relay_fp := s_fp (n_sessions n ! i),
            n_control := Some r, n_ctls := n_ctls n @ [CtlReading i], n_connect := ConnIdle\<rparr>, Return ()))"

text \<open>The setup of a new session raised \<open>e\<close>: the session is stopped, then \<open>e\<close> is raised again.\<close>

definition connect_failed :: "nat \<Rightarrow> exn \<Rightarrow> node \<Rightarrow> node \<times> unit res" where
  "connect_failed k e n =
     (let i = run_session (n_runs n ! k); n = set_run k RunTaken n; e = setup_error (n_sessions n ! i) e
      in case stop_begin i (Exn ConnectionError [Txt ''relay setup failed'']) None n of
           (n, None) \<Rightarrow> (n\<lparr>n_connect := ConnIdle\<rparr>, Raise e)
         | (n, Some j) \<Rightarrow> (n\<lparr>n_connect := ConnFailing j e\<rparr>, Blocked))"

definition connect_raised :: "node \<Rightarrow> node \<times> unit res" where
  "connect_raised n =
     (case n_connect n of
        ConnFailing k e \<Rightarrow>
          (case n_stops n ! k of
             StopOver \<Rightarrow> (n\<lparr>n_connect := ConnIdle\<rparr>, Raise e)
           | StopAborted \<Rightarrow> (n\<lparr>n_connect := ConnIdle\<rparr>, Raise cancelled)
           | _ \<Rightarrow> (n, Blocked))
      | _ \<Rightarrow> (n, Blocked))"

section \<open>Control loop and incoming peers\<close>

text \<open>The control loop \<open>c\<close> of session \<open>i\<close> with what its next \<^verbatim>\<open>read_envelope\<close> gave.\<close>

definition ctl_message :: "nat \<Rightarrow> nat \<Rightarrow> json res \<Rightarrow> node \<Rightarrow> node" where
  "ctl_message c i m n =
     (case control_turn m of
        CtlIgnore \<Rightarrow> n
      | CtlWait \<Rightarrow> n
      | CtlProxy pl \<Rightarrow> n\<lparr>n_proxies := n_proxies n @ [PxNew i pl]\<rparr>
      | CtlLost e \<Rightarrow>
          (case stop_begin i e (Some c) n of
             (n, None) \<Rightarrow> n\<lparr>n_ctls := (n_ctls n)[c := CtlOver]\<rparr>
           | (n, Some k) \<Rightarrow> n\<lparr>n_ctls := (n_ctls n)[c := CtlStopping k]\<rparr>))"

definition ctl_over :: "nat \<Rightarrow> node \<Rightarrow> node" where
  "ctl_over c n = n\<lparr>n_ctls := (n_ctls n)[c := CtlOver]\<rparr>"

definition proxy_start :: "nat \<Rightarrow> nat \<Rightarrow> json \<Rightarrow> node \<Rightarrow> node" where
  "proxy_start p i pl n =
     (case requester_of pl of
        Return fp \<Rightarrow> (let (n, k) = spawn_run i n in n\<lparr>n_proxies := (n_proxies n)[p := PxSetup k]\<rparr>)
      | _ \<Rightarrow> n\<lparr>n_proxies := (n_proxies n)[p := PxDone]\<rparr>)"

definition proxy_done :: "nat \<Rightarrow> nat \<Rightarrow> nat \<Rightarrow> node \<Rightarrow> node" where
  "proxy_done p k r n =
     (let i = run_session (n_runs n ! k);
          n = set_run k RunTaken n;
          n = upd_session i (\<lambda>s. s\<lparr>s_incoming := s_incoming s @ [r]\<rparr>) n
      in n\<lparr>n_proxies := (n_proxies n)[p := PxDone]\<rparr>)"

definition proxy_failed :: "nat \<Rightarrow> nat \<Rightarrow> node \<Rightarrow> node" where
  "proxy_failed p k n = (set_run k RunTaken n)\<lparr>n_proxies := (n_proxies n)[p := PxDone]\<rparr>"

definition proxy_cancelled :: "nat \<Rightarrow> node \<Rightarrow> node" where
  "proxy_cancelled p n = n\<lparr>n_proxies := (n_proxies n)[p := PxDone]\<rparr>"

section \<open>dial_peer and accept\<close>

definition dial_call :: "bytes \<Rightarrow> node \<Rightarrow> node \<times> nat res" where
  "dial_call fp n =
     (case bind_res (check_fp ''peer'' fp) (\<lambda>_. current_session n) of
        Return i \<Rightarrow> (let (n, k) = spawn_run i n in (n\<lparr>n_dials := n_dials n @ [DialSetup k]\<rparr>, Blocked))
      | Raise e \<Rightarrow> (n, Raise e)
      | Blocked \<Rightarrow> (n, Blocked))"

definition dial_done :: "nat \<Rightarrow> nat \<Rightarrow> nat \<Rightarrow> node \<Rightarrow> node \<times> nat res" where
  "dial_done d k r n =
     (let i = run_session (n_runs n ! k);
          n = (set_run k RunTaken n)\<lparr>n_dials := (n_dials n)[d := DialOver]\<rparr>
      in if s_error (n_sessions n ! i) \<noteq> None then (shut r n, Raise (session_error (n_sessions n ! i)))
         else (give r (discard i r n), Return r))"

definition dial_failed :: "nat \<Rightarrow> nat \<Rightarrow> exn \<Rightarrow> node \<Rightarrow> node \<times> nat res" where
  "dial_failed d k e n =
     ((set_run k RunTaken n)\<lparr>n_dials := (n_dials n)[d := DialOver]\<rparr>,
      Raise (setup_error (the_session k n) e))"

definition accept_call :: "node \<Rightarrow> node \<times> nat res" where
  "accept_call n =
     (case current_session n of
        Return i \<Rightarrow> (n\<lparr>n_accepts := n_accepts n @ [Awaiting i]\<rparr>, Blocked)
      | Raise e \<Rightarrow> (n, Raise e)
      | Blocked \<Rightarrow> (n, Blocked))"

text \<open>The task \<open>incoming\<close> of call \<open>a\<close> takes the first peer from the queue.\<close>

definition accept_get :: "nat \<Rightarrow> nat \<Rightarrow> node \<Rightarrow> node" where
  "accept_get a i n =
     (case s_incoming (n_sessions n ! i) of
        [] \<Rightarrow> n
      | r # q \<Rightarrow> (upd_session i (\<lambda>s. s\<lparr>s_incoming := q\<rparr>) n)\<lparr>n_accepts := (n_accepts n)[a := Received i r]\<rparr>)"

definition accept_drop :: "nat \<Rightarrow> exn \<Rightarrow> node \<Rightarrow> node \<times> nat res" where
  "accept_drop a e n =
     (let n' = n\<lparr>n_accepts := (n_accepts n)[a := Answered]\<rparr> in
      case n_accepts n ! a of
        Received i r \<Rightarrow> (shut r (discard i r n'), Raise e)
      | _ \<Rightarrow> (n', Raise e))"

text \<open>Call \<open>a\<close> resumes after its wait.\<close>

definition accept_resume :: "nat \<Rightarrow> node \<Rightarrow> node \<times> nat res" where
  "accept_resume a n =
     (case n_accepts n ! a of
        Awaiting i \<Rightarrow> accept_drop a (session_error (n_sessions n ! i)) n
      | Received i r \<Rightarrow>
          if s_error (n_sessions n ! i) \<noteq> None then accept_drop a (session_error (n_sessions n ! i)) n
          else (give r (discard i r (n\<lparr>n_accepts := (n_accepts n)[a := Answered]\<rparr>)), Return r)
      | Answered \<Rightarrow> (n, Blocked))"

section \<open>close\<close>

definition node_close :: "node \<Rightarrow> node" where
  "node_close n =
     (let n = n\<lparr>n_closed := True\<rparr> in
      case n_session n of
        None \<Rightarrow> n
      | Some i \<Rightarrow> fst (stop_begin i node_closed_error None n))"

section \<open>All interleavings\<close>

text \<open>The wait for setup task \<open>k\<close> can end with an exception: the task raised, or it had returned and the
  waiting coroutine is cancelled or timed out before it resumes.\<close>

definition setup_ends :: "nat \<Rightarrow> node \<Rightarrow> bool" where
  "setup_ends k n \<longleftrightarrow>
     (case run_state (n_runs n ! k) of RunFailed e \<Rightarrow> True | RunOk r \<Rightarrow> True | _ \<Rightarrow> False)"

inductive node_step :: "node \<Rightarrow> node \<Rightarrow> bool" where
  connect_enter: "n_connect n = ConnIdle \<Longrightarrow> node_step n (fst (connect_enter a fp n))"
| connect_stopped: "node_step n (fst (connect_stopped n))"
| connect_done: "n_connect n = ConnSetup k \<Longrightarrow> k < length (n_runs n) \<Longrightarrow> run_state (n_runs n ! k) = RunOk r \<Longrightarrow>
    node_step n (fst (connect_done k r n))"
| connect_failed: "n_connect n = ConnSetup k \<Longrightarrow> k < length (n_runs n) \<Longrightarrow> setup_ends k n \<Longrightarrow>
    node_step n (fst (connect_failed k e n))"
| connect_raised: "node_step n (fst (connect_raised n))"
| stop_finish: "k < length (n_stops n) \<Longrightarrow> n_stops n ! k = StopWait i rs ps cs \<Longrightarrow> tasks_done rs ps cs n \<Longrightarrow>
    node_step n (stop_finish k n)"
| stop_abort: "k < length (n_stops n) \<Longrightarrow> n_stops n ! k = StopWait i rs ps cs \<Longrightarrow> node_step n (stop_abort k n)"
| run_start: "k < length (n_runs n) \<Longrightarrow> run_state (n_runs n ! k) = RunNew \<Longrightarrow> node_step n (run_start k n)"
| run_dialed: "k < length (n_runs n) \<Longrightarrow> run_state (n_runs n ! k) = RunDialing \<Longrightarrow> r \<notin> n_opened n \<Longrightarrow>
    node_step n (run_dialed k r n)"
| run_dial_failed: "k < length (n_runs n) \<Longrightarrow> run_state (n_runs n ! k) \<in> {RunNew, RunDialing} \<Longrightarrow>
    node_step n (run_dial_failed k e n)"
| run_op_done: "k < length (n_runs n) \<Longrightarrow> run_state (n_runs n ! k) = RunOp r \<Longrightarrow> node_step n (run_op_done k r n)"
| run_op_failed: "k < length (n_runs n) \<Longrightarrow> run_state (n_runs n ! k) = RunOp r \<Longrightarrow> node_step n (run_op_failed k r e n)"
| ctl_message: "c < length (n_ctls n) \<Longrightarrow> n_ctls n ! c = CtlReading i \<Longrightarrow> node_step n (ctl_message c i m n)"
| ctl_cancelled: "c < length (n_ctls n) \<Longrightarrow> n_ctls n ! c = CtlReading i \<Longrightarrow> s_ended (n_sessions n ! i) \<Longrightarrow>
    node_step n (ctl_over c n)"
| ctl_stopped: "c < length (n_ctls n) \<Longrightarrow> n_ctls n ! c = CtlStopping k \<Longrightarrow> stop_session n (n_stops n ! k) = None \<Longrightarrow>
    node_step n (ctl_over c n)"
| proxy_start: "p < length (n_proxies n) \<Longrightarrow> n_proxies n ! p = PxNew i pl \<Longrightarrow> node_step n (proxy_start p i pl n)"
| proxy_cancelled: "p < length (n_proxies n) \<Longrightarrow> n_proxies n ! p = PxNew i pl \<Longrightarrow> s_ended (n_sessions n ! i) \<Longrightarrow>
    node_step n (proxy_cancelled p n)"
| proxy_done: "p < length (n_proxies n) \<Longrightarrow> n_proxies n ! p = PxSetup k \<Longrightarrow> k < length (n_runs n) \<Longrightarrow>
    run_state (n_runs n ! k) = RunOk r \<Longrightarrow> node_step n (proxy_done p k r n)"
| proxy_failed: "p < length (n_proxies n) \<Longrightarrow> n_proxies n ! p = PxSetup k \<Longrightarrow> k < length (n_runs n) \<Longrightarrow>
    setup_ends k n \<Longrightarrow> node_step n (proxy_failed p k n)"
| dial_call: "node_step n (fst (dial_call fp n))"
| dial_done: "d < length (n_dials n) \<Longrightarrow> n_dials n ! d = DialSetup k \<Longrightarrow> k < length (n_runs n) \<Longrightarrow>
    run_state (n_runs n ! k) = RunOk r \<Longrightarrow> node_step n (fst (dial_done d k r n))"
| dial_failed: "d < length (n_dials n) \<Longrightarrow> n_dials n ! d = DialSetup k \<Longrightarrow> k < length (n_runs n) \<Longrightarrow>
    setup_ends k n \<Longrightarrow> node_step n (fst (dial_failed d k e n))"
| accept_call: "node_step n (fst (accept_call n))"
| accept_get: "a < length (n_accepts n) \<Longrightarrow> n_accepts n ! a = Awaiting i \<Longrightarrow> node_step n (accept_get a i n)"
| accept_resume: "a < length (n_accepts n) \<Longrightarrow>
    (\<exists>i. n_accepts n ! a = Awaiting i \<and> s_ended (n_sessions n ! i)) \<or> (\<exists>i r. n_accepts n ! a = Received i r) \<Longrightarrow>
    node_step n (fst (accept_resume a n))"
| accept_cancelled: "a < length (n_accepts n) \<Longrightarrow> n_accepts n ! a \<noteq> Answered \<Longrightarrow>
    node_step n (fst (accept_drop a cancelled n))"
| close: "node_step n (node_close n)"

inductive node_reaches :: "node \<Rightarrow> node \<Rightarrow> bool" where
  node_here: "node_reaches n n"
| node_then: "node_reaches n n' \<Longrightarrow> node_step n' n'' \<Longrightarrow> node_reaches n n''"

definition node_reachable :: "node \<Rightarrow> bool" where
  "node_reachable n \<longleftrightarrow> node_reaches Node_init n"

section \<open>References between objects are valid\<close>

text \<open>\<open>m\<close> is the number of sessions.\<close>

fun ctl_ok :: "nat \<Rightarrow> ctl_state \<Rightarrow> bool" where
  "ctl_ok m (CtlReading i) = (i < m)"
| "ctl_ok m _ = True"

fun proxy_ok :: "nat \<Rightarrow> proxy_state \<Rightarrow> bool" where
  "proxy_ok m (PxNew i pl) = (i < m)"
| "proxy_ok m _ = True"

fun accept_ok :: "nat \<Rightarrow> accept_state \<Rightarrow> bool" where
  "accept_ok m (Awaiting i) = (i < m)"
| "accept_ok m (Received i r) = (i < m)"
| "accept_ok m Answered = True"

fun stop_ok :: "nat \<Rightarrow> stop_state \<Rightarrow> bool" where
  "stop_ok m (StopWait i rs ps cs) = (i < m)"
| "stop_ok m _ = True"

text \<open>A session has ended exactly when it has an error; all sessions but the current one have ended, and
  the current one too while \<^verbatim>\<open>connect_relay\<close> waits for it to stop.\<close>

definition sessions_ok :: "session list \<Rightarrow> nat option \<Rightarrow> connect_state \<Rightarrow> bool" where
  "sessions_ok ss cur cs \<longleftrightarrow>
     (\<forall>i < length ss. s_ended (ss ! i) \<longleftrightarrow> s_error (ss ! i) \<noteq> None) \<and>
     (case cur of None \<Rightarrow> ss = [] | Some i \<Rightarrow> Suc i = length ss) \<and>
     (\<forall>i. Suc i < length ss \<longrightarrow> s_ended (ss ! i)) \<and>
     (case cs of ConnStopping k a fp \<Rightarrow> \<forall>i < length ss. s_ended (ss ! i) | _ \<Rightarrow> True)"

definition node_wf :: "node \<Rightarrow> bool" where
  "node_wf n \<longleftrightarrow> (let m = length (n_sessions n) in
     (\<forall>t \<in> set (n_runs n). run_session t < m) \<and> (\<forall>c \<in> set (n_ctls n). ctl_ok m c) \<and>
     (\<forall>p \<in> set (n_proxies n). proxy_ok m p) \<and> (\<forall>a \<in> set (n_accepts n). accept_ok m a) \<and>
     (\<forall>st \<in> set (n_stops n). stop_ok m st) \<and> sessions_ok (n_sessions n) (n_session n) (n_connect n))"

lemma ok_mono:
  "ctl_ok m c \<Longrightarrow> ctl_ok (Suc m) c" "proxy_ok m p \<Longrightarrow> proxy_ok (Suc m) p"
  "accept_ok m a \<Longrightarrow> accept_ok (Suc m) a" "stop_ok m st \<Longrightarrow> stop_ok (Suc m) st"
  by ((cases c; simp)[1], (cases p; simp)[1], (cases a; simp)[1], (cases st; simp)[1])

lemma sessions_ok_frame:
  assumes "sessions_ok ss cur cs" "\<And>s. s_ended (f s) = s_ended s" "\<And>s. s_error (f s) = s_error s"
  shows "sessions_ok (ss[i := f (ss ! i)]) cur cs"
  using assms by (auto simp: sessions_ok_def nth_update_at split: option.splits connect_state.splits)

section \<open>The abstraction to ownership\<close>

definition run_held :: "setup_run \<Rightarrow> (nat \<times> nat) multiset" where
  "run_held t = (case run_state t of
     RunOp r \<Rightarrow> {#(run_session t, r)#} | RunOk r \<Rightarrow> {#(run_session t, r)#} | _ \<Rightarrow> {#})"

definition queue_held :: "session list \<Rightarrow> (nat \<times> nat) multiset" where
  "queue_held ss = (\<Sum>i<length ss. image_mset (Pair i) (mset (s_incoming (ss ! i))))"

fun accept_held :: "accept_state \<Rightarrow> (nat \<times> nat) multiset" where
  "accept_held (Received i r) = {#(i, r)#}"
| "accept_held _ = {#}"

definition node_held :: "node \<Rightarrow> (nat \<times> nat) multiset" where
  "node_held n = sum_list (map run_held (n_runs n)) + queue_held (n_sessions n) +
     sum_list (map accept_held (n_accepts n))"

definition node_pend :: "session list \<Rightarrow> (nat \<times> nat) set" where
  "node_pend ss = {(i, r). i < length ss \<and> r \<in> s_pending (ss ! i)}"

definition node_dead :: "session list \<Rightarrow> nat set" where
  "node_dead ss = {i. i < length ss \<and> s_ended (ss ! i)}"

definition own_of :: "node \<Rightarrow> own" where
  "own_of n = \<lparr>o_held = node_held n, o_pend = node_pend (n_sessions n), o_dead = node_dead (n_sessions n),
     o_opened = n_opened n, o_given = n_given n, o_shut = n_shut n\<rparr>"

lemma own_of_sel [simp]:
  "o_held (own_of n) = node_held n" "o_pend (own_of n) = node_pend (n_sessions n)"
  "o_dead (own_of n) = node_dead (n_sessions n)" "o_opened (own_of n) = n_opened n"
  "o_given (own_of n) = n_given n" "o_shut (own_of n) = n_shut n"
  by (simp_all add: own_of_def)

subsection \<open>Effect of the elementary updates\<close>

lemma queue_held_cong:
  assumes "length ss = length ss'" "\<And>i. i < length ss \<Longrightarrow> s_incoming (ss ! i) = s_incoming (ss' ! i)"
  shows "queue_held ss = queue_held ss'"
  using assms by (simp add: queue_held_def)

lemma queue_held_update:
  assumes "i < length ss"
  shows "queue_held (ss[i := s]) + image_mset (Pair i) (mset (s_incoming (ss ! i))) =
    queue_held ss + image_mset (Pair i) (mset (s_incoming s))"
proof -
  let ?f = "\<lambda>ss i. image_mset (Pair i) (mset (s_incoming (ss ! i)))"
  have e: "queue_held xs = ?f xs i + (\<Sum>j\<in>{..<length xs} - {i}. ?f xs j)" if "i < length xs" for xs :: "session list"
    using that unfolding queue_held_def by (subst sum.remove [of _ i]) auto
  have "(\<Sum>j\<in>{..<length ss} - {i}. ?f (ss[i := s]) j) = (\<Sum>j\<in>{..<length ss} - {i}. ?f ss j)"
    by (rule sum.cong) auto
  with e [of ss] e [of "ss[i := s]"] assms show ?thesis by (simp add: ac_simps)
qed

lemma own_of_irrelevant [simp]:
  "own_of (n\<lparr>n_closed := b\<rparr>) = own_of n" "own_of (n\<lparr>n_session := x\<rparr>) = own_of n"
  "own_of (n\<lparr>n_relay_addr := a\<rparr>) = own_of n" "own_of (n\<lparr>n_relay_fp := fp\<rparr>) = own_of n"
  "own_of (n\<lparr>n_control := x\<rparr>) = own_of n" "own_of (n\<lparr>n_connect := cs\<rparr>) = own_of n"
  "own_of (n\<lparr>n_proxies := ps\<rparr>) = own_of n" "own_of (n\<lparr>n_ctls := xs\<rparr>) = own_of n"
  "own_of (n\<lparr>n_dials := ds\<rparr>) = own_of n" "own_of (n\<lparr>n_stops := sts\<rparr>) = own_of n"
  by (simp_all add: own_of_def node_held_def)

lemma own_of_records [simp]:
  "own_of (shut r n) = (own_of n)\<lparr>o_shut := insert r (n_shut n)\<rparr>"
  "own_of (give r n) = (own_of n)\<lparr>o_given := insert r (n_given n)\<rparr>"
  "own_of (n\<lparr>n_opened := os\<rparr>) = (own_of n)\<lparr>o_opened := os\<rparr>"
  "own_of (n\<lparr>n_shut := ss\<rparr>) = (own_of n)\<lparr>o_shut := ss\<rparr>"
  by (simp_all add: own_of_def node_held_def shut_def give_def)

lemma upd_session_sel [simp]:
  "n_runs (upd_session i f n) = n_runs n" "n_accepts (upd_session i f n) = n_accepts n"
  "n_opened (upd_session i f n) = n_opened n" "n_given (upd_session i f n) = n_given n"
  "n_shut (upd_session i f n) = n_shut n" "length (n_sessions (upd_session i f n)) = length (n_sessions n)"
  "n_sessions (upd_session i f n) = (n_sessions n)[i := f (n_sessions n ! i)]"
  "n_session (upd_session i f n) = n_session n" "n_connect (upd_session i f n) = n_connect n"
  "n_ctls (upd_session i f n) = n_ctls n" "n_proxies (upd_session i f n) = n_proxies n"
  "n_stops (upd_session i f n) = n_stops n" "n_dials (upd_session i f n) = n_dials n"
  "n_closed (upd_session i f n) = n_closed n"
  by (simp_all add: upd_session_def)

lemma set_run_sel [simp]:
  "n_sessions (set_run k st n) = n_sessions n" "n_accepts (set_run k st n) = n_accepts n"
  "n_opened (set_run k st n) = n_opened n" "n_given (set_run k st n) = n_given n"
  "n_shut (set_run k st n) = n_shut n" "n_session (set_run k st n) = n_session n"
  "n_runs (set_run k st n) = (n_runs n)[k := (n_runs n ! k)\<lparr>run_state := st\<rparr>]"
  "n_connect (set_run k st n) = n_connect n" "n_ctls (set_run k st n) = n_ctls n"
  "n_proxies (set_run k st n) = n_proxies n" "n_stops (set_run k st n) = n_stops n"
  "n_dials (set_run k st n) = n_dials n" "n_closed (set_run k st n) = n_closed n"
  by (simp_all add: set_run_def)

lemma records_sel [simp]:
  "n_sessions (shut r n) = n_sessions n" "n_sessions (give r n) = n_sessions n"
  "n_runs (shut r n) = n_runs n" "n_runs (give r n) = n_runs n" "n_runs (discard i r n) = n_runs n"
  "n_accepts (shut r n) = n_accepts n" "n_accepts (give r n) = n_accepts n"
  "n_accepts (discard i r n) = n_accepts n"
  "n_given (shut r n) = n_given n" "n_shut (give r n) = n_shut n" "n_opened (shut r n) = n_opened n"
  "n_opened (give r n) = n_opened n" "n_given (discard i r n) = n_given n" "n_shut (discard i r n) = n_shut n"
  "n_opened (discard i r n) = n_opened n"
  by (simp_all add: shut_def give_def discard_def)

lemma sessions_frame:
  assumes "\<And>s. s_pending (f s) = s_pending s" "\<And>s. s_ended (f s) = s_ended s"
  shows "node_pend (ss[i := f (ss ! i)]) = node_pend ss" "node_dead (ss[i := f (ss ! i)]) = node_dead ss"
  using assms by (auto simp: node_pend_def node_dead_def nth_update_at split: if_splits)

lemma own_of_upd_frame:
  assumes "\<And>s. s_pending (f s) = s_pending s" "\<And>s. s_ended (f s) = s_ended s"
    "\<And>s. s_incoming (f s) = s_incoming s"
  shows "own_of (upd_session i f n) = own_of n"
proof -
  have "queue_held ((n_sessions n)[i := f (n_sessions n ! i)]) = queue_held (n_sessions n)"
    by (rule queue_held_cong) (auto simp: nth_update_at assms(3))
  then show ?thesis
    using sessions_frame [of f] assms by (simp add: own_of_def node_held_def)
qed

lemma own_of_discard [simp]: "own_of (discard i r n) = (own_of n)\<lparr>o_pend := node_pend (n_sessions n) - {(i, r)}\<rparr>"
proof -
  let ?ss = "(n_sessions n)[i := (n_sessions n ! i)\<lparr>s_pending := s_pending (n_sessions n ! i) - {r}\<rparr>]"
  have "queue_held ?ss = queue_held (n_sessions n)" by (rule queue_held_cong) (auto simp: nth_update_at)
  moreover have "node_pend ?ss = node_pend (n_sessions n) - {(i, r)}" "node_dead ?ss = node_dead (n_sessions n)"
    by (auto simp: node_pend_def node_dead_def nth_update_at split: if_splits)
  ultimately show ?thesis by (simp add: own_of_def node_held_def discard_def)
qed

lemma held_set_run:
  assumes "k < length (n_runs n)"
  shows "node_held (set_run k st n) + run_held (n_runs n ! k) =
    node_held n + run_held ((n_runs n ! k)\<lparr>run_state := st\<rparr>)"
  using sum_list_map_update [OF assms, of run_held] by (simp add: node_held_def ac_simps)

lemma own_of_set_run: "own_of (set_run k st n) = (own_of n)\<lparr>o_held := node_held (set_run k st n)\<rparr>"
  by (simp add: own_of_def)

text \<open>A step of a run that holds as much after as before.\<close>

lemma own_of_set_run_same:
  assumes "k < length (n_runs n)" "run_held ((n_runs n ! k)\<lparr>run_state := st\<rparr>) = run_held (n_runs n ! k)"
  shows "own_of (set_run k st n) = own_of n"
  using held_set_run [OF assms(1), of st] assms(2) by (simp add: own_of_def)

text \<open>A run lets go of its connection.\<close>

lemma held_set_run_drop:
  assumes "k < length (n_runs n)" "run_state (n_runs n ! k) = RunOp r \<or> run_state (n_runs n ! k) = RunOk r"
    "st = RunTaken \<or> (\<exists>e. st = RunFailed e)"
  shows "node_held n = add_mset (run_session (n_runs n ! k), r) (node_held (set_run k st n))"
  using held_set_run [OF assms(1), of st] assms(2,3) by (auto simp: run_held_def)

lemma own_of_spawn: "spawn_run i n = (n', k) \<Longrightarrow> own_of n' = own_of n"
  by (auto simp: own_of_def node_held_def spawn_run_def run_held_def)

lemma own_of_new_session:
  "own_of (n\<lparr>n_sessions := n_sessions n @ [new_session a fp]\<rparr>) = own_of n"
proof -
  let ?ss = "n_sessions n @ [new_session a fp]"
  have "queue_held ?ss = queue_held (n_sessions n)"
    by (simp add: queue_held_def new_session_def nth_append)
  moreover have "node_pend ?ss = node_pend (n_sessions n)" "node_dead ?ss = node_dead (n_sessions n)"
    by (auto simp: node_pend_def node_dead_def nth_append new_session_def less_Suc_eq split: if_splits)
  ultimately show ?thesis by (simp add: own_of_def node_held_def)
qed

section \<open>Every step keeps the references valid\<close>

lemma wf_run_session: "node_wf n \<Longrightarrow> k < length (n_runs n) \<Longrightarrow> run_session (n_runs n ! k) < length (n_sessions n)"
  by (auto simp: node_wf_def Let_def)

lemma wf_set_run: "node_wf n \<Longrightarrow> k < length (n_runs n) \<Longrightarrow> node_wf (set_run k st n)"
  using wf_run_session [of n k] by (auto simp: node_wf_def Let_def dest!: in_set_updateD)

lemma wf_upd:
  assumes "node_wf n" "\<And>s. s_ended (f s) = s_ended s" "\<And>s. s_error (f s) = s_error s"
  shows "node_wf (upd_session i f n)"
  using assms(1) sessions_ok_frame [OF _ assms(2,3)] by (simp add: node_wf_def Let_def)

lemma wf_discard: "node_wf n \<Longrightarrow> node_wf (discard i r n)"
  unfolding discard_def by (rule wf_upd) simp_all

lemma wf_records [simp]:
  "node_wf (shut r n) = node_wf n" "node_wf (give r n) = node_wf n"
  "node_wf (n\<lparr>n_opened := os\<rparr>) = node_wf n" "node_wf (n\<lparr>n_shut := sh\<rparr>) = node_wf n"
  "node_wf (n\<lparr>n_control := x\<rparr>) = node_wf n" "node_wf (n\<lparr>n_closed := b\<rparr>) = node_wf n"
  "node_wf (n\<lparr>n_relay_addr := a\<rparr>) = node_wf n" "node_wf (n\<lparr>n_relay_fp := fp\<rparr>) = node_wf n"
  "node_wf (n\<lparr>n_dials := ds\<rparr>) = node_wf n"
  by (simp_all add: node_wf_def shut_def give_def)

lemma wf_lists:
  assumes "node_wf n"
  shows "ctl_ok (length (n_sessions n)) c \<Longrightarrow> node_wf (n\<lparr>n_ctls := n_ctls n @ [c]\<rparr>)"
    "ctl_ok (length (n_sessions n)) c \<Longrightarrow> node_wf (n\<lparr>n_ctls := (n_ctls n)[j := c]\<rparr>)"
    "proxy_ok (length (n_sessions n)) p \<Longrightarrow> node_wf (n\<lparr>n_proxies := n_proxies n @ [p]\<rparr>)"
    "proxy_ok (length (n_sessions n)) p \<Longrightarrow> node_wf (n\<lparr>n_proxies := (n_proxies n)[j := p]\<rparr>)"
    "accept_ok (length (n_sessions n)) a \<Longrightarrow> node_wf (n\<lparr>n_accepts := n_accepts n @ [a]\<rparr>)"
    "accept_ok (length (n_sessions n)) a \<Longrightarrow> node_wf (n\<lparr>n_accepts := (n_accepts n)[j := a]\<rparr>)"
    "stop_ok (length (n_sessions n)) st \<Longrightarrow> node_wf (n\<lparr>n_stops := n_stops n @ [st]\<rparr>)"
    "stop_ok (length (n_sessions n)) st \<Longrightarrow> node_wf (n\<lparr>n_stops := (n_stops n)[j := st]\<rparr>)"
  using assms by (auto simp: node_wf_def Let_def dest!: in_set_updateD)

lemma wf_connect:
  assumes "node_wf n" "\<And>k a fp. cs \<noteq> ConnStopping k a fp"
  shows "node_wf (n\<lparr>n_connect := cs\<rparr>)"
  using assms by (auto simp: node_wf_def sessions_ok_def Let_def split: connect_state.splits)

lemma wf_spawn: "node_wf n \<Longrightarrow> i < length (n_sessions n) \<Longrightarrow> node_wf (fst (spawn_run i n))"
  by (auto simp: node_wf_def spawn_run_def Let_def)

lemma wf_current: "node_wf n \<Longrightarrow> n_session n = Some i \<Longrightarrow> i < length (n_sessions n)"
  by (auto simp: node_wf_def sessions_ok_def Let_def)

lemma wf_refs:
  assumes "node_wf n"
  shows "c < length (n_ctls n) \<Longrightarrow> n_ctls n ! c = CtlReading i \<Longrightarrow> i < length (n_sessions n)"
    "p < length (n_proxies n) \<Longrightarrow> n_proxies n ! p = PxNew i pl \<Longrightarrow> i < length (n_sessions n)"
    "a < length (n_accepts n) \<Longrightarrow> n_accepts n ! a = Awaiting i \<Longrightarrow> i < length (n_sessions n)"
    "a < length (n_accepts n) \<Longrightarrow> n_accepts n ! a = Received i r \<Longrightarrow> i < length (n_sessions n)"
    "k < length (n_stops n) \<Longrightarrow> n_stops n ! k = StopWait i rs ps cs \<Longrightarrow> i < length (n_sessions n)"
proof -
  let ?m = "length (n_sessions n)"
  have "c < length (n_ctls n) \<Longrightarrow> ctl_ok ?m (n_ctls n ! c)" "p < length (n_proxies n) \<Longrightarrow> proxy_ok ?m (n_proxies n ! p)"
    "a < length (n_accepts n) \<Longrightarrow> accept_ok ?m (n_accepts n ! a)" "k < length (n_stops n) \<Longrightarrow> stop_ok ?m (n_stops n ! k)"
    using assms by (auto simp: node_wf_def Let_def)
  then show "c < length (n_ctls n) \<Longrightarrow> n_ctls n ! c = CtlReading i \<Longrightarrow> i < ?m"
    "p < length (n_proxies n) \<Longrightarrow> n_proxies n ! p = PxNew i pl \<Longrightarrow> i < ?m"
    "a < length (n_accepts n) \<Longrightarrow> n_accepts n ! a = Awaiting i \<Longrightarrow> i < ?m"
    "a < length (n_accepts n) \<Longrightarrow> n_accepts n ! a = Received i r \<Longrightarrow> i < ?m"
    "k < length (n_stops n) \<Longrightarrow> n_stops n ! k = StopWait i rs ps cs \<Longrightarrow> i < ?m" by simp_all
qed

lemma wf_stop_begin:
  assumes "node_wf n" "i < length (n_sessions n)"
  shows "node_wf (fst (stop_begin i e cur n))"
proof -
  let ?n = "n\<lparr>n_shut := n_shut n \<union> s_pending (n_sessions n ! i), n_stops := n_stops n @
      [StopWait i (session_runs i n) (session_proxies i n) (session_ctls cur i n)]\<rparr>"
  have "node_wf ?n" using wf_lists(7) [OF assms(1), of "StopWait i (session_runs i n) (session_proxies i n)
      (session_ctls cur i n)"] assms(2) by (simp add: node_wf_def)
  then have "node_wf (upd_session i (\<lambda>s. s\<lparr>s_error := Some e, s_ended := True, s_pending := {}\<rparr>) ?n)"
    by (auto simp: node_wf_def sessions_ok_def nth_update_at Let_def split: option.splits connect_state.splits)
  with assms(1) show ?thesis by (simp add: stop_begin_def Let_def)
qed

lemma stop_begin_ended:
  assumes "node_wf n" "i < length (n_sessions n)"
  shows "s_ended (n_sessions (fst (stop_begin i e cur n)) ! i)"
    "length (n_sessions (fst (stop_begin i e cur n))) = length (n_sessions n)"
    "n_session (fst (stop_begin i e cur n)) = n_session n"
    "n_connect (fst (stop_begin i e cur n)) = n_connect n"
    "n_ctls (fst (stop_begin i e cur n)) = n_ctls n"
  using assms by (auto simp: stop_begin_def node_wf_def sessions_ok_def Let_def)

text \<open>When the current session has ended, all have.\<close>

lemma wf_all_ended:
  assumes "node_wf n" "n_session n = Some i" "s_ended (n_sessions n ! i)"
  shows "\<forall>j < length (n_sessions n). s_ended (n_sessions n ! j)"
proof (intro allI impI)
  fix j assume j: "j < length (n_sessions n)"
  have "Suc i = length (n_sessions n)" using assms(1,2) by (auto simp: node_wf_def sessions_ok_def Let_def)
  with j have "Suc j < length (n_sessions n) \<or> j = i" by linarith
  with assms show "s_ended (n_sessions n ! j)" by (auto simp: node_wf_def sessions_ok_def Let_def)
qed

lemma wf_connect_open:
  assumes "node_wf n" "\<forall>j < length (n_sessions n). s_ended (n_sessions n ! j)"
  shows "node_wf (connect_open a fp n)"
proof -
  have "\<forall>c \<in> set (n_ctls n). ctl_ok (Suc (length (n_sessions n))) c"
    "\<forall>p \<in> set (n_proxies n). proxy_ok (Suc (length (n_sessions n))) p"
    "\<forall>x \<in> set (n_accepts n). accept_ok (Suc (length (n_sessions n))) x"
    "\<forall>st \<in> set (n_stops n). stop_ok (Suc (length (n_sessions n))) st"
    using assms(1) ok_mono by (auto simp: node_wf_def Let_def)
  moreover have "\<forall>t \<in> set (n_runs n). run_session t < Suc (length (n_sessions n))"
    using assms(1) by (auto simp: node_wf_def Let_def)
  moreover have "sessions_ok (n_sessions n @ [new_session a fp]) (Some (length (n_sessions n))) (ConnSetup k)" for k
    using assms by (auto simp: node_wf_def sessions_ok_def nth_append new_session_def Let_def)
  ultimately show ?thesis
    by (simp add: connect_open_def spawn_run_def node_wf_def Let_def)
qed

lemma wf_connect_enter:
  assumes "node_wf n"
  shows "node_wf (fst (connect_enter a fp n))"
proof (cases "n_session n")
  case None
  with assms have "n_sessions n = []" by (simp add: node_wf_def sessions_ok_def Let_def)
  with None assms wf_connect_open [OF assms] show ?thesis
    by (simp add: connect_enter_def check_fp_def)
next
  case (Some i)
  let ?e = "Exn ConnectionError [Txt ''relay session replaced'']"
  note i = wf_current [OF assms Some]
  obtain n' k where st: "stop_begin i ?e None n = (n', k)" by fastforce
  have w: "node_wf n'" using wf_stop_begin [OF assms i, of ?e None] st by simp
  have a: "\<forall>j < length (n_sessions n'). s_ended (n_sessions n' ! j)"
    using wf_all_ended [OF w, of i] stop_begin_ended [OF assms i, of ?e None] st Some by simp
  have "node_wf (n'\<lparr>n_connect := ConnStopping j a fp\<rparr>)" for j
    using w a by (auto simp: node_wf_def sessions_ok_def Let_def)
  with wf_connect_open [OF w a] assms Some st show ?thesis
    by (auto simp: connect_enter_def check_fp_def split: option.split)
qed

lemma wf_connect_stopped:
  assumes "node_wf n"
  shows "node_wf (fst (connect_stopped n))"
proof (cases "n_connect n")
  case (ConnStopping k a fp)
  then have "\<forall>j < length (n_sessions n). s_ended (n_sessions n ! j)"
    using assms by (auto simp: node_wf_def sessions_ok_def Let_def)
  then show ?thesis using assms ConnStopping wf_connect_open [OF assms] wf_connect [OF assms, of ConnIdle]
    by (auto simp: connect_stopped_def split: stop_state.split)
qed (use assms in \<open>simp_all add: connect_stopped_def\<close>)

lemma wf_connect_done:
  assumes "node_wf n" "k < length (n_runs n)"
  shows "node_wf (fst (connect_done k r n))"
proof -
  let ?i = "run_session (n_runs n ! k)"
  let ?n = "upd_session ?i (\<lambda>s. s\<lparr>s_control := Some r\<rparr>) (set_run k RunTaken n)"
  have "node_wf ?n" by (intro wf_upd wf_set_run assms) simp_all
  then have "node_wf (?n\<lparr>n_ctls := n_ctls ?n @ [CtlReading ?i]\<rparr>)"
    by (rule wf_lists(1)) (use wf_run_session [OF assms] in simp)
  from wf_connect [OF this, of ConnIdle] show ?thesis by (simp add: connect_done_def Let_def node_wf_def)
qed

lemma wf_connect_failed:
  assumes "node_wf n" "k < length (n_runs n)"
  shows "node_wf (fst (connect_failed k e n))"
proof -
  let ?i = "run_session (n_runs n ! k)" and ?n = "set_run k RunTaken n"
    and ?e = "Exn ConnectionError [Txt ''relay setup failed'']"
  obtain n' j where st: "stop_begin ?i ?e None ?n = (n', j)" by fastforce
  have "node_wf n'"
    using wf_stop_begin [OF wf_set_run [OF assms, of RunTaken], of ?i ?e None] st wf_run_session [OF assms] by simp
  with st show ?thesis by (auto simp: connect_failed_def Let_def intro!: wf_connect split: option.split)
qed

lemma wf_stop_finish:
  assumes "node_wf n" "n_stops n ! k = StopWait i rs ps cs"
  shows "node_wf (stop_finish k n)"
proof -
  have "node_wf (upd_session i (\<lambda>s. s\<lparr>s_incoming := []\<rparr>) n)" by (intro wf_upd assms) simp_all
  from wf_lists(8) [OF this, of StopOver k] assms(2) show ?thesis
    by (auto simp: stop_finish_def Let_def node_wf_def)
qed

lemma wf_run_dialed:
  assumes "node_wf n" "k < length (n_runs n)"
  shows "node_wf (run_dialed k r n)"
proof -
  let ?i = "run_session (n_runs n ! k)"
  have "node_wf (upd_session ?i (\<lambda>s. s\<lparr>s_pending := insert r (s_pending s)\<rparr>) (n\<lparr>n_opened := insert r (n_opened n)\<rparr>))"
    by (rule wf_upd) (use assms in simp_all)
  then show ?thesis using assms(2)
    by (auto simp: run_dialed_def Let_def discard_def intro!: wf_set_run wf_upd)
qed

lemma wf_ctl_message:
  assumes "node_wf n" "c < length (n_ctls n)" "n_ctls n ! c = CtlReading i"
  shows "node_wf (ctl_message c i m n)"
proof -
  have i: "i < length (n_sessions n)" by (rule wf_refs(1) [OF assms])
  show ?thesis
  proof (cases "control_turn m")
    case (CtlLost e)
    obtain n' j where st: "stop_begin i e (Some c) n = (n', j)" by fastforce
    have w: "node_wf n'" using wf_stop_begin [OF assms(1) i, of e "Some c"] st by simp
    from CtlLost st wf_lists(2) [OF w] show ?thesis by (auto simp: ctl_message_def split: option.split)
  qed (use assms i wf_lists(3) in \<open>auto simp: ctl_message_def\<close>)
qed

lemma wf_proxy_start:
  assumes "node_wf n" "p < length (n_proxies n)" "n_proxies n ! p = PxNew i pl"
  shows "node_wf (proxy_start p i pl n)"
proof -
  have i: "i < length (n_sessions n)" by (rule wf_refs(2) [OF assms])
  from wf_lists(4) [OF wf_spawn [OF assms(1) i], of _ p] assms(1) show ?thesis
    by (auto simp: proxy_start_def spawn_run_def wf_lists split: res.split)
qed

lemma wf_proxy_done:
  assumes "node_wf n" "k < length (n_runs n)"
  shows "node_wf (proxy_done p k r n)"
proof -
  let ?i = "run_session (n_runs n ! k)"
  have "node_wf (upd_session ?i (\<lambda>s. s\<lparr>s_incoming := s_incoming s @ [r]\<rparr>) (set_run k RunTaken n))"
    by (intro wf_upd wf_set_run assms) simp_all
  from wf_lists(4) [OF this, of PxDone p] show ?thesis by (simp add: proxy_done_def Let_def)
qed

lemma wf_proxy_failed:
  assumes "node_wf n" "k < length (n_runs n)"
  shows "node_wf (proxy_failed p k n)"
  using wf_lists(4) [OF wf_set_run [OF assms, of RunTaken], of PxDone p] by (simp add: proxy_failed_def)

lemma wf_current_session:
  assumes "node_wf n" "current_session n = Return i"
  shows "i < length (n_sessions n)"
  using assms wf_current [OF assms(1)] by (auto simp: current_session_def split: if_splits option.splits)

lemma wf_dial_call:
  assumes "node_wf n"
  shows "node_wf (fst (dial_call fp n))"
proof (cases "bind_res (check_fp ''peer'' fp) (\<lambda>_. current_session n)")
  case (Return i)
  then have "i < length (n_sessions n)" by (auto simp: res_simps intro: wf_current_session [OF assms])
  from wf_spawn [OF assms this] Return show ?thesis by (simp add: dial_call_def spawn_run_def)
qed (use assms in \<open>simp_all add: dial_call_def\<close>)

lemma wf_accept_call:
  assumes "node_wf n"
  shows "node_wf (fst (accept_call n))"
proof (cases "current_session n")
  case (Return i)
  with wf_lists(5) [OF assms] wf_current_session [OF assms] show ?thesis by (simp add: accept_call_def)
qed (use assms in \<open>simp_all add: accept_call_def\<close>)

lemma wf_accept_get:
  assumes "node_wf n" "a < length (n_accepts n)" "n_accepts n ! a = Awaiting i"
  shows "node_wf (accept_get a i n)"
proof -
  have i: "i < length (n_sessions n)" by (rule wf_refs(3) [OF assms])
  have "node_wf (upd_session i (\<lambda>s. s\<lparr>s_incoming := q\<rparr>) n)" for q by (rule wf_upd) (use assms in simp_all)
  from wf_lists(6) [OF this, where j = a] assms(1) i show ?thesis
    by (auto simp: accept_get_def split: list.split)
qed

lemma wf_close: "node_wf n \<Longrightarrow> node_wf (node_close n)"
  using wf_stop_begin [of "n\<lparr>n_closed := True\<rparr>"] wf_current [of n]
  by (auto simp: node_close_def Let_def split: option.split)

lemmas wf_ops = wf_connect_enter wf_connect_stopped wf_connect_done wf_connect_failed wf_stop_finish wf_run_dialed
  wf_ctl_message wf_proxy_start wf_proxy_done wf_proxy_failed wf_dial_call wf_accept_call wf_accept_get wf_close

lemma node_step_wf: "node_step n n' \<Longrightarrow> node_wf n \<Longrightarrow> node_wf n'"
proof (induction rule: node_step.induct)
  case (connect_raised n)
  then show ?case by (auto simp: connect_raised_def intro!: wf_connect split: connect_state.split stop_state.split)
next
  case (stop_abort k n i rs ps cs)
  then show ?case by (simp add: stop_abort_def wf_lists)
next
  case (accept_resume a n)
  then show ?case
    by (auto simp: accept_resume_def accept_drop_def Let_def discard_def intro!: wf_upd wf_lists split: accept_state.split)
next
  case (accept_cancelled a n)
  then show ?case
    by (auto simp: accept_drop_def Let_def discard_def intro!: wf_upd wf_lists split: accept_state.split)
qed (blast intro: wf_ops
  | auto simp: run_start_def run_dial_failed_def run_op_done_def run_op_failed_def ctl_over_def proxy_cancelled_def
      dial_done_def dial_failed_def discard_def Let_def intro!: wf_set_run wf_upd wf_lists)+

lemma node_wf_init: "node_wf Node_init"
  by (simp add: node_wf_def Node_init_def sessions_ok_def)

lemma node_reaches_wf: "node_reaches n n' \<Longrightarrow> node_wf n \<Longrightarrow> node_wf n'"
  by (induction rule: node_reaches.induct) (auto intro: node_step_wf)

lemma node_reachable_wf: "node_reachable n \<Longrightarrow> node_wf n"
  unfolding node_reachable_def by (blast intro: node_reaches_wf node_wf_init)

section \<open>Every step is allowed by the ownership machine\<close>

lemma own_of_connect_open: "own_of (connect_open a fp n) = own_of n"
proof -
  have "own_of (connect_open a fp n) = own_of (n\<lparr>n_sessions := n_sessions n @ [new_session a fp]\<rparr>)"
    by (simp add: connect_open_def spawn_run_def own_of_def node_held_def run_held_def Let_def)
  then show ?thesis by (simp only: own_of_new_session)
qed

lemma sim_stop_begin:
  assumes "i < length (n_sessions n)"
  shows "own_reaches (own_of n) (own_of (fst (stop_begin i e cur n)))"
proof (cases "s_error (n_sessions n ! i) = None")
  case True
  let ?ss = "(n_sessions n)[i := (n_sessions n ! i)\<lparr>s_error := Some e, s_ended := True, s_pending := {}\<rparr>]"
  have "queue_held ?ss = queue_held (n_sessions n)" by (rule queue_held_cong) (auto simp: nth_update_at)
  moreover have "node_pend ?ss = {x \<in> node_pend (n_sessions n). fst x \<noteq> i}"
    "node_dead ?ss = insert i (node_dead (n_sessions n))"
    "{r. (i, r) \<in> node_pend (n_sessions n)} = s_pending (n_sessions n ! i)"
    using assms by (auto simp: node_pend_def node_dead_def nth_update_at split: if_splits)
  ultimately have "own_of (fst (stop_begin i e cur n)) =
      (own_of n)\<lparr>o_dead := insert i (o_dead (own_of n)), o_shut := o_shut (own_of n) \<union> {r. (i, r) \<in> o_pend (own_of n)},
        o_pend := {x \<in> o_pend (own_of n). fst x \<noteq> i}\<rparr>"
    using True by (simp add: stop_begin_def own_of_def node_held_def Let_def)
  then show ?thesis using own_reaches_step [OF own_stop [of "own_of n" i]] by simp
next
  case False
  then show ?thesis by (simp add: stop_begin_def own_here Let_def)
qed

text \<open>A run that holds \<open>r\<close> gives it up: forgotten, closed, or handed out.\<close>

lemma sim_run_taken:
  assumes "k < length (n_runs n)"
  shows "own_reaches (own_of n) (own_of (set_run k RunTaken n))"
proof -
  have "node_held (set_run k RunTaken n) + run_held (n_runs n ! k) = node_held n"
    using held_set_run [OF assms, of RunTaken] by (simp add: run_held_def)
  then have "own_step (own_of n) ((own_of n)\<lparr>o_held := node_held (set_run k RunTaken n)\<rparr>)"
    by (intro own_forget [of _ "run_held (n_runs n ! k)"]) (simp add: ac_simps)
  then show ?thesis unfolding own_of_set_run by (rule own_reaches_step)
qed

lemma sim_run_drop:
  assumes "k < length (n_runs n)" "run_state (n_runs n ! k) = RunOp r"
  shows "own_reaches (own_of n) (own_of (run_op_failed k r e n))"
proof -
  let ?i = "run_session (n_runs n ! k)" and ?h = "node_held (set_run k (RunFailed e) n)"
  have h: "o_held (own_of n) = add_mset (?i, r) ?h" using held_set_run_drop [OF assms(1), of r "RunFailed e"] assms(2) by simp
  have "node_held (set_run k (RunFailed e) (shut r (discard ?i r n))) = ?h"
  proof -
    have "queue_held ((n_sessions n)[?i := (n_sessions n ! ?i)\<lparr>s_pending := s_pending (n_sessions n ! ?i) - {r}\<rparr>]) =
        queue_held (n_sessions n)" by (rule queue_held_cong) (auto simp: nth_update_at)
    then show ?thesis by (simp add: node_held_def shut_def discard_def)
  qed
  then have "own_of (run_op_failed k r e n) = (own_of n)\<lparr>o_held := ?h, o_pend := o_pend (own_of n) - {(?i, r)},
      o_shut := insert r (o_shut (own_of n))\<rparr>"
    by (simp add: run_op_failed_def own_of_set_run)
  then show ?thesis using own_reaches_step [OF own_drop [OF h]] by simp
qed

lemma sim_eq: "own_of n' = own_of n \<Longrightarrow> own_reaches (own_of n) (own_of n')"
  by (simp add: own_here)

lemma sim_connect_enter:
  assumes "node_wf n"
  shows "own_reaches (own_of n) (own_of (fst (connect_enter a fp n)))"
proof (cases "n_session n")
  case None
  then show ?thesis by (simp add: connect_enter_def check_fp_def own_of_connect_open own_here)
next
  case (Some i)
  let ?e = "Exn ConnectionError [Txt ''relay session replaced'']"
  obtain n' k where st: "stop_begin i ?e None n = (n', k)" by fastforce
  then have "own_reaches (own_of n) (own_of n')"
    using sim_stop_begin [OF wf_current [OF assms Some], of ?e None] by simp
  with Some st show ?thesis
    by (auto simp: connect_enter_def check_fp_def own_of_connect_open own_here split: option.split)
qed

lemma sim_run_dialed:
  assumes "k < length (n_runs n)" "run_state (n_runs n ! k) = RunDialing" "r \<notin> n_opened n" "node_wf n"
    "own_inv (own_of n)"
  shows "own_reaches (own_of n) (own_of (run_dialed k r n))"
proof -
  let ?i = "run_session (n_runs n ! k)"
  let ?n = "upd_session ?i (\<lambda>s. s\<lparr>s_pending := insert r (s_pending s)\<rparr>) (n\<lparr>n_opened := insert r (n_opened n)\<rparr>)"
  have i: "?i < length (n_sessions n)" by (rule wf_run_session [OF assms(4,1)])
  have e: "s_ended (the_session k ?n) = s_ended (n_sessions n ! ?i)" using i by (simp add: the_session_def)
  have q: "queue_held (n_sessions ?n) = queue_held (n_sessions n)"
    by (rule queue_held_cong) (auto simp: nth_update_at)
  have p: "node_pend (n_sessions ?n) = insert (?i, r) (node_pend (n_sessions n))"
    "node_dead (n_sessions ?n) = node_dead (n_sessions n)"
    using i by (auto simp: node_pend_def node_dead_def nth_update_at split: if_splits)
  have o: "own_of ?n = (own_of n)\<lparr>o_opened := insert r (n_opened n), o_pend := insert (?i, r) (node_pend (n_sessions n))\<rparr>"
    using q p by (simp add: own_of_def node_held_def)
  show ?thesis
  proof (cases "s_ended (n_sessions n ! ?i)")
    case True
    let ?n' = "shut r (discard ?i r ?n)"
    have "(?i, r) \<notin> node_pend (n_sessions n)" using own_fresh(3) [OF assms(5)] assms(3) by simp
    then have n': "own_of ?n' = (own_of n)\<lparr>o_opened := insert r (o_opened (own_of n)), o_shut := insert r (o_shut (own_of n))\<rparr>"
      using o p by simp
    have "own_of (run_dialed k r n) = own_of ?n'"
      using True e assms(1,2) by (simp add: run_dialed_def Let_def own_of_set_run_same run_held_def)
    then show ?thesis using own_reaches_step [OF own_open_late [of r "own_of n"]] assms(3) n' by simp
  next
    case False
    have "node_held (set_run k (RunOp r) ?n) = add_mset (?i, r) (node_held ?n)"
      using held_set_run [of k ?n "RunOp r"] assms(1,2) by (simp add: run_held_def)
    moreover have "node_held ?n = node_held n" using q by (simp add: node_held_def)
    ultimately have "own_of (run_dialed k r n) = (own_of n)\<lparr>o_opened := insert r (o_opened (own_of n)),
        o_held := add_mset (?i, r) (o_held (own_of n)), o_pend := insert (?i, r) (o_pend (own_of n))\<rparr>"
      using False e o by (simp add: run_dialed_def Let_def own_of_set_run)
    moreover have "?i \<notin> o_dead (own_of n)" using False by (simp add: node_dead_def)
    ultimately show ?thesis using own_reaches_step [OF own_open [of r "own_of n" ?i]] assms(3) by simp
  qed
qed

lemma sim_proxy_done:
  assumes "k < length (n_runs n)" "run_state (n_runs n ! k) = RunOk r" "node_wf n"
  shows "own_of (proxy_done p k r n) = own_of n"
proof -
  let ?i = "run_session (n_runs n ! k)"
  have i: "?i < length (n_sessions n)" by (rule wf_run_session [OF assms(3,1)])
  have "node_held n = add_mset (?i, r) (node_held (set_run k RunTaken n))"
    by (rule held_set_run_drop) (use assms in auto)
  moreover have "queue_held ((n_sessions n)[?i := (n_sessions n ! ?i)\<lparr>s_incoming := s_incoming (n_sessions n ! ?i) @ [r]\<rparr>]) =
      add_mset (?i, r) (queue_held (n_sessions n))"
    using queue_held_update [OF i, of "(n_sessions n ! ?i)\<lparr>s_incoming := s_incoming (n_sessions n ! ?i) @ [r]\<rparr>"] by simp
  ultimately show ?thesis
    using sessions_frame [of "\<lambda>s. s\<lparr>s_incoming := s_incoming s @ [r]\<rparr>"]
    by (simp add: proxy_done_def Let_def own_of_def node_held_def)
qed

lemma sim_dial_done:
  assumes "k < length (n_runs n)" "run_state (n_runs n ! k) = RunOk r" "node_wf n"
  shows "own_reaches (own_of n) (own_of (fst (dial_done d k r n)))"
proof -
  let ?i = "run_session (n_runs n ! k)" and ?n = "set_run k RunTaken n"
  have i: "?i < length (n_sessions n)" by (rule wf_run_session [OF assms(3,1)])
  have h: "o_held (own_of n) = add_mset (?i, r) (node_held ?n)"
    unfolding own_of_sel by (rule held_set_run_drop) (use assms in auto)
  have e: "s_ended (n_sessions n ! ?i) \<longleftrightarrow> s_error (n_sessions n ! ?i) \<noteq> None"
    using i assms(3) by (auto simp: node_wf_def sessions_ok_def Let_def)
  show ?thesis
  proof (cases "s_error (n_sessions n ! ?i) = None")
    case True
    then have "?i \<notin> o_dead (own_of n)" using e by (simp add: node_dead_def)
    from own_reaches_step [OF own_give [OF h this]] True show ?thesis
      by (simp add: dial_done_def Let_def own_of_set_run)
  next
    case False
    then have "?i \<in> o_dead (own_of n)" using e i by (simp add: node_dead_def)
    from own_reaches_step [OF own_drop_dead [OF h this]] False show ?thesis
      by (simp add: dial_done_def Let_def own_of_set_run)
  qed
qed

lemma held_accepts:
  assumes "a < length (n_accepts n)"
  shows "node_held (n\<lparr>n_accepts := (n_accepts n)[a := st]\<rparr>) + accept_held (n_accepts n ! a) =
    node_held n + accept_held st"
  using sum_list_map_update [OF assms, of accept_held st] by (simp add: node_held_def ac_simps)

lemma own_of_accepts:
  "own_of (n\<lparr>n_accepts := xs\<rparr>) = (own_of n)\<lparr>o_held := node_held (n\<lparr>n_accepts := xs\<rparr>)\<rparr>"
  by (simp add: own_of_def)

lemma sim_accept_get:
  assumes "a < length (n_accepts n)" "n_accepts n ! a = Awaiting i" "node_wf n"
  shows "own_of (accept_get a i n) = own_of n"
proof (cases "s_incoming (n_sessions n ! i)")
  case (Cons r q)
  have i: "i < length (n_sessions n)" by (rule wf_refs(3) [OF assms(3,1,2)])
  have "queue_held (n_sessions n) = add_mset (i, r) (queue_held ((n_sessions n)[i := (n_sessions n ! i)\<lparr>s_incoming := q\<rparr>]))"
    using queue_held_update [OF i, of "(n_sessions n ! i)\<lparr>s_incoming := q\<rparr>"] Cons by simp
  moreover have "sum_list (map accept_held ((n_accepts n)[a := Received i r])) = add_mset (i, r) (sum_list (map accept_held (n_accepts n)))"
    using sum_list_map_update [OF assms(1), of accept_held "Received i r"] assms(2) by simp
  ultimately show ?thesis
    using sessions_frame [of "\<lambda>s. s\<lparr>s_incoming := q\<rparr>"] Cons
    by (simp add: accept_get_def own_of_def node_held_def)
qed (simp add: accept_get_def)

lemma sim_accept_drop:
  assumes "a < length (n_accepts n)" "n_accepts n ! a \<noteq> Answered"
  shows "own_reaches (own_of n) (own_of (fst (accept_drop a e n)))"
proof (cases "n_accepts n ! a")
  case (Received i r)
  have "o_held (own_of n) = add_mset (i, r) (node_held (n\<lparr>n_accepts := (n_accepts n)[a := Answered]\<rparr>))"
    using held_accepts [OF assms(1), of Answered] Received by simp
  from own_reaches_step [OF own_drop [OF this]] Received show ?thesis
    by (simp add: accept_drop_def Let_def own_of_accepts)
next
  case (Awaiting i)
  then have "own_of (n\<lparr>n_accepts := (n_accepts n)[a := Answered]\<rparr>) = own_of n"
    using held_accepts [OF assms(1), of Answered] by (simp add: own_of_def)
  with Awaiting show ?thesis by (simp add: accept_drop_def Let_def own_here)
qed (use assms in simp)

lemma sim_accept_resume:
  assumes "a < length (n_accepts n)" "node_wf n"
  shows "own_reaches (own_of n) (own_of (fst (accept_resume a n)))"
proof (cases "n_accepts n ! a")
  case (Received i r)
  have i: "i < length (n_sessions n)" by (rule wf_refs(4) [OF assms(2,1) Received])
  show ?thesis
  proof (cases "s_error (n_sessions n ! i) = None")
    case True
    have h: "o_held (own_of n) = add_mset (i, r) (node_held (n\<lparr>n_accepts := (n_accepts n)[a := Answered]\<rparr>))"
      using held_accepts [OF assms(1), of Answered] Received by simp
    have "i \<notin> o_dead (own_of n)" using True i assms(2) by (auto simp: node_dead_def node_wf_def sessions_ok_def Let_def)
    from own_reaches_step [OF own_give [OF h this]] Received True show ?thesis
      by (simp add: accept_resume_def own_of_accepts)
  next
    case False
    then show ?thesis using sim_accept_drop [OF assms(1)] Received by (simp add: accept_resume_def)
  qed
next
  case (Awaiting i)
  then show ?thesis using sim_accept_drop [OF assms(1)] by (simp add: accept_resume_def)
qed (simp add: accept_resume_def own_here)

lemma sim_ctl_message:
  assumes "i < length (n_sessions n)"
  shows "own_reaches (own_of n) (own_of (ctl_message c i m n))"
proof (cases "control_turn m")
  case (CtlLost e)
  obtain n' j where "stop_begin i e (Some c) n = (n', j)" by fastforce
  with CtlLost sim_stop_begin [OF assms, of e "Some c"] show ?thesis
    by (auto simp: ctl_message_def split: option.split)
qed (simp_all add: ctl_message_def own_here)

lemma sim_connect_failed:
  assumes "k < length (n_runs n)" "node_wf n"
  shows "own_reaches (own_of n) (own_of (fst (connect_failed k e n)))"
proof -
  let ?i = "run_session (n_runs n ! k)" and ?n = "set_run k RunTaken n"
    and ?e = "Exn ConnectionError [Txt ''relay setup failed'']"
  obtain n' j where st: "stop_begin ?i ?e None ?n = (n', j)" by fastforce
  have "own_reaches (own_of ?n) (own_of n')"
    using sim_stop_begin [of ?i ?n ?e None] wf_run_session [OF assms(2,1)] st by simp
  from own_reaches_trans [OF this sim_run_taken [OF assms(1)]] st show ?thesis
    by (auto simp: connect_failed_def Let_def split: option.split)
qed

lemma sim_stop_finish:
  assumes "k < length (n_stops n)" "n_stops n ! k = StopWait i rs ps cs" "node_wf n"
  shows "own_reaches (own_of n) (own_of (stop_finish k n))"
proof -
  let ?s = "(n_sessions n ! i)\<lparr>s_incoming := []\<rparr>"
  have "queue_held (n_sessions n) = image_mset (Pair i) (mset (s_incoming (n_sessions n ! i))) + queue_held ((n_sessions n)[i := ?s])"
    using queue_held_update [OF wf_refs(5) [OF assms(3,1,2)], of ?s] by (simp add: ac_simps)
  then have h: "o_held (own_of n) = image_mset (Pair i) (mset (s_incoming (n_sessions n ! i))) + node_held (stop_finish k n)"
    using assms(2) by (simp add: stop_finish_def node_held_def Let_def ac_simps)
  have "own_of (stop_finish k n) = (own_of n)\<lparr>o_held := node_held (stop_finish k n)\<rparr>"
    using assms(2) sessions_frame [of "\<lambda>s. s\<lparr>s_incoming := []\<rparr>"]
    by (simp add: stop_finish_def own_of_def Let_def)
  with own_reaches_step [OF own_forget [OF h]] show ?thesis by simp
qed

lemma node_step_sim:
  assumes "node_step n n'" "node_wf n" "own_inv (own_of n)"
  shows "own_reaches (own_of n) (own_of n')"
  using assms
proof (induction rule: node_step.induct)
  case (connect_stopped n)
  then show ?case
    by (auto simp: connect_stopped_def own_here own_of_connect_open split: connect_state.split stop_state.split)
next
  case (connect_done n k r)
  have "own_of (fst (connect_done k r n)) = own_of (set_run k RunTaken n)"
    by (simp add: connect_done_def Let_def) (subst own_of_upd_frame; simp)
  with sim_run_taken [OF connect_done(2)] show ?case by simp
next
  case (connect_raised n)
  then show ?case by (auto simp: connect_raised_def own_here split: connect_state.split stop_state.split)
next
  case (run_start k n)
  then show ?case by (intro sim_eq) (simp add: run_start_def own_of_set_run_same run_held_def)
next
  case (run_dial_failed k n e)
  then show ?case by (intro sim_eq) (auto simp: run_dial_failed_def own_of_set_run_same run_held_def)
next
  case (run_op_done k n r)
  then show ?case using sim_run_drop [OF run_op_done(1,2)]
    by (auto simp: run_op_done_def own_of_set_run_same run_held_def own_here)
next
  case (proxy_start p n i pl)
  then show ?case by (intro sim_eq) (auto simp: proxy_start_def dest: own_of_spawn split: res.split prod.split)
next
  case (dial_call n fp)
  then show ?case by (intro sim_eq) (auto simp: dial_call_def dest: own_of_spawn split: res.split prod.split)
next
  case (accept_call n)
  then show ?case by (intro sim_eq) (auto simp: accept_call_def own_of_def node_held_def split: res.split)
next
  case (close n)
  then show ?case using sim_stop_begin [of _ "n\<lparr>n_closed := True\<rparr>"] wf_current
    by (auto simp: node_close_def own_here Let_def split: option.split)
qed (auto intro: sim_eq sim_connect_enter sim_connect_failed sim_stop_finish sim_run_dialed sim_run_drop
    sim_ctl_message wf_refs sim_proxy_done sim_dial_done sim_accept_get sim_accept_drop sim_accept_resume
    sim_run_taken simp: stop_abort_def ctl_over_def proxy_cancelled_def proxy_failed_def dial_failed_def)

lemma own_of_init: "own_of Node_init = own_start"
  by (simp add: own_of_def Node_init_def own_start_def node_held_def queue_held_def node_pend_def node_dead_def)

lemma node_reaches_sim:
  assumes "node_reaches n n'" "node_wf n" "own_inv (own_of n)"
  shows "own_reaches (own_of n) (own_of n')"
  using assms
proof (induction rule: node_reaches.induct)
  case (node_then n n' n'')
  then have "own_reaches (own_of n) (own_of n')" by simp
  moreover have "own_reaches (own_of n') (own_of n'')"
    using node_then calculation by (blast intro: node_step_sim node_reaches_wf own_reaches_inv)
  ultimately show ?case by (blast intro: own_reaches_trans)
qed (simp add: own_here)

lemma node_reachable_sim: "node_reachable n \<Longrightarrow> own_reaches own_start (own_of n)"
  using node_reaches_sim [of Node_init n] own_inv_start
  by (simp add: node_reachable_def node_wf_init own_of_init)

lemma node_reachable_own: "node_reachable n \<Longrightarrow> own_inv (own_of n)"
  using node_reachable_sim own_reaches_inv own_inv_start by blast

lemma own_reaches_mono: "own_reaches s s' \<Longrightarrow> o_given s \<subseteq> o_given s' \<and> o_shut s \<subseteq> o_shut s'"
  by (induction rule: own_reaches.induct) (use own_step_mono in blast)+

text \<open>Once the current session has ended, no session owns a connection.\<close>

lemma node_ended_accounted:
  assumes "node_reachable n" "\<And>i. n_session n = Some i \<Longrightarrow> s_ended (n_sessions n ! i)"
  shows "n_opened n = n_given n \<union> n_shut n"
proof -
  have w: "node_wf n" by (rule node_reachable_wf [OF assms(1)])
  have "s_ended (n_sessions n ! j)" if "j < length (n_sessions n)" for j
  proof (cases "n_session n")
    case None
    with w that show ?thesis by (simp add: node_wf_def sessions_ok_def Let_def)
  next
    case (Some i)
    with wf_all_ended [OF w Some] assms(2) that show ?thesis by blast
  qed
  then have "{r. \<exists>i. (i, r) \<in> node_pend (n_sessions n) \<and> i \<notin> node_dead (n_sessions n)} = {}"
    by (auto simp: node_pend_def node_dead_def)
  with own_accounted [OF node_reachable_own [OF assms(1)]] show ?thesis by simp
qed

lemma node_step_closed: "node_step n n' \<Longrightarrow> n_closed n \<Longrightarrow> n_closed n'"
proof (induction rule: node_step.induct)
  case (connect_failed n k e)
  then show ?case
    by (auto simp: connect_failed_def stop_begin_def Let_def split: option.split)
qed (auto simp: connect_enter_def check_fp_def connect_stopped_def connect_open_def spawn_run_def connect_done_def
    connect_raised_def stop_finish_def stop_abort_def run_start_def run_dialed_def run_dial_failed_def
    run_op_done_def run_op_failed_def ctl_message_def ctl_over_def proxy_start_def proxy_cancelled_def
    proxy_done_def proxy_failed_def dial_call_def dial_done_def dial_failed_def accept_call_def accept_get_def
    accept_resume_def accept_drop_def node_close_def stop_begin_def shut_def give_def discard_def Let_def
    split: option.split res.split connect_state.split stop_state.split list.split accept_state.split control_action.split)

lemma node_reaches_closed: "node_reaches n n' \<Longrightarrow> n_closed n \<Longrightarrow> n_closed n'"
  by (induction rule: node_reaches.induct) (auto intro: node_step_closed)

section \<open>Concrete runs\<close>

definition toy_fp :: bytes where
  "toy_fp = replicate 64 0"

definition toy_connecting :: node where
  "toy_connecting = run_dialed 0 1 (run_start 0 (fst (connect_enter (u ''r:1'') toy_fp Node_init)))"

definition toy_connected :: node where
  "toy_connected = fst (connect_done 0 1 (run_op_done 0 1 toy_connecting))"

text \<open>A call of \<^verbatim>\<open>dial_peer\<close> whose setup has returned.\<close>

definition toy_dialing :: node where
  "toy_dialing = run_op_done 1 2 (run_dialed 1 2 (run_start 1 (fst (dial_call toy_fp toy_connected))))"

text \<open>A second \<^verbatim>\<open>connect_relay\<close> waits for the old session to stop; meanwhile the node is closed.\<close>

definition toy_replacing :: node where
  "toy_replacing = stop_finish 0 (ctl_over 0 (node_close (fst (connect_enter (u ''r:2'') toy_fp toy_connected))))"

definition toy_zombie :: node where
  "toy_zombie = fst (connect_done 1 2 (run_op_done 1 2 (run_dialed 1 2 (run_start 1 (fst (connect_stopped toy_replacing))))))"

lemmas node_eval = toy_connecting_def toy_dialing_def dial_call_def current_session_def toy_connected_def toy_replacing_def toy_zombie_def toy_fp_def Node_init_def
  connect_enter_def check_fp_def connect_open_def spawn_run_def new_session_def run_start_def the_session_def
  set_run_def run_dialed_def upd_session_def run_op_done_def connect_done_def stop_begin_def session_runs_def
  session_proxies_def session_ctls_def ctl_session_def node_close_def ctl_over_def stop_finish_def
  connect_stopped_def tasks_done_def Let_def

lemma toy_connected_reachable: "node_reachable toy_connecting" "node_reachable toy_connected"
proof -
  let ?n1 = "fst (connect_enter (u ''r:1'') toy_fp Node_init)"
  have "node_reaches Node_init ?n1"
    by (rule node_then [OF node_here], rule node_step.connect_enter) (simp add: Node_init_def)
  then have "node_reaches Node_init (run_start 0 ?n1)"
    by (rule node_then) (rule node_step.run_start; simp add: node_eval)
  then have r: "node_reaches Node_init toy_connecting" unfolding toy_connecting_def
    by (rule node_then) (rule node_step.run_dialed; simp add: node_eval)
  then have "node_reaches Node_init (run_op_done 0 1 toy_connecting)"
    by (rule node_then) (rule node_step.run_op_done; simp add: node_eval)
  then have "node_reaches Node_init toy_connected" unfolding toy_connected_def
    by (rule node_then) (rule node_step.connect_done; simp add: node_eval)
  with r show "node_reachable toy_connecting" "node_reachable toy_connected" by (simp_all add: node_reachable_def)
qed

lemma toy_dialing_reachable: "node_reachable toy_dialing"
proof -
  let ?n = "fst (dial_call toy_fp toy_connected)"
  have "node_reaches Node_init toy_connected" using toy_connected_reachable(2) by (simp add: node_reachable_def)
  then have "node_reaches Node_init ?n" by (rule node_then) (rule node_step.dial_call)
  then have "node_reaches Node_init (run_start 1 ?n)"
    by (rule node_then) (rule node_step.run_start; simp add: node_eval)
  then have "node_reaches Node_init (run_dialed 1 2 (run_start 1 ?n))"
    by (rule node_then) (rule node_step.run_dialed; simp add: node_eval)
  then have "node_reaches Node_init toy_dialing" unfolding toy_dialing_def
    by (rule node_then) (rule node_step.run_op_done; simp add: node_eval)
  then show ?thesis by (simp add: node_reachable_def)
qed

lemma toy_zombie_reachable: "node_reachable toy_zombie"
proof -
  let ?n1 = "fst (connect_enter (u ''r:2'') toy_fp toy_connected)"
  have "node_reaches Node_init toy_connected" using toy_connected_reachable(2) by (simp add: node_reachable_def)
  then have "node_reaches Node_init ?n1"
    by (rule node_then) (rule node_step.connect_enter; simp add: node_eval)
  then have "node_reaches Node_init (node_close ?n1)" by (rule node_then) (rule node_step.close)
  then have "node_reaches Node_init (ctl_over 0 (node_close ?n1))"
    by (rule node_then) (rule node_step.ctl_cancelled [of _ _ 0]; simp add: node_eval)
  then have "node_reaches Node_init toy_replacing" unfolding toy_replacing_def
    by (rule node_then) (rule node_step.stop_finish [of _ _ 0 "[]" "[]" "[0]"]; simp add: node_eval)
  then have "node_reaches Node_init (fst (connect_stopped toy_replacing))"
    by (rule node_then) (rule node_step.connect_stopped)
  then have "node_reaches Node_init (run_start 1 (fst (connect_stopped toy_replacing)))"
    by (rule node_then) (rule node_step.run_start; simp add: node_eval)
  then have "node_reaches Node_init (run_dialed 1 2 (run_start 1 (fst (connect_stopped toy_replacing))))"
    by (rule node_then) (rule node_step.run_dialed; simp add: node_eval)
  then have "node_reaches Node_init (run_op_done 1 2 (run_dialed 1 2 (run_start 1 (fst (connect_stopped toy_replacing)))))"
    by (rule node_then) (rule node_step.run_op_done; simp add: node_eval)
  then have "node_reaches Node_init toy_zombie" unfolding toy_zombie_def
    by (rule node_then) (rule node_step.connect_done; simp add: node_eval)
  then show ?thesis by (simp add: node_reachable_def)
qed

section \<open>Properties\<close>







text \<open>A closed node stays closed, and every later call of \<^verbatim>\<open>dial_peer\<close>, \<^verbatim>\<open>accept\<close> and
  \<^verbatim>\<open>connect_relay\<close> with a proper fingerprint raises ``node closed'' and changes nothing.\<close>

theorem closed_node_refuses:
  assumes "n_closed n" "node_reaches n n'" "length fp = 64"
  shows "dial_call fp n' = (n', Raise node_closed_error) \<and> accept_call n' = (n', Raise node_closed_error) \<and>
    connect_enter a fp n' = (n', Raise node_closed_error)"
  using node_reaches_closed [OF assms(2,1)] assms(3)
  by (simp add: dial_call_def accept_call_def connect_enter_def current_session_def check_fp_def)

theorem closed_node_refuses_witness:
  "accept_call (node_close toy_connected) = (node_close toy_connected, Raise node_closed_error)"
proof -
  have "n_closed (node_close toy_connected)" by (simp add: node_eval)
  from closed_node_refuses [OF this node_here, of toy_fp] show ?thesis by (simp add: toy_fp_def)
qed

text \<open>C27. Nevertheless a closed node can end up with a new live session: when \<^verbatim>\<open>close\<close> runs while
  \<^verbatim>\<open>connect_relay\<close> waits for the old session to stop, \<^verbatim>\<open>connect_relay\<close> goes on, dials the relay and
  installs a session whose control connection the node has neither closed nor handed out.\<close>

theorem closed_node_connects:
  "\<exists>n i r. node_reachable n \<and> n_closed n \<and> n_connect n = ConnIdle \<and> n_session n = Some i \<and>
     \<not> s_ended (n_sessions n ! i) \<and> s_control (n_sessions n ! i) = Some r \<and> n_control n = Some r \<and>
     r \<in> n_opened n \<and> r \<notin> n_given n \<and> r \<notin> n_shut n"
  by (rule exI [of _ toy_zombie], rule exI [of _ 1], rule exI [of _ 2])
    (use toy_zombie_reachable in \<open>simp add: node_eval\<close>)

text \<open>C28. At most one session is alive, and it is the current one; a session has ended exactly when it has
  an error, and then it owns no connection.\<close>

theorem node_one_session:
  assumes "node_reachable n" "i < length (n_sessions n)"
  shows "(s_error (n_sessions n ! i) = None \<longrightarrow> n_session n = Some i) \<and>
    (s_ended (n_sessions n ! i) \<longleftrightarrow> s_error (n_sessions n ! i) \<noteq> None) \<and>
    (s_ended (n_sessions n ! i) \<longrightarrow> s_pending (n_sessions n ! i) = {})"
proof -
  have w: "sessions_ok (n_sessions n) (n_session n) (n_connect n)"
    using node_reachable_wf [OF assms(1)] by (simp add: node_wf_def Let_def)
  then obtain j where j: "n_session n = Some j" "Suc j = length (n_sessions n)"
    using assms(2) by (cases "n_session n") (auto simp: sessions_ok_def)
  then have "i = j \<or> Suc i < length (n_sessions n)" using assms(2) by linarith
  with w assms(2) j have "s_error (n_sessions n ! i) = None \<longrightarrow> n_session n = Some i"
    by (auto simp: sessions_ok_def)
  moreover have "s_ended (n_sessions n ! i) \<longleftrightarrow> s_error (n_sessions n ! i) \<noteq> None"
    using w assms(2) by (simp add: sessions_ok_def)
  moreover have "s_pending (n_sessions n ! i) = {}" if "s_ended (n_sessions n ! i)"
    using own_invD(4) [OF node_reachable_own [OF assms(1)], of i] that assms(2)
    by (auto simp: node_pend_def node_dead_def)
  ultimately show ?thesis by blast
qed

theorem node_one_session_witness:
  "s_ended (n_sessions toy_zombie ! 0) \<and> n_session toy_zombie = Some 1 \<and>
   s_pending (n_sessions toy_zombie ! 0) = {}"
  using node_one_session [OF toy_zombie_reachable, of 0] by (simp add: node_eval)

text \<open>C29. When a session has ended, a peer connection that a call still gets from it is closed and the call
  raises the session's error: this holds for \<^verbatim>\<open>accept\<close> and for \<^verbatim>\<open>dial_peer\<close>, and the connection was
  never given to anyone.\<close>

theorem ended_session_gives_nothing:
  assumes "node_reachable n" "i < length (n_sessions n)" "s_ended (n_sessions n ! i)"
  shows "(\<forall>a r. a < length (n_accepts n) \<and> n_accepts n ! a = Received i r \<longrightarrow>
      snd (accept_resume a n) = Raise (session_error (n_sessions n ! i)) \<and>
      n_given (fst (accept_resume a n)) = n_given n \<and> r \<in> n_shut (fst (accept_resume a n)) \<and> r \<notin> n_given n) \<and>
    (\<forall>d k r. k < length (n_runs n) \<and> n_runs n ! k = \<lparr>run_session = i, run_state = RunOk r\<rparr> \<longrightarrow>
      snd (dial_done d k r n) = Raise (session_error (n_sessions n ! i)) \<and>
      n_given (fst (dial_done d k r n)) = n_given n \<and> r \<in> n_shut (fst (dial_done d k r n)) \<and> r \<notin> n_given n)"
proof -
  have o: "own_inv (own_of n)" by (rule node_reachable_own [OF assms(1)])
  have e: "s_error (n_sessions n ! i) \<noteq> None"
    using node_reachable_wf [OF assms(1)] assms(2,3) by (auto simp: node_wf_def sessions_ok_def Let_def)
  have g: "r \<notin> n_given n" if "(i, r) \<in># node_held n" for r
    using own_invD(2) [OF o, of i r] own_invD(5) [OF o] that assms(2,3) by (auto simp: node_dead_def)
  have "(i, r) \<in># node_held n" if "a < length (n_accepts n)" "n_accepts n ! a = Received i r" for a r
    using held_accepts [OF that(1), of Answered] that(2) by (auto simp: union_single_eq_member)
  moreover have "(i, r) \<in># node_held n" if "k < length (n_runs n)" "n_runs n ! k = \<lparr>run_session = i, run_state = RunOk r\<rparr>" for k r
    using held_set_run_drop [OF that(1), of r RunTaken] that(2) by (auto simp: union_single_eq_member)
  ultimately show ?thesis
    using e g by (auto simp: accept_resume_def accept_drop_def dial_done_def shut_def Let_def)
qed

theorem ended_session_gives_nothing_witness:
  "snd (dial_done 0 1 2 (node_close toy_dialing)) = Raise (Exn ConnectionError [Exc node_closed_error]) \<and>
   2 \<in> n_shut (fst (dial_done 0 1 2 (node_close toy_dialing)))"
proof -
  let ?n = "node_close toy_dialing"
  have "node_reachable ?n" "0 < length (n_sessions ?n)" "s_ended (n_sessions ?n ! 0)"
    using toy_dialing_reachable unfolding node_reachable_def
    by (blast intro: node_then node_step.close) (simp_all add: node_eval)
  from ended_session_gives_nothing [OF this] show ?thesis
    by (auto simp: node_eval session_error_def)
qed

end
