(* ===== verification/NodeProgress.thy ===== *)
theory NodeProgress
  imports Node
begin

text \<open>
  Stopping a session of \<^verbatim>\<open>p2p/node.py\<close> never deadlocks. \<^verbatim>\<open>_stop_session\<close> cancels the tasks of the session
  and waits for all of them but the one it runs in; the theory shows that each of these tasks can always take
  its next step towards its end, so that the wait can always be over.
\<close>

section \<open>Who waits for a setup task\<close>

definition proxy_waits :: "proxy_state \<Rightarrow> nat multiset" where
  "proxy_waits p = (case p of PxSetup k \<Rightarrow> {#k#} | _ \<Rightarrow> {#})"

definition dial_waits :: "dial_state \<Rightarrow> nat multiset" where
  "dial_waits d = (case d of DialSetup k \<Rightarrow> {#k#} | _ \<Rightarrow> {#})"

definition connect_waits :: "connect_state \<Rightarrow> nat multiset" where
  "connect_waits c = (case c of ConnSetup k \<Rightarrow> {#k#} | _ \<Rightarrow> {#})"

definition waits :: "node \<Rightarrow> nat multiset" where
  "waits n = sum_list (map proxy_waits (n_proxies n)) + sum_list (map dial_waits (n_dials n)) +
     connect_waits (n_connect n)"

text \<open>A setup task has at most one waiting coroutine, and its result was not yet picked up.\<close>

definition waits_fine :: "nat multiset \<Rightarrow> setup_run list \<Rightarrow> bool" where
  "waits_fine W ts \<longleftrightarrow> (\<forall>k \<in># W. count W k = 1 \<and> k < length ts \<and> run_state (ts ! k) \<noteq> RunTaken)"

definition waits_ok :: "node \<Rightarrow> bool" where
  "waits_ok n \<longleftrightarrow> waits_fine (waits n) (n_runs n)"

lemma waits_fine_set:
  "waits_fine W ts \<Longrightarrow> st \<noteq> RunTaken \<Longrightarrow> waits_fine W (ts[k := (ts ! k)\<lparr>run_state := st\<rparr>])"
  by (auto simp: waits_fine_def nth_update_at)

lemma waits_fine_take:
  "waits_fine (add_mset k W) ts \<Longrightarrow> waits_fine W (ts[k := (ts ! k)\<lparr>run_state := st\<rparr>])"
  by (auto simp: waits_fine_def nth_update_at count_eq_zero_iff split: if_splits)

lemma waits_fine_new:
  "waits_fine W ts \<Longrightarrow> waits_fine (add_mset (length ts) W) (ts @ [\<lparr>run_session = i, run_state = RunNew\<rparr>])"
  by (auto simp: waits_fine_def nth_append count_eq_zero_iff)

lemma stop_begin_frame [simp]:
  "n_runs (fst (stop_begin i e cur n)) = n_runs n" "n_proxies (fst (stop_begin i e cur n)) = n_proxies n"
  "n_dials (fst (stop_begin i e cur n)) = n_dials n" "n_connect (fst (stop_begin i e cur n)) = n_connect n"
  "n_ctls (fst (stop_begin i e cur n)) = n_ctls n"
  by (simp_all add: stop_begin_def Let_def)

lemma stop_begin_frames:
  assumes "stop_begin i e cur n = (n', r)"
  shows "n_runs n' = n_runs n" "n_proxies n' = n_proxies n" "n_dials n' = n_dials n" "n_connect n' = n_connect n"
    "n_ctls n' = n_ctls n"
  using stop_begin_frame [of i e cur n] assms by simp_all

lemma waits_frame:
  "n_runs n' = n_runs n \<Longrightarrow> n_proxies n' = n_proxies n \<Longrightarrow> n_dials n' = n_dials n \<Longrightarrow>
     connect_waits (n_connect n') = connect_waits (n_connect n) \<Longrightarrow> waits_ok n \<Longrightarrow> waits_ok n'"
  by (simp add: waits_ok_def waits_def)

lemma waits_update:
  "p < length (n_proxies n) \<Longrightarrow> n_proxies n' = (n_proxies n)[p := x] \<Longrightarrow> n_dials n' = n_dials n \<Longrightarrow> n_connect n' = n_connect n \<Longrightarrow>
     waits n' + proxy_waits (n_proxies n ! p) = waits n + proxy_waits x"
  "d < length (n_dials n) \<Longrightarrow> n_dials n' = (n_dials n)[d := y] \<Longrightarrow> n_proxies n' = n_proxies n \<Longrightarrow> n_connect n' = n_connect n \<Longrightarrow>
     waits n' + dial_waits (n_dials n ! d) = waits n + dial_waits y"
  using sum_list_map_update [of p "n_proxies n" proxy_waits x] sum_list_map_update [of d "n_dials n" dial_waits y]
  by (simp_all add: waits_def ac_simps)

lemmas wait_defs = proxy_waits_def dial_waits_def connect_waits_def

lemma waits_idle: "waits_ok n \<Longrightarrow> connect_waits (n_connect n) = {#} \<Longrightarrow> waits_ok (n\<lparr>n_connect := ConnIdle\<rparr>)"
  by (simp add: waits_ok_def waits_def wait_defs)

lemma waits_connect_open:
  assumes "waits_ok n" "connect_waits (n_connect n) = {#}"
  shows "waits_ok (connect_open a fp n)"
proof -
  have "waits (connect_open a fp n) = add_mset (length (n_runs n)) (waits n)"
    using assms(2) by (simp add: waits_def connect_open_def spawn_run_def wait_defs Let_def)
  moreover have "n_runs (connect_open a fp n) =
      n_runs n @ [\<lparr>run_session = length (n_sessions n), run_state = RunNew\<rparr>]"
    by (simp add: connect_open_def spawn_run_def Let_def)
  ultimately show ?thesis using assms(1) by (simp add: waits_ok_def waits_fine_new)
qed

lemma waits_connect_enter:
  assumes "waits_ok n" "n_connect n = ConnIdle"
  shows "waits_ok (fst (connect_enter a fp n))"
proof (cases "n_session n")
  case None
  with assms waits_connect_open show ?thesis
    by (simp add: connect_enter_def check_fp_def wait_defs)
next
  case (Some i)
  obtain n' r where st: "stop_begin i (Exn ConnectionError [Txt ''relay session replaced'']) None n = (n', r)" by fastforce
  note f = stop_begin_frames [OF st]
  have w: "waits_ok n'" by (rule waits_frame [OF f(1-3) _ assms(1)]) (simp add: f)
  have "connect_waits (n_connect n') = {#}" using f assms(2) by (simp add: wait_defs)
  note o = waits_connect_open [OF w this]
  have "waits_ok (n'\<lparr>n_connect := ConnStopping k a fp\<rparr>)" for k
    by (rule waits_frame [OF _ _ _ _ w]) (use f assms(2) in \<open>simp_all add: wait_defs\<close>)
  with o Some st assms show ?thesis by (auto simp: connect_enter_def check_fp_def split: option.split)
qed

text \<open>A coroutine picks up the result of the task it waits for.\<close>

lemma waits_taken:
  assumes "waits_ok n" "waits n = add_mset k (waits n')" "n_runs n' = (n_runs n)[k := (n_runs n ! k)\<lparr>run_state := st\<rparr>]"
  shows "waits_ok n'"
  using waits_fine_take [of k "waits n'" "n_runs n" st] assms by (simp add: waits_ok_def)

lemma waits_set_run:
  assumes "waits_ok n" "st \<noteq> RunTaken" "waits n' = waits n" "n_runs n' = (n_runs n)[k := (n_runs n ! k)\<lparr>run_state := st\<rparr>]"
  shows "waits_ok n'"
  using waits_fine_set [OF _ assms(2)] assms(1,3,4) by (simp add: waits_ok_def)

lemmas node_ops = run_start_def run_dialed_def run_dial_failed_def run_op_done_def run_op_failed_def ctl_over_def
  proxy_start_def proxy_cancelled_def proxy_done_def proxy_failed_def dial_call_def dial_done_def dial_failed_def
  accept_get_def accept_resume_def accept_drop_def spawn_run_def discard_def give_def shut_def Let_def

lemma waits_connect_stopped:
  assumes "waits_ok n"
  shows "waits_ok (fst (connect_stopped n))"
proof -
  have "waits_ok (n\<lparr>n_connect := ConnIdle\<rparr>) \<and> waits_ok (connect_open a fp n)"
    if "n_connect n = ConnStopping k a fp" for k a fp
  proof
    show "waits_ok (n\<lparr>n_connect := ConnIdle\<rparr>)" by (rule waits_idle [OF assms]) (simp add: that wait_defs)
    show "waits_ok (connect_open a fp n)" by (rule waits_connect_open [OF assms]) (simp add: that wait_defs)
  qed
  with assms show ?thesis
    by (simp add: connect_stopped_def split: connect_state.split stop_state.split)
qed

lemma waits_connect_failed:
  assumes "waits_ok n" "n_connect n = ConnSetup k" "k < length (n_runs n)" "setup_ends k n"
  shows "waits_ok (fst (connect_failed k e n))"
proof -
  obtain n' r where st: "stop_begin (run_session (n_runs n ! k)) (Exn ConnectionError [Txt ''relay setup failed'']) None
    (set_run k RunTaken n) = (n', r)" by fastforce
  note f = stop_begin_frames [OF st]
  from assms st show ?thesis
    by - (rule waits_taken [of n k _ RunTaken], auto simp: connect_failed_def waits_def wait_defs f Let_def split: option.split)
qed

lemma waits_connect_raised:
  assumes "waits_ok n"
  shows "waits_ok (fst (connect_raised n))"
proof -
  have "waits_ok (n\<lparr>n_connect := ConnIdle\<rparr>)" if "n_connect n = ConnFailing k e" for k e
    by (rule waits_idle [OF assms]) (simp add: that wait_defs)
  with assms show ?thesis
    by (simp add: connect_raised_def split: connect_state.split stop_state.split)
qed

lemma waits_ctl_message:
  assumes "waits_ok n"
  shows "waits_ok (ctl_message c i m n)"
proof (cases "control_turn m")
  case (CtlLost e)
  obtain n' r where st: "stop_begin i e (Some c) n = (n', r)" by fastforce
  note f = stop_begin_frames [OF st]
  have "waits_ok (n'\<lparr>n_ctls := xs\<rparr>)" for xs by (rule waits_frame [of _ n]) (use f assms in simp_all)
  with CtlLost st show ?thesis by (auto simp: ctl_message_def split: option.split)
next
  case (CtlProxy pl)
  with assms show ?thesis by (simp add: ctl_message_def waits_ok_def waits_def proxy_waits_def)
qed (use assms in \<open>simp_all add: ctl_message_def\<close>)

lemma waits_proxy_start:
  assumes "waits_ok n" "p < length (n_proxies n)" "n_proxies n ! p = PxNew i pl"
  shows "waits_ok (proxy_start p i pl n)"
proof -
  let ?n = "n\<lparr>n_runs := n_runs n @ [\<lparr>run_session = i, run_state = RunNew\<rparr>], n_proxies := (n_proxies n)[p := PxSetup (length (n_runs n))]\<rparr>"
  let ?m = "n\<lparr>n_proxies := (n_proxies n)[p := PxDone]\<rparr>"
  have "waits ?n = add_mset (length (n_runs n)) (waits n)" "waits ?m = waits n"
    using waits_update(1) [of p n ?n "PxSetup (length (n_runs n))"] waits_update(1) [of p n ?m PxDone] assms
    by (simp_all add: wait_defs)
  then have "waits_ok ?n" "waits_ok ?m"
    using waits_fine_new [of "waits n" "n_runs n" i] assms(1) by (simp_all add: waits_ok_def)
  then show ?thesis by (auto simp: proxy_start_def spawn_run_def split: res.split)
qed

lemmas waits_ops = waits_connect_enter waits_connect_stopped waits_connect_failed waits_connect_raised waits_ctl_message
  waits_proxy_start

text \<open>The steps that end a setup take its run; those that move a run on keep who waits for it; the rest
  touch neither.\<close>

lemma node_step_waits: "node_step n n' \<Longrightarrow> waits_ok n \<Longrightarrow> waits_ok n'"
proof (induction rule: node_step.induct)
  case (connect_done n k r)
  then show ?case
    by - (rule waits_taken [of n k _ RunTaken], simp_all add: connect_done_def waits_def wait_defs Let_def)
next
  case (run_start k n)
  then show ?case unfolding run_start_def by - (rule waits_set_run [of n], auto simp: waits_def)
next
  case (run_dialed k n r)
  then show ?case
    by - (rule waits_set_run [OF run_dialed(4), of "run_state (n_runs (run_dialed k r n) ! k)" _ k],
      simp_all add: waits_def node_ops)
next
  case (run_dial_failed k n e)
  then show ?case unfolding run_dial_failed_def by - (rule waits_set_run [of n], auto simp: waits_def)
next
  case (run_op_done k n r)
  then show ?case
    by - (rule waits_set_run [OF run_op_done(3), of "run_state (n_runs (run_op_done k r n) ! k)" _ k], simp_all add: node_ops waits_def)
next
  case (run_op_failed k n r e)
  then show ?case
    by - (rule waits_set_run [OF run_op_failed(3), of "RunFailed e" _ k], simp_all add: node_ops waits_def)
next
  case (proxy_cancelled p n i pl)
  then show ?case using waits_update(1) [of p n "proxy_cancelled p n" PxDone]
    by (simp add: waits_ok_def proxy_cancelled_def wait_defs)
next
  case (proxy_done p n k r)
  then show ?case using waits_update(1) [of p n "proxy_done p k r n" PxDone]
    by - (rule waits_taken [of n k _ RunTaken], simp_all add: proxy_done_def wait_defs Let_def)
next
  case (proxy_failed p n k)
  then show ?case using waits_update(1) [of p n "proxy_failed p k n" PxDone]
    by - (rule waits_taken [of n k _ RunTaken], simp_all add: proxy_failed_def wait_defs)
next
  case (dial_call n fp)
  then show ?case using waits_fine_new [of "waits n" "n_runs n"]
    by (auto simp: dial_call_def spawn_run_def waits_ok_def waits_def wait_defs split: res.split)
next
  case (dial_done d n k r)
  then show ?case using waits_update(2) [of d n "fst (dial_done d k r n)" DialOver]
    by - (rule waits_taken [of n k _ RunTaken], auto simp: dial_done_def discard_def give_def shut_def wait_defs Let_def)
next
  case (dial_failed d n k e)
  then show ?case using waits_update(2) [of d n "fst (dial_failed d k e n)" DialOver]
    by - (rule waits_taken [of n k _ RunTaken], simp_all add: dial_failed_def wait_defs)
next
  case (accept_call n)
  then show ?case by (auto simp: accept_call_def waits_ok_def waits_def split: res.split)
qed (blast intro: waits_ops
  | (rule waits_frame; (assumption | auto simp: stop_finish_def stop_abort_def node_close_def node_ops
      split: option.split list.split accept_state.split)))+

section \<open>What a stop waits for\<close>

text \<open>The tasks a stop waits for exist; its control loops have not begun a stop of their own, and its proxies
  that have not started belong to its session, which has ended.\<close>

definition stop_fine :: "node \<Rightarrow> stop_state \<Rightarrow> bool" where
  "stop_fine n st = (case st of
     StopWait i rs ps cs \<Rightarrow> i < length (n_sessions n) \<and> s_error (n_sessions n ! i) \<noteq> None \<and> (\<forall>k \<in> set rs. k < length (n_runs n)) \<and>
       (\<forall>p \<in> set ps. p < length (n_proxies n) \<and> (\<forall>j pl. n_proxies n ! p = PxNew j pl \<longrightarrow> j = i)) \<and>
       (\<forall>c \<in> set cs. c < length (n_ctls n) \<and> n_ctls n ! c \<in> {CtlReading i, CtlOver})
   | _ \<Rightarrow> True)"

definition ctl_fine :: "node \<Rightarrow> bool" where
  "ctl_fine n \<longleftrightarrow> (\<forall>c < length (n_ctls n). \<forall>k. n_ctls n ! c = CtlStopping k \<longrightarrow> k < length (n_stops n))"

definition stops_ok :: "node \<Rightarrow> bool" where
  "stops_ok n \<longleftrightarrow> (\<forall>st \<in> set (n_stops n). stop_fine n st) \<and> ctl_fine n"

text \<open>How the tasks of a node change in one step.\<close>

definition evolves :: "node \<Rightarrow> node \<Rightarrow> bool" where
  "evolves n n' \<longleftrightarrow> length (n_runs n) \<le> length (n_runs n') \<and> length (n_sessions n) \<le> length (n_sessions n') \<and>
     (\<forall>i < length (n_sessions n). s_error (n_sessions n ! i) \<noteq> None \<longrightarrow> s_error (n_sessions n' ! i) \<noteq> None) \<and>
     (\<forall>p < length (n_proxies n). p < length (n_proxies n') \<and>
        (\<forall>j pl. n_proxies n' ! p = PxNew j pl \<longrightarrow> n_proxies n ! p = PxNew j pl)) \<and>
     (\<forall>c < length (n_ctls n). c < length (n_ctls n') \<and>
        (n_ctls n' ! c = n_ctls n ! c \<or> n_ctls n' ! c = CtlOver \<or>
         (\<exists>i. n_ctls n ! c = CtlReading i \<and> s_error (n_sessions n ! i) = None)))"

lemma stop_fine_evolves: "evolves n n' \<Longrightarrow> stop_fine n st \<Longrightarrow> stop_fine n' st"
proof (cases st)
  case (StopWait i rs ps cs)
  assume e: "evolves n n'" and f: "stop_fine n st"
  have "c < length (n_ctls n') \<and> n_ctls n' ! c \<in> {CtlReading i, CtlOver}" if "c \<in> set cs" for c
  proof -
    have c: "c < length (n_ctls n)" "n_ctls n ! c \<in> {CtlReading i, CtlOver}" "s_error (n_sessions n ! i) \<noteq> None"
      using f that by (auto simp: stop_fine_def StopWait)
    then have "c < length (n_ctls n')" "n_ctls n' ! c = n_ctls n ! c \<or> n_ctls n' ! c = CtlOver \<or>
         (\<exists>i. n_ctls n ! c = CtlReading i \<and> s_error (n_sessions n ! i) = None)"
      using e by (auto simp: evolves_def)
    with c show ?thesis by auto
  qed
  moreover have "p < length (n_proxies n') \<and> (\<forall>j pl. n_proxies n' ! p = PxNew j pl \<longrightarrow> j = i)" if "p \<in> set ps" for p
    using e f that by (fastforce simp: evolves_def stop_fine_def StopWait)
  ultimately show ?thesis using e f by (auto simp: evolves_def stop_fine_def StopWait)
qed (simp_all add: stop_fine_def)

lemma evolves_stop_begin: "evolves n (fst (stop_begin i e cur n))"
  by (auto simp: evolves_def stop_begin_def Let_def nth_update_at)

lemma evolves_connect_open: "evolves n (connect_open a fp n)"
  by (auto simp: evolves_def connect_open_def spawn_run_def Let_def nth_append)

lemma stops_evolve:
  assumes "stops_ok n" "evolves n n'" "\<And>st. st \<in> set (n_stops n') \<Longrightarrow> st \<in> set (n_stops n) \<or> stop_fine n' st" "ctl_fine n'"
  shows "stops_ok n'"
  using assms stop_fine_evolves [OF assms(2)] unfolding stops_ok_def by blast

text \<open>A step that leaves stops and control loops alone.\<close>

lemma stops_quiet:
  assumes "stops_ok n" "evolves n n'" "n_stops n' = n_stops n" "n_ctls n' = n_ctls n"
  shows "stops_ok n'"
  by (rule stops_evolve [OF assms(1,2)]) (use assms in \<open>simp_all add: stops_ok_def ctl_fine_def\<close>)

lemma fresh_stop_fine:
  assumes "stops_ok n" "i < length (n_sessions n)" "s_error (n_sessions n ! i) = None" "stop_begin i e cur n = (n', r)"
  shows "stop_fine n' (StopWait i (session_runs i n) (session_proxies i n) (session_ctls cur i n))"
proof -
  have "n_ctls n ! c = CtlReading i" if "c < length (n_ctls n)" "ctl_session n (n_ctls n ! c) = Some i" for c
  proof (cases "n_ctls n ! c")
    case (CtlStopping k)
    then have "k < length (n_stops n)" "stop_session n (n_stops n ! k) = Some i"
      using assms(1) that by (auto simp: stops_ok_def ctl_fine_def ctl_session_def)
    moreover from this have "stop_fine n (n_stops n ! k)" using assms(1) by (simp add: stops_ok_def)
    ultimately have False using assms(3) by (auto simp: stop_session_def stop_fine_def split: stop_state.splits)
    then show ?thesis ..
  qed (use that in \<open>simp_all add: ctl_session_def\<close>)
  moreover have "n_proxies n ! p = PxNew j pl \<Longrightarrow> proxy_session n (n_proxies n ! p) = Some j" for p j pl
    by (simp add: proxy_session_def)
  ultimately show ?thesis using assms(2-4)
    by (auto simp: stop_fine_def session_runs_def session_proxies_def session_ctls_def stop_begin_def Let_def)
qed

lemma stop_begin_stops:
  assumes "stop_begin i e cur n = (n', r)"
  shows "(r = None \<and> n' = n) \<or> (s_error (n_sessions n ! i) = None \<and> r = Some (length (n_stops n)) \<and>
    n_stops n' = n_stops n @ [StopWait i (session_runs i n) (session_proxies i n) (session_ctls cur i n)])"
  using assms by (auto simp: stop_begin_def Let_def split: if_splits)

lemma stops_begin:
  assumes "stops_ok n" "i < length (n_sessions n)"
  shows "stops_ok (fst (stop_begin i e cur n))"
proof -
  obtain n' r where st: "stop_begin i e cur n = (n', r)" by fastforce
  show ?thesis
  proof (cases r)
    case None
    with stop_begin_stops [OF st] st assms(1) show ?thesis by auto
  next
    case (Some k)
    with stop_begin_stops [OF st] have n: "s_error (n_sessions n ! i) = None"
      "n_stops n' = n_stops n @ [StopWait i (session_runs i n) (session_proxies i n) (session_ctls cur i n)]" by auto
    have "stops_ok n'"
      by (rule stops_evolve [OF assms(1)])
        (use evolves_stop_begin [of n i e cur] st fresh_stop_fine [OF assms n(1) st] n(2) assms(1)
          stop_begin_frames(5) [OF st] in \<open>auto simp: stops_ok_def ctl_fine_def less_Suc_eq\<close>)
    with st show ?thesis by simp
  qed
qed

text \<open>A control loop that stops its own session is not among the tasks it waits for.\<close>

lemma stops_ctl_lost:
  assumes "stops_ok n" "node_wf n" "c < length (n_ctls n)" "n_ctls n ! c = CtlReading i" "control_turn m = CtlLost e"
  shows "stops_ok (ctl_message c i m n)"
proof -
  obtain n' r where st: "stop_begin i e (Some c) n = (n', r)" by fastforce
  note i = wf_refs(1) [OF assms(2-4)] and f = stop_begin_frames [OF st]
  have s: "stops_ok n'" using stops_begin [OF assms(1) i, of e "Some c"] st by simp
  show ?thesis
  proof (cases r)
    case None
    have "stops_ok (n'\<lparr>n_ctls := (n_ctls n')[c := CtlOver]\<rparr>)"
      by (rule stops_evolve [OF s]) (use s in \<open>auto simp: evolves_def stops_ok_def ctl_fine_def nth_update_at\<close>)
    with None st assms(5) show ?thesis by (simp add: ctl_message_def)
  next
    case (Some k)
    let ?n = "n'\<lparr>n_ctls := (n_ctls n')[c := CtlStopping k]\<rparr>"
    from Some stop_begin_stops [OF st] have n: "s_error (n_sessions n ! i) = None" "k = length (n_stops n)"
      "n_stops n' = n_stops n @ [StopWait i (session_runs i n) (session_proxies i n) (session_ctls (Some c) i n)]" by auto
    have "c \<notin> set (session_ctls (Some c) i n)" by (simp add: session_ctls_def)
    then have "stop_fine ?n (StopWait i (session_runs i n) (session_proxies i n) (session_ctls (Some c) i n))"
      using fresh_stop_fine [OF assms(1) i n(1) st] by (auto simp: stop_fine_def nth_update_at)
    moreover have "evolves n ?n" using evolves_stop_begin [of n i e "Some c"] st n(1) assms(4) f(5)
      by (auto simp: evolves_def nth_update_at)
    moreover have "ctl_fine ?n" using assms(1) f(5) n by (auto simp: stops_ok_def ctl_fine_def nth_update_at less_Suc_eq)
    ultimately have "stops_ok ?n" using n(3) by (intro stops_evolve [OF assms(1)]) auto
    with Some st assms(5) show ?thesis by (simp add: ctl_message_def)
  qed
qed

lemma stops_connect_open: "stops_ok n \<Longrightarrow> stops_ok (connect_open a fp n)"
  by (rule stops_quiet [OF _ evolves_connect_open]) (simp_all add: connect_open_def spawn_run_def Let_def)

lemma stops_irrelevant [simp]:
  "stops_ok (n\<lparr>n_connect := x\<rparr>) = stops_ok n" "stops_ok (n\<lparr>n_closed := b\<rparr>) = stops_ok n"
  "stops_ok (n\<lparr>n_dials := ds\<rparr>) = stops_ok n" "stops_ok (n\<lparr>n_accepts := xs\<rparr>) = stops_ok n"
  by (simp_all add: stops_ok_def ctl_fine_def stop_fine_def cong: stop_state.case_cong)

lemma stops_connect_enter:
  assumes "stops_ok n" "node_wf n"
  shows "stops_ok (fst (connect_enter a fp n))"
proof (cases "n_session n")
  case (Some i)
  obtain n' r where st: "stop_begin i (Exn ConnectionError [Txt ''relay session replaced'']) None n = (n', r)" by fastforce
  have "stops_ok n'" using stops_begin [OF assms(1) wf_current [OF assms(2) Some]] st by (metis fst_conv)
  with stops_connect_open [OF this] Some st assms show ?thesis
    by (auto simp: connect_enter_def check_fp_def split: option.split)
qed (use assms stops_connect_open [OF assms(1)] in \<open>simp_all add: connect_enter_def check_fp_def\<close>)

lemma stops_connect_failed:
  assumes "stops_ok n" "node_wf n" "k < length (n_runs n)"
  shows "stops_ok (fst (connect_failed k e n))"
proof -
  have "stops_ok (set_run k RunTaken n)" by (rule stops_quiet [OF assms(1)]) (simp_all add: evolves_def)
  from stops_begin [OF this, of "run_session (n_runs n ! k)"] wf_run_session [OF assms(2,3)]
  have "stops_ok (fst (stop_begin (run_session (n_runs n ! k)) x None (set_run k RunTaken n)))" for x by simp
  then show ?thesis
    by (auto simp: connect_failed_def Let_def split: prod.split option.split) (metis fst_conv)+
qed

lemma stops_ctl_message:
  assumes "stops_ok n" "node_wf n" "c < length (n_ctls n)" "n_ctls n ! c = CtlReading i"
  shows "stops_ok (ctl_message c i m n)"
proof (cases "control_turn m")
  case (CtlLost e)
  show ?thesis by (rule stops_ctl_lost [OF assms CtlLost])
next
  case (CtlProxy pl)
  have "stops_ok (n\<lparr>n_proxies := n_proxies n @ [PxNew i pl]\<rparr>)"
    by (rule stops_quiet [OF assms(1)]) (simp_all add: evolves_def nth_append)
  with CtlProxy show ?thesis by (simp add: ctl_message_def)
qed (use assms in \<open>simp_all add: ctl_message_def\<close>)

lemma stops_close: "stops_ok n \<Longrightarrow> node_wf n \<Longrightarrow> stops_ok (node_close n)"
  using stops_begin [of "n\<lparr>n_closed := True\<rparr>"] wf_current [of n]
  by (auto simp: node_close_def Let_def split: option.split)

text \<open>Most steps only move one task or caller on; they are quiet.\<close>

lemma node_step_stops: "node_step n n' \<Longrightarrow> node_wf n \<Longrightarrow> stops_ok n \<Longrightarrow> stops_ok n'"
proof (induction rule: node_step.induct)
  case (connect_enter n a fp) then show ?case by (blast intro: stops_connect_enter)
next
  case (connect_stopped n)
  then show ?case using stops_connect_open [OF connect_stopped(2)]
    by (simp add: connect_stopped_def split: connect_state.split stop_state.split)
next
  case (connect_done n k r)
  then show ?case
    by - (rule stops_evolve [of n], auto simp: connect_done_def evolves_def stops_ok_def ctl_fine_def nth_append nth_update_at Let_def
      split: if_splits)
next
  case (connect_failed n k e) then show ?case by (blast intro: stops_connect_failed)
next
  case (connect_raised n)
  then show ?case by (simp add: connect_raised_def split: connect_state.split stop_state.split)
next
  case (stop_finish k n i rs ps cs)
  then show ?case
    by - (rule stops_evolve [of n], auto simp: stop_finish_def evolves_def stops_ok_def ctl_fine_def stop_fine_def nth_update_at Let_def
      dest!: in_set_updateD)
next
  case (stop_abort k n i rs ps cs)
  then show ?case
    by - (rule stops_evolve [of n], auto simp: stop_abort_def evolves_def stops_ok_def ctl_fine_def stop_fine_def dest!: in_set_updateD)
next
  case (ctl_message c n i m) then show ?case by (blast intro: stops_ctl_message)
next
  case (ctl_cancelled c n i)
  then show ?case by - (rule stops_evolve [of n], auto simp: ctl_over_def evolves_def stops_ok_def ctl_fine_def nth_update_at)
next
  case (ctl_stopped c n k)
  then show ?case by - (rule stops_evolve [of n], auto simp: ctl_over_def evolves_def stops_ok_def ctl_fine_def nth_update_at)
next
  case (close n) then show ?case by (blast intro: stops_close)
next
  case (accept_call n) then show ?case by (auto simp: accept_call_def split: res.split)
qed (erule stops_quiet; auto simp: node_ops evolves_def nth_update_at split: res.split list.split accept_state.split)+

section \<open>A stop can always finish\<close>

text \<open>Tasks that still run.\<close>

definition busy :: "node \<Rightarrow> nat" where
  "busy n = length (filter (\<lambda>t. run_active (run_state t)) (n_runs n)) +
     length (filter (\<lambda>p. p \<noteq> PxDone) (n_proxies n)) + length (filter (\<lambda>c. c \<noteq> CtlOver) (n_ctls n))"

definition progress_to :: "node \<Rightarrow> node \<Rightarrow> bool" where
  "progress_to n n' \<longleftrightarrow> node_step n n' \<and> busy n' < busy n \<and> n_stops n' = n_stops n \<and>
     n_opened n' = n_opened n \<and> n_given n' = n_given n"

lemma filter_update_less:
  "k < length xs \<Longrightarrow> P (xs ! k) \<Longrightarrow> \<not> P x \<Longrightarrow> length (filter P (xs[k := x])) < length (filter P xs)"
proof (induction xs arbitrary: k)
  case (Cons y ys) then show ?case by (cases k) auto
qed simp

lemma filter_update_same:
  "k < length xs \<Longrightarrow> P (xs ! k) = P x \<Longrightarrow> length (filter P (xs[k := x])) = length (filter P xs)"
proof (induction xs arbitrary: k)
  case (Cons y ys) then show ?case by (cases k) auto
qed simp

lemma run_can_end:
  assumes "k < length (n_runs n)" "run_active (run_state (n_runs n ! k))"
  shows "\<exists>n'. progress_to n n'"
proof -
  have l: "length (filter (\<lambda>t. run_active (run_state t)) ((n_runs n)[k := (n_runs n ! k)\<lparr>run_state := RunFailed cancelled\<rparr>])) <
      length (filter (\<lambda>t. run_active (run_state t)) (n_runs n))"
    using assms by (intro filter_update_less) simp_all
  show ?thesis
  proof (cases "run_state (n_runs n ! k)")
    case (RunOp r)
    with node_step.run_op_failed [OF assms(1) RunOp, of cancelled] l show ?thesis
      by (intro exI [of _ "run_op_failed k r cancelled n"])
        (simp add: progress_to_def busy_def run_op_failed_def discard_def shut_def)
  qed (use assms node_step.run_dial_failed [OF assms(1), of cancelled] l in
      \<open>auto intro!: exI [of _ "run_dial_failed k cancelled n"] simp: progress_to_def busy_def run_dial_failed_def\<close>)
qed

lemma proxy_can_end:
  assumes "waits_ok n" "p < length (n_proxies n)" "n_proxies n ! p \<noteq> PxDone"
    and "\<And>j pl. n_proxies n ! p = PxNew j pl \<Longrightarrow> s_ended (n_sessions n ! j)"
  shows "\<exists>n'. progress_to n n'"
proof -
  have l: "length (filter (\<lambda>p. p \<noteq> PxDone) ((n_proxies n)[p := PxDone])) < length (filter (\<lambda>p. p \<noteq> PxDone) (n_proxies n))"
    using assms(2,3) by (intro filter_update_less) simp_all
  show ?thesis
  proof (cases "n_proxies n ! p")
    case (PxNew j pl)
    from node_step.proxy_cancelled [OF assms(2) PxNew assms(4) [OF PxNew]] l show ?thesis
      by (intro exI [of _ "proxy_cancelled p n"]) (simp add: progress_to_def busy_def proxy_cancelled_def)
  next
    case (PxSetup k)
    have "k \<in># waits n" using waits_update(1) [OF assms(2), of "n\<lparr>n_proxies := (n_proxies n)[p := PxDone]\<rparr>" PxDone] PxSetup
      by (simp add: wait_defs flip: add_mset_add_single) (metis union_single_eq_member)
    then have k: "k < length (n_runs n)" "run_state (n_runs n ! k) \<noteq> RunTaken"
      using assms(1) by (auto simp: waits_ok_def waits_fine_def)
    show ?thesis
    proof (cases "run_active (run_state (n_runs n ! k))")
      case True
      with k(1) show ?thesis by (rule run_can_end)
    next
      case False
      then have e: "setup_ends k n" using k(2) by (cases "run_state (n_runs n ! k)") (simp_all add: setup_ends_def)
      have "length (filter (\<lambda>t. run_active (run_state t)) ((n_runs n)[k := (n_runs n ! k)\<lparr>run_state := RunTaken\<rparr>])) =
          length (filter (\<lambda>t. run_active (run_state t)) (n_runs n))"
        using k(1) False filter_update_same [of k "n_runs n"] by simp
      with node_step.proxy_failed [OF assms(2) PxSetup k(1) e] l show ?thesis
        by (intro exI [of _ "proxy_failed p k n"]) (simp add: progress_to_def busy_def proxy_failed_def)
    qed
  qed (use assms(3) in simp)
qed

lemma ctl_can_end:
  assumes "c < length (n_ctls n)" "n_ctls n ! c = CtlReading i" "s_ended (n_sessions n ! i)"
  shows "\<exists>n'. progress_to n n'"
proof -
  have "length (filter (\<lambda>c. c \<noteq> CtlOver) ((n_ctls n)[c := CtlOver])) < length (filter (\<lambda>c. c \<noteq> CtlOver) (n_ctls n))"
    using assms(1,2) by (intro filter_update_less) simp_all
  with node_step.ctl_cancelled [OF assms] show ?thesis
    by (intro exI [of _ "ctl_over c n"]) (simp add: progress_to_def busy_def ctl_over_def)
qed

definition steady :: "node \<Rightarrow> bool" where
  "steady n \<longleftrightarrow> node_wf n \<and> waits_ok n \<and> stops_ok n"

lemma steady_step: "node_step n n' \<Longrightarrow> steady n \<Longrightarrow> steady n'"
  by (simp add: steady_def node_step_wf node_step_waits node_step_stops)

lemma steady_reachable: "node_reachable n \<Longrightarrow> steady n"
proof -
  have "node_reaches n n' \<Longrightarrow> steady n \<Longrightarrow> steady n'" for n n'
    by (induction rule: node_reaches.induct) (auto intro: steady_step)
  moreover have "steady Node_init"
    using node_wf_init by (simp add: steady_def waits_ok_def waits_fine_def waits_def wait_defs stops_ok_def ctl_fine_def Node_init_def)
  ultimately show "node_reachable n \<Longrightarrow> steady n" by (auto simp: node_reachable_def)
qed

lemma stop_progress:
  assumes "steady n" "k < length (n_stops n)" "n_stops n ! k = StopWait i rs ps cs" "\<not> tasks_done rs ps cs n"
  shows "\<exists>n'. progress_to n n'"
proof -
  have f: "stop_fine n (StopWait i rs ps cs)" using assms(1-3) by (auto simp: steady_def stops_ok_def dest: nth_mem)
  then have e: "s_ended (n_sessions n ! i)"
    using assms(1) by (auto simp: stop_fine_def steady_def node_wf_def sessions_ok_def Let_def)
  consider (run) j where "j \<in> set rs" "run_active (run_state (n_runs n ! j))"
    | (proxy) p where "p \<in> set ps" "n_proxies n ! p \<noteq> PxDone"
    | (ctl) c where "c \<in> set cs" "n_ctls n ! c \<noteq> CtlOver"
    using assms(4) by (auto simp: tasks_done_def list_all_iff)
  then show ?thesis
  proof cases
    case run
    with f show ?thesis by (intro run_can_end [of j]) (auto simp: stop_fine_def)
  next
    case proxy
    with f e show ?thesis using assms(1) by (intro proxy_can_end [of n p]) (auto simp: stop_fine_def steady_def)
  next
    case ctl
    with f e show ?thesis by (intro ctl_can_end [of c n i]) (auto simp: stop_fine_def)
  qed
qed

lemma node_reaches_first: "node_reaches n' n'' \<Longrightarrow> node_step n n' \<Longrightarrow> node_reaches n n''"
  by (induction rule: node_reaches.induct) (blast intro: node_here node_then)+

lemma stop_can_finish:
  assumes "steady n" "k < length (n_stops n)" "n_stops n ! k = StopWait i rs ps cs"
  shows "\<exists>n'. node_reaches n n' \<and> n_stops n' = (n_stops n)[k := StopOver] \<and> n_opened n' = n_opened n \<and> n_given n' = n_given n"
  using assms
proof (induction "busy n" arbitrary: n rule: less_induct)
  case less
  show ?case
  proof (cases "tasks_done rs ps cs n")
    case True
    from node_step.stop_finish [OF less.prems(2,3) True] less.prems(3) show ?thesis
      by (intro exI [of _ "stop_finish k n"]) (auto simp: stop_finish_def Let_def intro: node_then [OF node_here])
  next
    case False
    from stop_progress [OF less.prems False] obtain n1 where n1: "node_step n n1" "busy n1 < busy n" "n_stops n1 = n_stops n"
      "n_opened n1 = n_opened n" "n_given n1 = n_given n" by (auto simp: progress_to_def)
    have "steady n1" by (rule steady_step [OF n1(1) less.prems(1)])
    from less.hyps [OF n1(2) this] less.prems n1(3-5) node_reaches_first [OF _ n1(1)] show ?thesis by auto
  qed
qed

section \<open>Properties\<close>



end
