(* ===== verification/PyClient.thy ===== *)
theory PyClient
  imports NodeOps
begin

text \<open>
  The command-line peer \<^verbatim>\<open>uniconn-tests/tools_py/py_client.py\<close>: two such programs reach each other through a
  relay and exchange a greeting. The conversation is modelled on any connection; printed lines are collected
  in a list. Parsing of the command line and standard input are left out, their values are arguments; so is the
  five-second limit on the receipt.

  The theory then puts the pieces of a node together: a node that dials and a node that accepts, each on its own
  transport to the relay, end up with connections that carry the two greetings.
\<close>

section \<open>The program\<close>

datatype client_dialer = UseWs | UseTcp

definition client_relay :: "pystr \<Rightarrow> pystr \<Rightarrow> client_dialer \<times> pystr" where
  "client_relay proto relay =
     (if proto = u ''ws''
      then (UseWs, if take 2 relay = u ''ws'' then relay else u ''ws://'' @ relay)
      else (UseTcp, relay))"

definition client_relay_fp :: "pystr \<Rightarrow> bytes res" where
  "client_relay_fp relay_fp = (if relay_fp \<noteq> [] then bytes_fromhex relay_fp else Return (bytearray 64))"

definition PING :: bytes where "PING = map of_char ''PING_FROM_PY''"
definition PONG :: bytes where "PONG = map of_char ''PONG_FROM_PY''"
definition RECEIPT :: bytes where "RECEIPT = map of_char ''RECEIVED''"

definition client_connected :: "hs_env \<Rightarrow> identity \<Rightarrow> json" where
  "client_connected E i =
     JObj [(u ''event'', JStr (u ''connected'')), (u ''fingerprint'', JStr (bytes_hex (fingerprint E i)))]"

definition client_event :: "pystr \<Rightarrow> json" where
  "client_event msg = JObj [(u ''event'', JStr (u ''msg_received'')), (u ''data'', JStr msg)]"

definition client_read :: "'s conn_ops \<Rightarrow> 's \<Rightarrow> 's \<times> pystr res" where
  "client_read ops s =
     res_bind (op_read ops (bytearray 1024) s) (\<lambda>s (buf, n). lift_res (utf8_decode (take n buf)) s)"

text \<open>The loop that waits for the receipt; \<open>None\<close> would be a loop that never ends.\<close>

partial_function (option) client_receipt :: "'s conn_ops \<Rightarrow> bytes \<Rightarrow> 's \<Rightarrow> ('s \<times> bytes res) option" where
  "client_receipt ops receipt s =
     (if length receipt < length RECEIPT
      then (case op_read ops (bytearray (length RECEIPT - length receipt)) s of
              (s', Return (chunk, n)) \<Rightarrow>
                if n = 0 then Some (s', Raise (Exn ConnectionError [Txt ''EOF before receipt'']))
                else client_receipt ops (receipt @ take n chunk) s'
            | (s', Raise e) \<Rightarrow> Some (s', Raise e)
            | (s', Blocked) \<Rightarrow> Some (s', Blocked))
      else Some (s, Return receipt))"

definition client_wait_receipt :: "'s conn_ops \<Rightarrow> 's \<Rightarrow> ('s \<times> unit res) option" where
  "client_wait_receipt ops s =
     (case client_receipt ops [] s of
        None \<Rightarrow> None
      | Some x \<Rightarrow> Some (res_bind x (\<lambda>s receipt.
          (s, if receipt \<noteq> RECEIPT then Raise (Exn ValueError [Txt ''wrong receipt: '', Raw receipt]) else Return ()))))"

definition client_respond :: "'s conn_ops \<Rightarrow> bool \<Rightarrow> 's \<Rightarrow> ('s \<times> json list \<times> unit res) option" where
  "client_respond ops wait_ack s =
     (case client_read ops s of
        (s, Return msg) \<Rightarrow>
          (case op_write ops PONG s of
             (s, Return n) \<Rightarrow>
               if wait_ack
               then map_option (\<lambda>(s, r). (s, [client_event msg], r)) (client_wait_receipt ops s)
               else Some (s, [client_event msg], Return ())
           | (s, Raise e) \<Rightarrow> Some (s, [client_event msg], Raise e)
           | (s, Blocked) \<Rightarrow> Some (s, [client_event msg], Blocked))
      | (s, Raise e) \<Rightarrow> Some (s, [], Raise e)
      | (s, Blocked) \<Rightarrow> Some (s, [], Blocked))"

definition client_initiate :: "'s conn_ops \<Rightarrow> 's \<Rightarrow> 's \<times> json list \<times> unit res" where
  "client_initiate ops s =
     (case res_bind (op_write ops PING s) (\<lambda>s n. client_read ops s) of
        (s, Return msg) \<Rightarrow> (s, [client_event msg], Return ())
      | (s, Raise e) \<Rightarrow> (s, [], Raise e)
      | (s, Blocked) \<Rightarrow> (s, [], Blocked))"

section \<open>The conversation on an encrypted connection\<close>

lemma greeting_lengths [simp]: "length PING = 12" "length PONG = 12" "length RECEIPT = 8" "PING \<noteq> []" "PONG \<noteq> []" "RECEIPT \<noteq> []"
  by (simp_all add: PING_def PONG_def RECEIPT_def)

lemma greeting_msg_ok: "ts < 2 ^ 32 \<Longrightarrow> msg_ok (ts, PING)" "ts < 2 ^ 32 \<Longrightarrow> msg_ok (ts, PONG)" "ts < 2 ^ 32 \<Longrightarrow> msg_ok (ts, RECEIPT)"
  by (simp_all add: msg_ok_def MAX_MESSAGE_SIZE_def)

lemma greeting_decode: "utf8_decode PING = Return (u ''PING_FROM_PY'')" "utf8_decode PONG = Return (u ''PONG_FROM_PY'')"
proof -
  have "utf8_encode (u ''PING_FROM_PY'') = Return PING" "utf8_encode (u ''PONG_FROM_PY'') = Return PONG"
    by (simp_all add: utf8_encode_ascii PING_def PONG_def u_def)
  then show "utf8_decode PING = Return (u ''PING_FROM_PY'')" "utf8_decode PONG = Return (u ''PONG_FROM_PY'')"
    by (simp_all add: utf8_decode_encode)
qed

context conn_stream
begin

lemma client_read_message:
  assumes A: "aead_ok A" "sc_keys_ok c" "\<not> sc_closed c" "inner_conn c = Some s"
    and ln: "link s (data_frames A (recv_key c) (recv_pfx c) (recv_counter c) ((ts, m) # rms)) wire"
    and m: "msg_ok (ts, m)" "recv_counter c < 2 ^ 64" "recv_buf c = []"
    and t: "length m \<le> 1024" "utf8_decode m = Return t"
  shows "\<exists>s'. client_read (secure_ops A now ops) c =
      (c\<lparr>inner_conn := Some s', recv_counter := recv_counter c + 1, recv_buf := []\<rparr>, Return t) \<and>
    link s' (data_frames A (recv_key c) (recv_pfx c) (Suc (recv_counter c)) rms) wire \<and>
    (\<forall>ns. wok s ns \<longrightarrow> wok s' ns)"
proof -
  have b: "bytearray 1024 \<noteq> []" by simp
  have k: "length m = min (length (bytearray 1024)) (length (snd (ts, m)))" using t(1) by simp
  from sc_read_message [OF A ln m b k] t show ?thesis
    by (auto simp: client_read_def lift_res_def)
qed

text \<open>The receipt is collected whole, however it is cut, and the loop ends.\<close>

lemma client_receipt_delivers:
  assumes "link s (data @ rest) outb" "length receipt + length data = length RECEIPT"
  shows "\<exists>s'. client_receipt ops receipt s = Some (s', Return (receipt @ data)) \<and> link s' rest outb"
  using assms
proof (induction "length data" arbitrary: s receipt data rule: less_induct)
  case less
  show ?case
  proof (cases "data = []")
    case True
    with less.prems show ?thesis by (simp add: client_receipt.simps [of ops receipt s])
  next
    case False
    let ?buf = "bytearray (length RECEIPT - length receipt)"
    have "0 < length data" using False by simp
    with less.prems(2) have p: "length receipt < length RECEIPT" by linarith
    then have b: "length ?buf = length data" "?buf \<noteq> []" using less.prems(2) by simp_all
    have ne: "data @ rest \<noteq> []" using False by simp
    obtain k s1 where k: "0 < k" "k \<le> length data"
      "op_read ops ?buf s = (s1, Return (take k (data @ rest) @ drop k ?buf, k))" "link s1 (drop k (data @ rest)) outb"
      using read_someE [OF less.prems(1) ne b(2)] b(1) by metis
    from k have l1: "link s1 (drop k data @ rest) outb" by simp
    have "client_receipt ops receipt s = client_receipt ops (receipt @ take k data) s1"
      using k p by (subst client_receipt.simps) (simp add: min_absorb2)
    moreover have "\<exists>s'. client_receipt ops (receipt @ take k data) s1 =
        Some (s', Return ((receipt @ take k data) @ drop k data)) \<and> link s' rest outb"
      by (rule less.hyps [OF _ l1]) (use k less.prems(2) in auto)
    ultimately show ?thesis by simp
  qed
qed

text \<open>Both roles on a fresh encrypted connection.\<close>

lemma client_initiate_ok:
  assumes A: "aead_ok A" "blake3_ok (blake3 E)" and c: "c = sc_bind s (SecureConn_init (derive_keys E ss) True)"
    and l: "link s (data_frames A (recv_key c) (recv_pfx c) 0 [(ts, PONG)]) wire" "ts < 2 ^ 32" and w: "wok s [45]"
  shows "\<exists>c' s'. client_initiate (secure_ops A now ops) c = (c', [client_event (u ''PONG_FROM_PY'')], Return ()) \<and>
    inner_conn c' = Some s' \<and>
    link s' [] (wire @ data_frames A (send_key c) (send_pfx c) 0 [(nat (now 0 AND 0xFFFFFFFF), PING)])"
proof -
  have w1: "wok s [length PING + 33]" "length PING + 29 < 256 ^ 4" "bytearray 1024 \<noteq> []" "length PONG \<le> length (bytearray 1024)"
    using w by simp_all
  from fresh_exchange [OF A c l(1) greeting_msg_ok(2) [OF l(2)] greeting_lengths(4) w1(2,1,3,4), of now]
  show ?thesis by (auto simp: client_initiate_def client_read_def lift_res_def greeting_decode)
qed

lemma client_respond_ok:
  assumes A: "aead_ok A" "blake3_ok (blake3 E)" and c: "c = sc_bind s (SecureConn_init (derive_keys E ss) False)"
    and l: "link s (data_frames A (recv_key c) (recv_pfx c) 0 ((ts, PING) # (if wait_ack then [(ts', RECEIPT)] else []))) wire"
      "ts < 2 ^ 32" "ts' < 2 ^ 32"
    and w: "wok s [45]"
  shows "\<exists>c'. client_respond (secure_ops A now ops) wait_ack c =
      Some (c', [client_event (u ''PING_FROM_PY'')], Return ()) \<and>
    (\<not> wait_ack \<longrightarrow> (\<exists>s'. inner_conn c' = Some s' \<and>
      link s' [] (wire @ data_frames A (send_key c) (send_pfx c) 0 [(nat (now 0 AND 0xFFFFFFFF), PONG)])))"
proof -
  let ?rms = "if wait_ack then [(ts', RECEIPT)] else []"
  have k: "sc_keys_ok c" "\<not> sc_closed c" "inner_conn c = Some s" "send_counter c = 0" "recv_counter c = 0" "recv_buf c = []"
    using derive_keys_lengths [OF A(2), of ss] by (simp_all add: c sc_bind_def SecureConn_init_def sc_keys_ok_def)
  have d: "length PING \<le> 1024" "recv_counter c < 2 ^ 64" using k by simp_all
  have l0: "link s (data_frames A (recv_key c) (recv_pfx c) (recv_counter c) ((ts, PING) # ?rms)) wire" using l(1) k(5) by simp
  obtain s1 where s1: "client_read (secure_ops A now ops) c =
      (c\<lparr>inner_conn := Some s1, recv_counter := recv_counter c + 1, recv_buf := []\<rparr>, Return (u ''PING_FROM_PY''))"
    "link s1 (data_frames A (recv_key c) (recv_pfx c) (Suc (recv_counter c)) ?rms) wire" "wok s1 [45]"
    using client_read_message [OF A(1) k(1-3) l0 greeting_msg_ok(1) [OF l(2)] d(2) k(6) d(1) greeting_decode(1), of now] w by auto
  let ?c = "c\<lparr>inner_conn := Some s1, recv_counter := recv_counter c + 1, recv_buf := []\<rparr>"
  have c1: "sc_keys_ok ?c" "\<not> sc_closed ?c" "inner_conn ?c = Some s1" "send_counter ?c < 2 ^ 64" "length PONG + 29 < 256 ^ 4"
    "wok s1 ((length PONG + 33) # [])"
    using k s1(3) by (simp_all add: sc_keys_ok_def)
  obtain s2 where s2: "sc_write A now ops PONG ?c = (?c\<lparr>send_counter := send_counter ?c + 1, inner_conn := Some s2\<rparr>, Return (length PONG))"
    "link s2 (data_frames A (recv_key c) (recv_pfx c) (Suc (recv_counter c)) ?rms)
       (wire @ frame (data_body A (send_key ?c) (send_pfx ?c) (send_counter ?c) (write_ts now ?c, PONG)))"
    using sc_write_puts [OF A(1) c1(1-3) s1(2) c1(6) greeting_lengths(5) c1(5,4) refl, of now] by blast
  let ?c2 = "?c\<lparr>send_counter := send_counter ?c + 1, inner_conn := Some s2\<rparr>"
  let ?wire = "wire @ data_frames A (send_key c) (send_pfx c) 0 [(nat (now 0 AND 0xFFFFFFFF), PONG)]"
  have l2: "link s2 (data_frames A (recv_key c) (recv_pfx c) (Suc (recv_counter c)) ?rms) ?wire"
    using s2(2) k(4) by (simp add: write_ts_def)
  show ?thesis
  proof (cases wait_ack)
    case False
    with s1(1) s2(1) l2 k(5) show ?thesis by (simp add: client_respond_def)
  next
    case True
    have "sc_link A link wire ?c2 (RECEIPT @ []) PONG"
      by (rule sc_linkI [OF A(1), where rms = ?rms and sms = "[(nat (now 0 AND 0xFFFFFFFF), PONG)]" and s = s2])
        (use k l2 True greeting_msg_ok(2) [OF mask32_bound] greeting_msg_ok(3) [OF l(3)] in \<open>simp_all add: sc_keys_ok_def\<close>)
    from conn_stream.client_receipt_delivers [OF secure_stream this, of "[]" now] obtain c3 where
      "client_receipt (secure_ops A now ops) [] ?c2 = Some (c3, Return RECEIPT)" by auto
    with s1(1) s2(1) True show ?thesis by (simp add: client_respond_def client_wait_receipt_def)
  qed
qed

end

section \<open>Two peers and an honest relay\<close>

text \<open>The frames in which the relay sends \<open>rms\<close> on a leg whose handshake gave the secret \<open>ss\<close>.\<close>

definition relay_frames :: "p2p_env \<Rightarrow> bytes \<Rightarrow> (nat \<times> bytes) list \<Rightarrow> bytes" where
  "relay_frames P ss rms = data_frames (pe_aead P) (responder_key (derive_keys (pe_hs P) ss))
     (responder_nonce_pfx (derive_keys (pe_hs P) ss)) 0 rms"

text \<open>What a client says after the handshake with its peer.\<close>

definition greeting :: "p2p_env \<Rightarrow> bytes \<Rightarrow> bytes \<Rightarrow> bytes \<Rightarrow> bytes" where
  "greeting P key pfx m = data_frames (pe_aead P) key pfx 0 [(nat (pe_now P 0 AND 0xFFFFFFFF), m)]"

lemma fresh_keys [simp]:
  "recv_key (sc_bind s (SecureConn_init k b)) = (if b then responder_key k else initiator_key k)"
  "recv_pfx (sc_bind s (SecureConn_init k b)) = (if b then responder_nonce_pfx k else initiator_nonce_pfx k)"
  "send_key (sc_bind s (SecureConn_init k b)) = (if b then initiator_key k else responder_key k)"
  "send_pfx (sc_bind s (SecureConn_init k b)) = (if b then initiator_nonce_pfx k else responder_nonce_pfx k)"
  by (simp_all add: sc_bind_def SecureConn_init_def)

context conn_stream
begin

lemma dialer_greets:
  assumes E: "kem_backend (pe_hs P) = Some K" "blake3_ok (blake3 (pe_hs P))" "aead_ok (pe_aead P)"
    and h1: "initiator_hello (pe_hs P) K (fst c1) (snd c1) i = Return hello1" "length hello1 = 8798"
      "unmarshal_hello body1 = Return reply1" "length body1 \<le> MAX_MESSAGE_SIZE"
      "check_hello (pe_hs P) MSG_HELLO_REPLY ''HELLO_REPLY'' relay_fp (pe_verify P) reply1 = Return ()"
      "kem_decrypt K (snd (kem_keypair K (fst c1))) (payload reply1) = Return ss1"
    and h2: "initiator_hello (pe_hs P) K (fst c2) (snd c2) i = Return hello2" "length hello2 = 8798"
      "unmarshal_hello body2 = Return reply2" "length body2 \<le> MAX_MESSAGE_SIZE"
      "check_hello (pe_hs P) MSG_HELLO_REPLY ''HELLO_REPLY'' peer_fp (pe_verify P) reply2 = Return ()"
      "kem_decrypt K (snd (kem_keypair K (fst c2))) (payload reply2) = Return ss2"
    and line: "line = envelope_line RELAY_REQ (relay_req_payload (bytes_hex peer_fp))" "length line + 30 \<le> MAX_MESSAGE_SIZE"
    and keys: "keys = derive_keys (pe_hs P) ss2"
    and ts: "ts < 2 ^ 32"
    and rms: "list_all msg_ok rms" "length rms \<le> 2 ^ 64"
      "concat (map snd rms) = envelope_line RELAY_ACK ack_ok @ [10] @ frame body2 @
         data_frames (pe_aead P) (responder_key keys) (responder_nonce_pfx keys) 0 [(ts, PONG)]"
    and l: "link s (frame body1 @ relay_frames P ss1 rms) out" and w: "\<And>ns. wok s ns"
  shows "\<exists>conn conn' sc. op_dial P ops c1 c2 i relay_fp peer_fp s = Return conn \<and>
    client_initiate (sc_ops P (sc_ops P ops)) conn = (conn', [client_event (u ''PONG_FROM_PY'')], Return ()) \<and>
    inner_conn conn' = Some sc \<and> sc_link (pe_aead P) link (out @ hello1) sc []
      (line @ [10] @ hello2 @ greeting P (initiator_key keys) (initiator_nonce_pfx keys) PING)"
proof -
  have b: "list_all (\<lambda>n. n + 29 \<le> MAX_MESSAGE_SIZE) ((length line + 1) # 8798 # [45])" "length [45 :: nat] + 2 \<le> 2 ^ 64"
    using line(2) by (simp_all add: MAX_MESSAGE_SIZE_def)
  let ?conn = "\<lambda>sc. sc_bind sc (SecureConn_init keys True)"
  obtain sc where sc: "op_dial P ops c1 c2 i relay_fp peer_fp s = Return (?conn sc)"
    "sc_link (pe_aead P) link (out @ hello1) sc
      (data_frames (pe_aead P) (responder_key keys) (responder_nonce_pfx keys) 0 [(ts, PONG)]) (line @ [10] @ hello2)"
    "sc_wok wok sc [45]"
    using op_dial_completes [OF E h1 h2 ack_ok_props line(1) rms refl l [unfolded relay_frames_def] w b] keys by blast
  have st: "conn_stream (sc_ops P ops) (sc_link (pe_aead P) link (out @ hello1)) (sc_wok wok)"
    unfolding sc_ops_def by (rule secure_stream)
  have l2: "sc_link (pe_aead P) link (out @ hello1) sc
      (data_frames (pe_aead P) (recv_key (?conn sc)) (recv_pfx (?conn sc)) 0 [(ts, PONG)]) (line @ [10] @ hello2)"
    using sc(2) by simp
  from conn_stream.client_initiate_ok [OF st E(3,2) _ l2 ts sc(3), of ss2 "pe_now P"] sc(1) keys
  show ?thesis by (fastforce simp: greeting_def sc_ops_def)
qed

lemma acceptor_greets:
  assumes E: "kem_backend (pe_hs P) = Some K" "blake3_ok (blake3 (pe_hs P))" "aead_ok (pe_aead P)"
    and h1: "initiator_hello (pe_hs P) K (fst c1) (snd c1) i = Return hello1" "length hello1 = 8798"
      "unmarshal_hello body1 = Return reply1" "length body1 \<le> MAX_MESSAGE_SIZE"
      "check_hello (pe_hs P) MSG_HELLO_REPLY ''HELLO_REPLY'' relay_fp (pe_verify P) reply1 = Return ()"
      "kem_decrypt K (snd (kem_keypair K (fst c1))) (payload reply1) = Return ss1"
    and h2: "unmarshal_hello body2 = Return hello2" "length body2 \<le> MAX_MESSAGE_SIZE"
      "check_hello (pe_hs P) MSG_HELLO ''HELLO'' requester_fp (pe_verify P) hello2 = Return ()"
      "responder_reply (pe_hs P) K (fst c2) (snd c2) i (payload hello2) = Return (reply2, ss2)" "length reply2 = 8798"
    and tok: "json_item (u ''session_token'') pl = Return token" "json_plain token"
      "line = envelope_line ACCEPT_RELAY (accept_relay_payload token)" "length line + 30 \<le> MAX_MESSAGE_SIZE"
    and keys: "keys = derive_keys (pe_hs P) ss2"
    and ts: "ts < 2 ^ 32"
    and rms: "list_all msg_ok rms" "length rms \<le> 2 ^ 64"
      "concat (map snd rms) = frame body2 @
         data_frames (pe_aead P) (initiator_key keys) (initiator_nonce_pfx keys) 0 [(ts, PING)]"
    and l: "link s (frame body1 @ relay_frames P ss1 rms) out" and w: "\<And>ns. wok s ns"
  shows "\<exists>conn conn' sc. op_accept P ops c1 c2 i relay_fp requester_fp pl s = Return conn \<and>
    client_respond (sc_ops P (sc_ops P ops)) False conn = Some (conn', [client_event (u ''PING_FROM_PY'')], Return ()) \<and>
    inner_conn conn' = Some sc \<and> sc_link (pe_aead P) link (out @ hello1) sc []
      (line @ [10] @ reply2 @ greeting P (responder_key keys) (responder_nonce_pfx keys) PONG)"
proof -
  have b: "list_all (\<lambda>n. n + 29 \<le> MAX_MESSAGE_SIZE) ((length line + 1) # 8798 # [45])" "length [45 :: nat] + 2 \<le> 2 ^ 64"
    using tok(4) by (simp_all add: MAX_MESSAGE_SIZE_def)
  let ?conn = "\<lambda>sc. sc_bind sc (SecureConn_init keys False)"
  obtain sc where sc: "op_accept P ops c1 c2 i relay_fp requester_fp pl s = Return (?conn sc)"
    "sc_link (pe_aead P) link (out @ hello1) sc
      (data_frames (pe_aead P) (initiator_key keys) (initiator_nonce_pfx keys) 0 [(ts, PING)]) (line @ [10] @ reply2)"
    "sc_wok wok sc [45]"
    using op_accept_completes [OF E h1 h2 tok(1-3) rms refl l [unfolded relay_frames_def] w b] keys by blast
  have st: "conn_stream (sc_ops P ops) (sc_link (pe_aead P) link (out @ hello1)) (sc_wok wok)"
    unfolding sc_ops_def by (rule secure_stream)
  have l2: "sc_link (pe_aead P) link (out @ hello1) sc
      (data_frames (pe_aead P) (recv_key (?conn sc)) (recv_pfx (?conn sc)) 0
        ((ts, PING) # (if False then [(0, RECEIPT)] else []))) (line @ [10] @ reply2)"
    using sc(2) by simp
  from conn_stream.client_respond_ok [OF st E(3,2) _ l2 ts _ sc(3), of ss2 "pe_now P"] sc(1) keys
  show ?thesis by (fastforce simp: greeting_def sc_ops_def)
qed

text \<open>The whole leg of each node, with an honest relay: the handshake with the relay adds nothing to what
  the two nodes say to each other.\<close>

lemma dialer_leg:
  assumes E: "env_ok (pe_hs P)" "aead_ok (pe_aead P)" "pe_verify P = None" and K: "kem_backend (pe_hs P) = Some K"
    and w: "\<And>s ns. wok s ns"
    and ids: "identity_generate (pe_hs P) gi = Return i" "identity_generate (pe_hs P) gr = Return r"
    and h2: "initiator_hello (pe_hs P) K (fst c2) (snd c2) i = Return (frame h2)" "length h2 = 8794"
    and b2: "unmarshal_hello b2 = Return n2" "length b2 = 8794"
      "check_hello (pe_hs P) MSG_HELLO_REPLY ''HELLO_REPLY'' peer_fp None n2 = Return ()"
      "kem_decrypt K (snd (kem_keypair K (fst c2))) (payload n2) = Return ss2"
    and fp: "length peer_fp = 64" and ts: "ts < 2 ^ 32" and keys: "keys = derive_keys (pe_hs P) ss2"
  shows "\<exists>reply ss. length reply = 8798 \<and> responder_reply (pe_hs P) K kI sI r (fst (kem_keypair K (fst c1))) = Return (reply, ss) \<and>
    (\<forall>rms s out. list_all msg_ok rms \<and> length rms \<le> 2 ^ 64 \<and>
      concat (map snd rms) = envelope_line RELAY_ACK ack_ok @ [10] @ frame b2 @
        data_frames (pe_aead P) (responder_key keys) (responder_nonce_pfx keys) 0 [(ts, PONG)] \<and>
      link s (reply @ relay_frames P ss rms) out \<longrightarrow>
      (\<exists>conn conn' sc base. op_dial P ops c1 c2 i (fingerprint (pe_hs P) r) peer_fp s = Return conn \<and>
        client_initiate (sc_ops P (sc_ops P ops)) conn = (conn', [client_event (u ''PONG_FROM_PY'')], Return ()) \<and>
        inner_conn conn' = Some sc \<and> sc_link (pe_aead P) link base sc []
          (envelope_line RELAY_REQ (relay_req_payload (bytes_hex peer_fp)) @ [10] @ frame h2 @
           greeting P (initiator_key keys) (initiator_nonce_pfx keys) PING)))"
proof -
  have b3: "blake3_ok (blake3 (pe_hs P))" using E(1) by (auto simp: env_ok_def)
  obtain h where h: "initiator_hello (pe_hs P) K (fst c1) (snd c1) i = Return (frame h)" "length h = 8794"
    using honest_hello [OF E(1) ids(1) K] by blast
  obtain b m ss where rr: "responder_reply (pe_hs P) K kI sI r (fst (kem_keypair K (fst c1))) = Return (frame b, ss)"
    "length b = 8794" "unmarshal_hello b = Return m" "kem_decrypt K (snd (kem_keypair K (fst c1))) (payload m) = Return ss"
    "check_hello (pe_hs P) MSG_HELLO_REPLY ''HELLO_REPLY'' (fingerprint (pe_hs P) r) None m = Return ()"
    using honest_reply [OF E(1) ids(2) K] by blast
  have size: "length (frame h) = 8798" "length b \<le> MAX_MESSAGE_SIZE" "length (frame h2) = 8798" "length b2 \<le> MAX_MESSAGE_SIZE"
    "length (envelope_line RELAY_REQ (relay_req_payload (bytes_hex peer_fp))) + 30 \<le> MAX_MESSAGE_SIZE"
    using h(2) rr(2) h2(2) b2(2) fp by (simp_all add: MAX_MESSAGE_SIZE_def length_relay_req)
  note V = rr(5) [folded E(3)] b2(3) [folded E(3)]
  show ?thesis
  proof (rule exI [of _ "frame b"], rule exI [of _ ss], intro conjI allI impI, goal_cases)
    case (3 rms s out)
    then have d: "list_all msg_ok rms" "length rms \<le> 2 ^ 64" "concat (map snd rms) = envelope_line RELAY_ACK ack_ok @ [10] @ frame b2 @
        data_frames (pe_aead P) (responder_key keys) (responder_nonce_pfx keys) 0 [(ts, PONG)]"
      "link s (frame b @ relay_frames P ss rms) out" by blast+
    from dialer_greets [OF K b3 E(2) h(1) size(1) rr(3) size(2) V(1) rr(4) h2(1) size(3) b2(1) size(4) V(2) b2(4)
        refl size(5) keys ts d w]
    show ?case by blast
  qed (use rr in simp_all)
qed

lemma acceptor_leg:
  assumes E: "env_ok (pe_hs P)" "aead_ok (pe_aead P)" "pe_verify P = None" and K: "kem_backend (pe_hs P) = Some K"
    and w: "\<And>s ns. wok s ns"
    and ids: "identity_generate (pe_hs P) gp = Return p" "identity_generate (pe_hs P) gr = Return r"
    and h2: "unmarshal_hello h2 = Return m2" "length h2 = 8794"
      "check_hello (pe_hs P) MSG_HELLO ''HELLO'' peer_fp None m2 = Return ()"
    and b2: "responder_reply (pe_hs P) K (fst c2) (snd c2) p (payload m2) = Return (frame b2, ss2)" "length b2 = 8794"
    and tok: "json_item (u ''session_token'') pl = Return token" "json_plain token"
      "length (envelope_line ACCEPT_RELAY (accept_relay_payload token)) + 30 \<le> MAX_MESSAGE_SIZE"
    and ts: "ts < 2 ^ 32" and keys: "keys = derive_keys (pe_hs P) ss2"
  shows "\<exists>reply ss. length reply = 8798 \<and> responder_reply (pe_hs P) K kR sR r (fst (kem_keypair K (fst c1))) = Return (reply, ss) \<and>
    (\<forall>rms s out. list_all msg_ok rms \<and> length rms \<le> 2 ^ 64 \<and>
      concat (map snd rms) = frame h2 @ data_frames (pe_aead P) (initiator_key keys) (initiator_nonce_pfx keys) 0 [(ts, PING)] \<and>
      link s (reply @ relay_frames P ss rms) out \<longrightarrow>
      (\<exists>conn conn' sc base. op_accept P ops c1 c2 p (fingerprint (pe_hs P) r) peer_fp pl s = Return conn \<and>
        client_respond (sc_ops P (sc_ops P ops)) False conn = Some (conn', [client_event (u ''PING_FROM_PY'')], Return ()) \<and>
        inner_conn conn' = Some sc \<and> sc_link (pe_aead P) link base sc []
          (envelope_line ACCEPT_RELAY (accept_relay_payload token) @ [10] @ frame b2 @
           greeting P (responder_key keys) (responder_nonce_pfx keys) PONG)))"
proof -
  have b3: "blake3_ok (blake3 (pe_hs P))" using E(1) by (auto simp: env_ok_def)
  obtain h where h: "initiator_hello (pe_hs P) K (fst c1) (snd c1) p = Return (frame h)" "length h = 8794"
    using honest_hello [OF E(1) ids(1) K] by blast
  obtain b m ss where rr: "responder_reply (pe_hs P) K kR sR r (fst (kem_keypair K (fst c1))) = Return (frame b, ss)"
    "length b = 8794" "unmarshal_hello b = Return m" "kem_decrypt K (snd (kem_keypair K (fst c1))) (payload m) = Return ss"
    "check_hello (pe_hs P) MSG_HELLO_REPLY ''HELLO_REPLY'' (fingerprint (pe_hs P) r) None m = Return ()"
    using honest_reply [OF E(1) ids(2) K] by blast
  have size: "length (frame h) = 8798" "length b \<le> MAX_MESSAGE_SIZE" "length (frame b2) = 8798" "length h2 \<le> MAX_MESSAGE_SIZE"
    using h(2) rr(2) h2(2) b2(2) by (simp_all add: MAX_MESSAGE_SIZE_def)
  note V = rr(5) [folded E(3)] h2(3) [folded E(3)]
  show ?thesis
  proof (rule exI [of _ "frame b"], rule exI [of _ ss], intro conjI allI impI, goal_cases)
    case (3 rms s out)
    then have d: "list_all msg_ok rms" "length rms \<le> 2 ^ 64" "concat (map snd rms) = frame h2 @
        data_frames (pe_aead P) (initiator_key keys) (initiator_nonce_pfx keys) 0 [(ts, PING)]"
      "link s (frame b @ relay_frames P ss rms) out" by blast+
    from acceptor_greets [OF K b3 E(2) h(1) size(1) rr(3) size(2) V(1) rr(4) h2(1) size(4) V(2) b2(1) size(3)
        tok(1,2) refl tok(3) keys ts d w]
    show ?case by blast
  qed (use rr in simp_all)
qed

end

text \<open>The legs of the two peers to the relay, each on its own transport.\<close>

locale peer_legs = conn_pair opsI linkI "\<lambda>_ _. True" opsR linkR "\<lambda>_ _. True"
  for opsI :: "'s conn_ops" and linkI and opsR :: "'t conn_ops" and linkR
begin

lemma peers_exchange:
  assumes E: "env_ok (pe_hs P)" "aead_ok (pe_aead P)" "pe_verify P = None"
    and Q: "pe_hs Q = pe_hs P" "pe_aead Q = pe_aead P" "pe_verify Q = None"
    and ids: "identity_generate (pe_hs P) gi = Return i" "identity_generate (pe_hs P) gp = Return p"
      "identity_generate (pe_hs P) gr = Return r"
    and tok: "json_item (u ''session_token'') pl = Return token" "json_plain token"
      "length (envelope_line ACCEPT_RELAY (accept_relay_payload token)) + 30 \<le> MAX_MESSAGE_SIZE"
  shows "\<exists>K replyI ssI replyR ssR to_peer to_dialer. kem_backend (pe_hs P) = Some K \<and>
    length replyI = 8798 \<and> length replyR = 8798 \<and> length to_peer = 8843 \<and> length to_dialer = 8843 \<and>
    responder_reply (pe_hs P) K kI sI r (fst (kem_keypair K (fst ci1))) = Return (replyI, ssI) \<and>
    responder_reply (pe_hs P) K kR sR r (fst (kem_keypair K (fst cp1))) = Return (replyR, ssR) \<and>
    (\<forall>rms s out. list_all msg_ok rms \<and> length rms \<le> 2 ^ 64 \<and>
      concat (map snd rms) = envelope_line RELAY_ACK ack_ok @ [10] @ to_dialer \<and>
      linkI s (replyI @ relay_frames P ssI rms) out \<longrightarrow>
      (\<exists>conn conn' sc base. op_dial P opsI ci1 ci2 i (fingerprint (pe_hs P) r) (fingerprint (pe_hs P) p) s = Return conn \<and>
        client_initiate (sc_ops P (sc_ops P opsI)) conn = (conn', [client_event (u ''PONG_FROM_PY'')], Return ()) \<and>
        inner_conn conn' = Some sc \<and> sc_link (pe_aead P) linkI base sc []
          (envelope_line RELAY_REQ (relay_req_payload (bytes_hex (fingerprint (pe_hs P) p))) @ [10] @ to_peer))) \<and>
    (\<forall>rms s out. list_all msg_ok rms \<and> length rms \<le> 2 ^ 64 \<and> concat (map snd rms) = to_peer \<and>
      linkR s (replyR @ relay_frames P ssR rms) out \<longrightarrow>
      (\<exists>conn conn' sc base. op_accept Q opsR cp1 cp2 p (fingerprint (pe_hs P) r) (fingerprint (pe_hs P) i) pl s = Return conn \<and>
        client_respond (sc_ops Q (sc_ops Q opsR)) False conn = Some (conn', [client_event (u ''PING_FROM_PY'')], Return ()) \<and>
        inner_conn conn' = Some sc \<and> sc_link (pe_aead P) linkR base sc []
          (envelope_line ACCEPT_RELAY (accept_relay_payload token) @ [10] @ to_dialer)))"
proof -
  let ?E = "pe_hs P"
  obtain K where K: "kem_backend ?E = Some K" and b3: "blake3_ok (blake3 ?E)"
    using E(1) by (auto simp: env_ok_def)
  obtain h2 m2 where h2: "initiator_hello ?E K (fst ci2) (snd ci2) i = Return (frame h2)" "length h2 = 8794"
    "unmarshal_hello h2 = Return m2" "payload m2 = fst (kem_keypair K (fst ci2))"
    "check_hello ?E MSG_HELLO ''HELLO'' (fingerprint ?E i) None m2 = Return ()"
    using honest_hello [OF E(1) ids(1) K] by blast
  obtain b2 n2 ss2 where r2: "responder_reply ?E K (fst cp2) (snd cp2) p (payload m2) = Return (frame b2, ss2)"
    "length b2 = 8794" "unmarshal_hello b2 = Return n2" "kem_decrypt K (snd (kem_keypair K (fst ci2))) (payload n2) = Return ss2"
    "check_hello ?E MSG_HELLO_REPLY ''HELLO_REPLY'' (fingerprint ?E p) None n2 = Return ()"
    using honest_reply [OF E(1) ids(2) K, of "fst cp2" "snd cp2" "fst ci2"] h2(4) by auto
  define keys where "keys = derive_keys ?E ss2"
  define to_peer where "to_peer = frame h2 @ greeting P (initiator_key keys) (initiator_nonce_pfx keys) PING"
  define to_dialer where "to_dialer = frame b2 @ greeting Q (responder_key keys) (responder_nonce_pfx keys) PONG"
  have lens: "length to_peer = 8843" "length to_dialer = 8843"
    using h2(2) r2(2) derive_keys_lengths [OF b3, of ss2] E(2) Q(2)
    by (simp_all add: to_peer_def to_dialer_def greeting_def length_data_body keys_def)
  have inv: "relay_frames Q = relay_frames P" using Q by (intro ext) (simp add: relay_frames_def)
  note fpl = fingerprint_length [OF b3, of p]
  note D = I.dialer_leg [OF E K TrueI ids(1,3) h2(1,2) r2(3,2,5,4) fpl mask32_bound keys_def, of kI sI ci1 "pe_now Q 0"]
  note R = R.acceptor_leg [OF E(1,2) [folded Q(1,2)] Q(3) K [folded Q(1)] TrueI ids(2,3) [folded Q(1)]
      h2(3,2,5) [folded Q(1)] r2(1) [folded Q(1)] r2(2) tok mask32_bound keys_def [folded Q(1)], of kR sR cp1 "pe_now P 0",
      unfolded Q(1,2) inv]
  obtain replyI ssI where I: "length replyI = 8798" "responder_reply ?E K kI sI r (fst (kem_keypair K (fst ci1))) = Return (replyI, ssI)"
    "\<forall>rms s out. list_all msg_ok rms \<and> length rms \<le> 2 ^ 64 \<and>
      concat (map snd rms) = envelope_line RELAY_ACK ack_ok @ [10] @ to_dialer \<and> linkI s (replyI @ relay_frames P ssI rms) out \<longrightarrow>
      (\<exists>conn conn' sc base. op_dial P opsI ci1 ci2 i (fingerprint ?E r) (fingerprint ?E p) s = Return conn \<and>
        client_initiate (sc_ops P (sc_ops P opsI)) conn = (conn', [client_event (u ''PONG_FROM_PY'')], Return ()) \<and>
        inner_conn conn' = Some sc \<and> sc_link (pe_aead P) linkI base sc []
          (envelope_line RELAY_REQ (relay_req_payload (bytes_hex (fingerprint ?E p))) @ [10] @ to_peer))"
    using D by (elim exE conjE) (rule that, simp_all add: to_peer_def to_dialer_def greeting_def Q(2))
  from R obtain replyR ssR where "length replyR = 8798" "responder_reply ?E K kR sR r (fst (kem_keypair K (fst cp1))) = Return (replyR, ssR)"
    "\<forall>rms s out. list_all msg_ok rms \<and> length rms \<le> 2 ^ 64 \<and> concat (map snd rms) = to_peer \<and>
      linkR s (replyR @ relay_frames P ssR rms) out \<longrightarrow>
      (\<exists>conn conn' sc base. op_accept Q opsR cp1 cp2 p (fingerprint ?E r) (fingerprint ?E i) pl s = Return conn \<and>
        client_respond (sc_ops Q (sc_ops Q opsR)) False conn = Some (conn', [client_event (u ''PING_FROM_PY'')], Return ()) \<and>
        inner_conn conn' = Some sc \<and> sc_link (pe_aead P) linkR base sc []
          (envelope_line ACCEPT_RELAY (accept_relay_payload token) @ [10] @ to_dialer))"
    by (elim exE conjE) (rule that, simp_all add: to_peer_def to_dialer_def greeting_def Q(2))
  with I K lens show ?thesis
    by - (rule exI [of _ K], rule exI [of _ replyI], rule exI [of _ ssI], rule exI [of _ replyR], rule exI [of _ ssR],
        rule exI [of _ to_peer], rule exI [of _ to_dialer], intro conjI; assumption)
qed

end

interpretation tcp_legs: peer_legs tcp_ops tcp_link tcp_ops tcp_link
  by unfold_locales

end
