(* ===== verification/Kcp.thy ===== *)
theory Kcp
  imports SecureChannel
begin

text \<open>
  The KCP transport, \<^verbatim>\<open>kcp/__init__.py\<close>. The \<^verbatim>\<open>kcp\<close> package is a parameter: the \<open>send\<close> of its
  client and the \<open>enqueue\<close> of its server-side connection. A \<open>KcpConn\<close> of a listener is shared by the
  listener's dictionary, its accept queue and whoever accepted it; so the listener keeps its connections
  in a store and refers to them by number.
\<close>

section \<open>KcpConn\<close>

record 'k kcp_lib =
  lib_client_send :: "bytes \<Rightarrow> 'k \<Rightarrow> 'k \<times> unit res"
  lib_enqueue :: "bytes \<Rightarrow> 'k \<Rightarrow> 'k \<times> unit res"

record 'k kcp_conn =
  kc_conn :: "'k option"
  kc_send_fn :: "'k option"
  kc_local :: "pystr option"
  kc_remote :: "pystr option"
  kc_recv_queue :: "bytes list"
  kc_recv_buf :: bytes
  kc_closed :: bool

definition KcpConn_init :: "'k option \<Rightarrow> pystr option \<Rightarrow> pystr option \<Rightarrow> 'k kcp_conn" where
  "KcpConn_init k loc rem =
     \<lparr>kc_conn = k, kc_send_fn = None, kc_local = loc, kc_remote = rem, kc_recv_queue = [],
      kc_recv_buf = [], kc_closed = False\<rparr>"

definition kcp_on_data :: "bytes \<Rightarrow> 'k kcp_conn \<Rightarrow> 'k kcp_conn" where
  "kcp_on_data data c = (if \<not> kc_closed c then c\<lparr>kc_recv_queue := kc_recv_queue c @ [data]\<rparr> else c)"

text \<open>\<open>expired\<close>: the 10 seconds of \<^verbatim>\<open>wait_for\<close> have passed without data.\<close>

definition kcp_read :: "bool \<Rightarrow> bytes \<Rightarrow> 'k kcp_conn \<Rightarrow> 'k kcp_conn \<times> (bytes \<times> nat) res" where
  "kcp_read expired buf c =
     (if kc_closed c then (c, Raise connection_closed)
      else if kc_recv_buf c \<noteq> [] then
        (let (r, rest) = fill_buf buf (kc_recv_buf c) in (c\<lparr>kc_recv_buf := rest\<rparr>, Return r))
      else
        (case kc_recv_queue c of
           [] \<Rightarrow> (c, if expired then Return (buf, 0) else Blocked)
         | data # q \<Rightarrow>
             (let (r, rest) = fill_buf buf data
              in (c\<lparr>kc_recv_queue := q, kc_recv_buf := kc_recv_buf c @ rest\<rparr>, Return r))))"

definition kcp_write :: "'k kcp_lib \<Rightarrow> bytes \<Rightarrow> 'k kcp_conn \<Rightarrow> 'k kcp_conn \<times> nat res" where
  "kcp_write L data c =
     (if kc_closed c then (c, Raise connection_closed)
      else case kc_send_fn c of
             Some k \<Rightarrow>
               (case lib_client_send L data k of
                  (k', r) \<Rightarrow> (c\<lparr>kc_send_fn := Some k'\<rparr>, bind_res r (\<lambda>_. Return (length data))))
           | None \<Rightarrow>
               (case kc_conn c of
                  Some k \<Rightarrow>
                    (case lib_enqueue L data k of
                       (k', r) \<Rightarrow> (c\<lparr>kc_conn := Some k'\<rparr>, bind_res r (\<lambda>_. Return (length data))))
                | None \<Rightarrow> (c, Raise (Exn AttributeError [Txt ''enqueue'']))))"

definition kcp_close :: "'k kcp_conn \<Rightarrow> 'k kcp_conn \<times> unit res" where
  "kcp_close c = (c\<lparr>kc_closed := True\<rparr>, Return ())"

definition kcp_addr :: "pystr option \<Rightarrow> addr option" where
  "kcp_addr a =
     (case a of
        Some s \<Rightarrow> if s \<noteq> [] then Some \<lparr>network = u ''kcp'', address = s\<rparr> else None
      | None \<Rightarrow> None)"

definition kcp_ops :: "'k kcp_lib \<Rightarrow> bool \<Rightarrow> 'k kcp_conn conn_ops" where
  "kcp_ops L expired = \<lparr>op_read = kcp_read expired, op_write = kcp_write L, op_close = kcp_close,
     op_local_addr = (\<lambda>c. kcp_addr (kc_local c)), op_remote_addr = (\<lambda>c. kcp_addr (kc_remote c))\<rparr>"

lemma kcp_ops_sel [simp]:
  "op_read (kcp_ops L x) = kcp_read x" "op_write (kcp_ops L x) = kcp_write L" "op_close (kcp_ops L x) = kcp_close"
  by (simp_all add: kcp_ops_def)

section \<open>KcpDialer\<close>

text \<open>\<open>client\<close> is \<^verbatim>\<open>KCPClientSync\<close> for a host and port.\<close>

definition kcp_dial :: "(pystr \<Rightarrow> int \<Rightarrow> 'k res) \<Rightarrow> pystr \<Rightarrow> 'k kcp_conn res" where
  "kcp_dial client a =
     bind_res (split_address a) (\<lambda>(host, port).
     bind_res (client host port) (\<lambda>k. Return ((KcpConn_init None None (Some a))\<lparr>kc_send_fn := Some k\<rparr>)))"

section \<open>KcpListener\<close>

type_synonym peer = "pystr \<times> nat"

record 'k kcp_listener =
  kl_addr :: addr
  kl_queue :: "nat list"
  kl_connections :: "(peer \<times> nat) list"
  kl_closed :: bool
  kl_store :: "'k kcp_conn list"

definition kcp_bind :: "pystr \<Rightarrow> nat \<Rightarrow> 'k kcp_listener" where
  "kcp_bind host port =
     \<lparr>kl_addr = \<lparr>network = u ''kcp'', address = host_port host port\<rparr>, kl_queue = [], kl_connections = [],
      kl_closed = False, kl_store = []\<rparr>"

text \<open>A datagram: the library's connection object, its address and the data.\<close>

type_synonym 'k datagram = "'k \<times> peer \<times> bytes"

definition kcp_accepted :: "pystr \<Rightarrow> nat \<Rightarrow> 'k \<Rightarrow> peer \<Rightarrow> 'k kcp_conn" where
  "kcp_accepted host port k a =
     KcpConn_init (Some k) (Some (host_port host port)) (Some (host_port (fst a) (snd a)))"

definition kcp_handle_data :: "pystr \<Rightarrow> nat \<Rightarrow> 'k datagram \<Rightarrow> 'k kcp_listener \<Rightarrow> 'k kcp_listener" where
  "kcp_handle_data host port d l =
     (case d of (k, a, data) \<Rightarrow>
        let l = (if map_of (kl_connections l) a = None
                 then l\<lparr>kl_store := kl_store l @ [kcp_accepted host port k a],
                        kl_connections := kl_connections l @ [(a, length (kl_store l))],
                        kl_queue := kl_queue l @ [length (kl_store l)]\<rparr>
                 else l);
            j = the (map_of (kl_connections l) a)
        in l\<lparr>kl_store := (kl_store l)[j := kcp_on_data data (kl_store l ! j)]\<rparr>)"

definition kcp_accept :: "'k kcp_listener \<Rightarrow> 'k kcp_listener \<times> nat res" where
  "kcp_accept l = (let (q, r) = queue_get (kl_queue l) in (l\<lparr>kl_queue := q\<rparr>, r))"

definition kcp_listener_close :: "'k kcp_listener \<Rightarrow> 'k kcp_listener \<times> unit res" where
  "kcp_listener_close l = (l\<lparr>kl_closed := True\<rparr>, Return ())"

definition kcp_listener_addr :: "'k kcp_listener \<Rightarrow> addr" where
  "kcp_listener_addr l = kl_addr l"

text \<open>The owner of connection \<open>j\<close> closes it.\<close>

definition kcp_close_at :: "nat \<Rightarrow> 'k kcp_listener \<Rightarrow> 'k kcp_listener" where
  "kcp_close_at j l = l\<lparr>kl_store := (kl_store l)[j := fst (kcp_close (kl_store l ! j))]\<rparr>"

section \<open>The stream contract\<close>

definition kcp_lib_ok :: "'k kcp_lib \<Rightarrow> ('k \<Rightarrow> bytes list \<Rightarrow> bool) \<Rightarrow> bool" where
  "kcp_lib_ok L lk \<longleftrightarrow> (\<forall>k out d. lk k out \<longrightarrow>
     (\<exists>k'. lib_client_send L d k = (k', Return ()) \<and> lk k' (out @ [d])) \<and>
     (\<exists>k'. lib_enqueue L d k = (k', Return ()) \<and> lk k' (out @ [d])))"

definition kcp_sender :: "'k kcp_conn \<Rightarrow> 'k option" where
  "kcp_sender c = (case kc_send_fn c of Some k \<Rightarrow> Some k | None \<Rightarrow> kc_conn c)"

definition kcp_link :: "('k \<Rightarrow> bytes list \<Rightarrow> bool) \<Rightarrow> 'k kcp_conn \<Rightarrow> bytes \<Rightarrow> bytes \<Rightarrow> bool" where
  "kcp_link lk c inb outb \<longleftrightarrow> \<not> kc_closed c \<and> [] \<notin> set (kc_recv_queue c) \<and>
     inb = kc_recv_buf c @ concat (kc_recv_queue c) \<and>
     (\<exists>k out. kcp_sender c = Some k \<and> lk k out \<and> outb = concat out)"

lemma kcp_sender_upd [simp]:
  "kcp_sender (c\<lparr>kc_recv_buf := b\<rparr>) = kcp_sender c" "kcp_sender (c\<lparr>kc_recv_queue := q\<rparr>) = kcp_sender c"
  by (simp_all add: kcp_sender_def split: option.split)

lemma kcp_read_some:
  assumes l: "kcp_link lk c inb outb" and ne: "inb \<noteq> []" "buf \<noteq> []"
  shows "\<exists>k c'. 0 < k \<and> k \<le> length buf \<and> k \<le> length inb \<and>
    kcp_read x buf c = (c', Return (take k inb @ drop k buf, k)) \<and> kcp_link lk c' (drop k inb) outb"
proof (cases "kc_recv_buf c = []")
  case False
  obtain k where k: "0 < k" "k \<le> length buf" "k \<le> length (kc_recv_buf c)"
    "fill_buf buf (kc_recv_buf c) = ((take k (kc_recv_buf c) @ drop k buf, k), drop k (kc_recv_buf c))"
    by (rule fill_buf_some [OF False ne(2)])
  let ?c = "c\<lparr>kc_recv_buf := drop k (kc_recv_buf c)\<rparr>"
  have "kcp_read x buf c = (?c, Return (take k inb @ drop k buf, k))" "kcp_link lk ?c (drop k inb) outb"
    using l k False by (auto simp: kcp_read_def kcp_link_def)
  moreover have "k \<le> length inb" using l k(3) by (auto simp: kcp_link_def)
  ultimately show ?thesis using k(1,2) by blast
next
  case True
  with l ne obtain d q where d: "kc_recv_queue c = d # q" "d \<noteq> []"
    by (cases "kc_recv_queue c") (auto simp: kcp_link_def)
  obtain k where k: "0 < k" "k \<le> length buf" "k \<le> length d"
    "fill_buf buf d = ((take k d @ drop k buf, k), drop k d)"
    by (rule fill_buf_some [OF d(2) ne(2)])
  let ?c = "c\<lparr>kc_recv_queue := q, kc_recv_buf := drop k d\<rparr>"
  have "kcp_read x buf c = (?c, Return (take k inb @ drop k buf, k))" "kcp_link lk ?c (drop k inb) outb"
    using l k d True by (auto simp: kcp_read_def kcp_link_def)
  moreover have "k \<le> length inb" using l k(3) d True by (auto simp: kcp_link_def)
  ultimately show ?thesis using k(1,2) by blast
qed

lemma kcp_stream:
  assumes "kcp_lib_ok L lk"
  shows "conn_stream (kcp_ops L x) (kcp_link lk) (\<lambda>_ _. True)"
proof
  fix c :: "'a kcp_conn" and inb outb buf :: bytes
  assume "kcp_link lk c inb outb" "inb \<noteq> []" "buf \<noteq> []"
  from kcp_read_some [OF this] show "\<exists>k c'. 0 < k \<and> k \<le> length buf \<and> k \<le> length inb \<and>
      op_read (kcp_ops L x) buf c = (c', Return (take k inb @ drop k buf, k)) \<and>
      kcp_link lk c' (drop k inb) outb \<and> (\<forall>ns :: nat list. True \<longrightarrow> True)" by simp
next
  fix c :: "'a kcp_conn" and inb outb data :: bytes and ns :: "nat list"
  assume l: "kcp_link lk c inb outb"
  then obtain k out where k: "kcp_sender c = Some k" "lk k out" "outb = concat out"
    by (auto simp: kcp_link_def)
  obtain s e where se: "lib_client_send L data k = (s, Return ())" "lk s (out @ [data])"
    "lib_enqueue L data k = (e, Return ())" "lk e (out @ [data])"
    using assms k(2) unfolding kcp_lib_ok_def by blast
  show "\<exists>c'. op_write (kcp_ops L x) data c = (c', Return (length data)) \<and>
      kcp_link lk c' inb (outb @ data) \<and> True"
  proof (cases "kc_send_fn c")
    case None
    then show ?thesis using l k se
      by (auto simp: kcp_write_def kcp_link_def kcp_sender_def intro!: exI [of _ "out @ [data]"])
  next
    case (Some k')
    then show ?thesis using l k se
      by (auto simp: kcp_write_def kcp_link_def kcp_sender_def intro!: exI [of _ "out @ [data]"])
  qed
qed

interpretation kcp_shut: conn_shut "kcp_ops L x" "\<lambda>_. True" kc_closed
  by unfold_locales (auto simp: kcp_close_def kcp_read_def kcp_write_def)

section \<open>What the listener does with a sequence of datagrams\<close>

text \<open>Addresses in the order of their first datagram, and the datagrams of one address.\<close>

definition peers :: "'k datagram list \<Rightarrow> peer list" where
  "peers ds = rev (remdups (rev (map (\<lambda>d. fst (snd d)) ds)))"

definition datagrams_of :: "peer \<Rightarrow> 'k datagram list \<Rightarrow> 'k datagram list" where
  "datagrams_of a ds = filter (\<lambda>d. fst (snd d) = a) ds"

text \<open>The reference: one connection per address, holding exactly the data of that address, in order.\<close>

definition kcp_conn_of :: "pystr \<Rightarrow> nat \<Rightarrow> 'k datagram list \<Rightarrow> peer \<Rightarrow> 'k kcp_conn" where
  "kcp_conn_of host port ds a =
     (kcp_accepted host port (fst (hd (datagrams_of a ds))) a)
       \<lparr>kc_recv_queue := map (\<lambda>d. snd (snd d)) (datagrams_of a ds)\<rparr>"

definition kcp_demuxed :: "pystr \<Rightarrow> nat \<Rightarrow> 'k datagram list \<Rightarrow> 'k kcp_listener" where
  "kcp_demuxed host port ds =
     (kcp_bind host port)\<lparr>kl_queue := [0..<length (peers ds)],
       kl_connections := zip (peers ds) [0..<length (peers ds)],
       kl_store := map (kcp_conn_of host port ds) (peers ds)\<rparr>"

lemma peers_snoc:
  "peers (ds @ [(k, a, data)]) = (if a \<in> set (peers ds) then peers ds else peers ds @ [a])"
  by (auto simp: peers_def)

lemma set_peers: "set (peers ds) = (\<lambda>d. fst (snd d)) ` set ds"
  by (simp add: peers_def)

lemma distinct_peers: "distinct (peers ds)"
  by (simp add: peers_def)

lemma datagrams_of_snoc:
  "datagrams_of b (ds @ [(k, a, data)]) = datagrams_of b ds @ (if a = b then [(k, a, data)] else [])"
  by (simp add: datagrams_of_def)

lemma datagrams_of_Nil: "datagrams_of a ds = [] \<longleftrightarrow> a \<notin> set (peers ds)"
  by (force simp: datagrams_of_def set_peers filter_empty_conv)

lemma map_of_position:
  assumes "distinct xs" "j < length xs"
  shows "map_of (zip xs [0..<length xs]) (xs ! j) = Some j"
  using assms by (simp add: map_of_zip_nth)

lemma map_of_absent: "a \<notin> set xs \<Longrightarrow> map_of (zip xs [0..<length xs]) a = None"
  by (auto simp: map_of_eq_None_iff dest: set_zip_leftD)

lemma kcp_conn_of_snoc:
  "a \<noteq> b \<Longrightarrow> kcp_conn_of host port (ds @ [(k, a, data)]) b = kcp_conn_of host port ds b"
  "a \<in> set (peers ds) \<Longrightarrow> kcp_conn_of host port (ds @ [(k, a, data)]) a = kcp_on_data data (kcp_conn_of host port ds a)"
  "a \<notin> set (peers ds) \<Longrightarrow> kcp_conn_of host port (ds @ [(k, a, data)]) a = kcp_on_data data (kcp_accepted host port k a)"
  using datagrams_of_Nil [of a ds]
  by (auto simp: kcp_conn_of_def datagrams_of_snoc kcp_on_data_def kcp_accepted_def KcpConn_init_def)

lemma kcp_demux_step:
  "kcp_handle_data host port (k, a, data) (kcp_demuxed host port ds) = kcp_demuxed host port (ds @ [(k, a, data)])"
proof (cases "a \<in> set (peers ds)")
  case True
  let ?conn = "kcp_conn_of host port"
  obtain j where j: "j < length (peers ds)" "peers ds ! j = a" using True by (auto simp: in_set_conv_nth)
  have m: "map_of (kl_connections (kcp_demuxed host port ds)) a = Some j"
    using map_of_position [OF distinct_peers j(1)] j(2) by (simp add: kcp_demuxed_def)
  have "(map (?conn ds) (peers ds))[j := kcp_on_data data (?conn ds a)] = map (?conn (ds @ [(k, a, data)])) (peers ds)"
  proof (rule nth_equalityI)
    fix i assume "i < length ((map (?conn ds) (peers ds))[j := kcp_on_data data (?conn ds a)])"
    then have i: "i < length (peers ds)" by simp
    have "peers ds ! i = a \<longleftrightarrow> i = j" using nth_eq_iff_index_eq [OF distinct_peers i j(1)] j(2) by simp
    then show "(map (?conn ds) (peers ds))[j := kcp_on_data data (?conn ds a)] ! i =
        map (?conn (ds @ [(k, a, data)])) (peers ds) ! i"
      using i j kcp_conn_of_snoc(1) [of a "peers ds ! i" host port ds k data] kcp_conn_of_snoc(2) [OF True, of host port k data]
      by (cases "i = j") (simp_all add: nth_update_at)
  qed simp
  with True m j show ?thesis
    by (simp add: kcp_handle_data_def Let_def) (simp add: kcp_demuxed_def peers_snoc kcp_bind_def)
next
  case False
  have "map_of (kl_connections (kcp_demuxed host port ds)) a = None"
    using map_of_absent [OF False] by (simp add: kcp_demuxed_def)
  moreover have "map (kcp_conn_of host port (ds @ [(k, a, data)])) (peers ds) = map (kcp_conn_of host port ds) (peers ds)"
    using False by (auto intro!: kcp_conn_of_snoc(1))
  ultimately show ?thesis using False kcp_conn_of_snoc(3) [OF False, of host port k data]
    by (simp add: kcp_handle_data_def Let_def map_add_def) (simp add: kcp_demuxed_def peers_snoc kcp_bind_def)
qed

lemma kcp_demux_eq: "fold (kcp_handle_data host port) ds (kcp_bind host port) = kcp_demuxed host port ds"
proof (induction ds rule: rev_induct)
  case Nil
  show ?case by (simp add: kcp_demuxed_def kcp_bind_def peers_def)
next
  case (snoc d ds)
  then show ?case by (cases d) (simp add: kcp_demux_step)
qed

definition toy_kcp :: "bytes list kcp_lib" where
  "toy_kcp = \<lparr>lib_client_send = (\<lambda>d out. (out @ [d], Return ())), lib_enqueue = (\<lambda>d out. (out @ [d], Return ()))\<rparr>"

lemma toy_kcp_ok: "kcp_lib_ok toy_kcp (\<lambda>k out. k = out)"
  by (simp add: kcp_lib_ok_def toy_kcp_def)

text \<open>A listener after one datagram, with the connection accepted and closed.\<close>

definition toy_kcp_closed :: "bytes list kcp_listener" where
  "toy_kcp_closed = kcp_close_at 0 (fst (kcp_accept (fold (kcp_handle_data (u ''h'') 1) [([], (u ''a'', 1), [1])]
     (kcp_bind (u ''h'') 1))))"

lemma toy_kcp_closed_sel:
  "map_of (kl_connections toy_kcp_closed) (u ''a'', 1) = Some 0" "0 < length (kl_store toy_kcp_closed)"
  "kc_closed (kl_store toy_kcp_closed ! 0)" "kl_queue toy_kcp_closed = []"
  by (simp_all add: toy_kcp_closed_def kcp_close_at_def kcp_close_def kcp_accept_def queue_get_def kcp_handle_data_def
      kcp_bind_def kcp_on_data_def Let_def)

section \<open>Properties\<close>

text \<open>C30. The KCP listener is a demultiplexer: after any sequence of datagrams, its state is the reference
  state: one connection per address, accepted in the order in which the addresses first appeared, each
  holding exactly the data of its own address in order.\<close>

theorem kcp_demux:
  "fold (kcp_handle_data host port) ds (kcp_bind host port) = kcp_demuxed host port ds"
  by (rule kcp_demux_eq)

text \<open>C31. So whoever accepts the connection of an address and reads \<open>n\<close> bytes gets the first \<open>n\<close> bytes
  that this address sent, whatever the sizes of the datagrams and however other peers' datagrams are
  interleaved (empty datagrams apart).\<close>

theorem kcp_accept_delivers:
  assumes "kcp_lib_ok L lk" "\<And>k. lk k []"
    and "l = fold (kcp_handle_data host port) ds (kcp_bind host port)" "j < length (peers ds)"
    and "\<forall>d \<in> set (datagrams_of (peers ds ! j) ds). snd (snd d) \<noteq> []"
    and "n \<le> length (concat (map (\<lambda>d. snd (snd d)) (datagrams_of (peers ds ! j) ds)))"
  shows "kl_queue l ! j = j \<and>
    (\<exists>c. read_loop (kcp_ops L x) eof n 0 (bytearray n) (kl_store l ! j) =
      (c, Return (take n (concat (map (\<lambda>d. snd (snd d)) (datagrams_of (peers ds ! j) ds))))))"
proof -
  let ?data = "concat (map (\<lambda>d. snd (snd d)) (datagrams_of (peers ds ! j) ds))"
  have "kcp_link lk (kl_store l ! j) (take n ?data @ drop n ?data) []"
    unfolding assms(3) kcp_demux_eq using assms(2,4,5)
    by (auto simp: kcp_link_def kcp_demuxed_def kcp_conn_of_def kcp_accepted_def KcpConn_init_def kcp_sender_def
        intro!: exI [of _ "[]"])
  from conn_stream.read_loop_delivers [OF kcp_stream [OF assms(1)] this, of "bytearray n" n 0 x eof]
  have "\<exists>c. read_loop (kcp_ops L x) eof n 0 (bytearray n) (kl_store l ! j) = (c, Return (take n ?data))"
    using assms(6) by auto
  moreover have "kl_queue l ! j = j" unfolding assms(3) kcp_demux_eq using assms(4) by (simp add: kcp_demuxed_def)
  ultimately show ?thesis by simp
qed

theorem kcp_accept_delivers_witness:
  "\<exists>c. read_loop (kcp_ops toy_kcp False) ''eof'' 2 0 (bytearray 2)
     (kl_store (fold (kcp_handle_data (u ''h'') 1)
        [([], (u ''a'', 1), [1]), ([], (u ''b'', 1), [7]), ([], (u ''a'', 1), [2, 3])] (kcp_bind (u ''h'') 1)) ! 0) =
     (c, Return [1, 2])"
proof -
  let ?ds = "[([], (u ''a'', 1), [1]), ([], (u ''b'', 1), [7]), ([], (u ''a'', 1), [2, 3])] :: bytes list datagram list"
  have p: "peers ?ds = [(u ''a'', 1), (u ''b'', 1)]" "datagrams_of (u ''a'', 1) ?ds = [([], (u ''a'', 1), [1]), ([], (u ''a'', 1), [2, 3])]"
    by (simp_all add: peers_def datagrams_of_def u_def)
  have ok: "kcp_lib_ok toy_kcp (\<lambda>k out. out = [] \<or> True)" by (simp add: kcp_lib_ok_def toy_kcp_def)
  from kcp_accept_delivers [OF ok _ refl, of 0 ?ds 2 "u ''h''" 1 False "''eof''"] p show ?thesis by simp
qed

text \<open>Silence is reported as end of stream: when 10 seconds pass without data, \<^verbatim>\<open>read\<close> on an open
  connection returns 0, so reading a frame raises ``unexpected EOF'', and the data that arrives
  afterwards is delivered by the next read.\<close>

theorem kcp_silence_is_eof:
  assumes "\<not> kc_closed c" "kc_recv_buf c = []" "kc_recv_queue c = []" "data \<noteq> []" "length data \<le> length buf"
  shows "kcp_read True buf c = (c, Return (buf, 0)) \<and>
    read_frame_from_conn (kcp_ops L True) c =
      (c, Raise (Exn ConnectionError [Txt ''unexpected EOF reading frame length''])) \<and>
    kcp_read x buf (kcp_on_data data c) = (c, Return (data @ drop (length data) buf, length data))"
proof -
  have r: "kcp_read True b c = (c, Return (b, 0))" for b using assms(1-3) by (simp add: kcp_read_def)
  moreover have "read_frame_from_conn (kcp_ops L True) c =
      (c, Raise (Exn ConnectionError [Txt ''unexpected EOF reading frame length'']))"
    by (simp add: read_frame_from_conn_def read_loop.simps r)
  moreover have "kcp_read x buf (kcp_on_data data c) = (c, Return (data @ drop (length data) buf, length data))"
    using assms by (simp add: kcp_read_def kcp_on_data_def fill_buf_eq Let_def min_absorb2)
  ultimately show ?thesis by blast
qed

theorem kcp_silence_is_eof_witness:
  "kcp_read True [0] (KcpConn_init None None None) = (KcpConn_init None None None :: bytes list kcp_conn, Return ([0], 0))"
  using kcp_silence_is_eof [of "KcpConn_init None None None :: bytes list kcp_conn" "[5]" "[0]"]
  by (simp add: KcpConn_init_def)



end
