(* ===== verification/WebSocket.thy ===== *)
theory WebSocket
  imports SecureChannel
begin

text \<open>
  The WebSocket transport: \<^verbatim>\<open>websocket/conn.py\<close>, \<^verbatim>\<open>websocket/dialer.py\<close>,
  \<^verbatim>\<open>websocket/listener.py\<close>. The \<^verbatim>\<open>websockets\<close> library is a parameter: a record of the methods the
  source calls on its connection objects. Messages become a byte stream by keeping what a read did not
  take; the stream contract is proved for every library that delivers messages in order, so the
  handshake and the encrypted connection work over it.
\<close>

section \<open>WsConn\<close>

datatype ws_msg = WsText pystr | WsBinary bytes

record 'w ws_lib =
  lib_recv :: "'w \<Rightarrow> 'w \<times> ws_msg res"
  lib_send :: "bytes \<Rightarrow> 'w \<Rightarrow> 'w \<times> unit res"
  lib_close :: "'w \<Rightarrow> 'w \<times> unit res"
  lib_remote_address :: "'w \<Rightarrow> (pystr \<times> nat) res"

record 'w ws_conn =
  ws_obj :: 'w
  ws_read_buf :: bytes
  ws_closed :: bool
  ws_local :: "addr option"
  ws_remote :: "addr option"

definition WsConn_init :: "'w \<Rightarrow> addr option \<Rightarrow> addr option \<Rightarrow> 'w ws_conn" where
  "WsConn_init w loc rem =
     \<lparr>ws_obj = w, ws_read_buf = [], ws_closed = False, ws_local = loc, ws_remote = rem\<rparr>"

definition ws_bytes :: "ws_msg \<Rightarrow> bytes res" where
  "ws_bytes m = (case m of WsText t \<Rightarrow> utf8_encode t | WsBinary b \<Rightarrow> Return b)"

definition ws_read :: "'w ws_lib \<Rightarrow> bytes \<Rightarrow> 'w ws_conn \<Rightarrow> 'w ws_conn \<times> (bytes \<times> nat) res" where
  "ws_read L buf c =
     (if ws_closed c then (c, Raise connection_closed)
      else if ws_read_buf c \<noteq> [] then
        (let (r, rest) = fill_buf buf (ws_read_buf c) in (c\<lparr>ws_read_buf := rest\<rparr>, Return r))
      else
        (case lib_recv L (ws_obj c) of
           (w, Blocked) \<Rightarrow> (c\<lparr>ws_obj := w\<rparr>, Blocked)
         | (w, Raise e) \<Rightarrow> (c\<lparr>ws_obj := w\<rparr>, if is_exception e then Return (buf, 0) else Raise e)
         | (w, Return m) \<Rightarrow>
             (let c = c\<lparr>ws_obj := w\<rparr> in
              case ws_bytes m of
                Return data \<Rightarrow>
                  if data = [] then (c, Return (buf, 0))
                  else (let (r, rest) = fill_buf buf data in (c\<lparr>ws_read_buf := ws_read_buf c @ rest\<rparr>, Return r))
              | Raise e \<Rightarrow> (c, Raise e)
              | Blocked \<Rightarrow> (c, Blocked))))"

definition ws_write :: "'w ws_lib \<Rightarrow> bytes \<Rightarrow> 'w ws_conn \<Rightarrow> 'w ws_conn \<times> nat res" where
  "ws_write L data c =
     (if ws_closed c then (c, Raise connection_closed)
      else (case lib_send L data (ws_obj c) of
              (w, r) \<Rightarrow> (c\<lparr>ws_obj := w\<rparr>, bind_res r (\<lambda>_. Return (length data)))))"

definition ws_close :: "'w ws_lib \<Rightarrow> 'w ws_conn \<Rightarrow> 'w ws_conn \<times> unit res" where
  "ws_close L c =
     (if \<not> ws_closed c then
        (case lib_close L (ws_obj c) of
           (w, r) \<Rightarrow> (c\<lparr>ws_closed := True, ws_obj := w\<rparr>,
                       case r of Raise e \<Rightarrow> if is_exception e then Return () else Raise e | _ \<Rightarrow> r))
      else (c, Return ()))"

definition ws_ops :: "'w ws_lib \<Rightarrow> 'w ws_conn conn_ops" where
  "ws_ops L = \<lparr>op_read = ws_read L, op_write = ws_write L, op_close = ws_close L,
     op_local_addr = ws_local, op_remote_addr = ws_remote\<rparr>"

lemma ws_ops_sel [simp]:
  "op_read (ws_ops L) = ws_read L" "op_write (ws_ops L) = ws_write L" "op_close (ws_ops L) = ws_close L"
  by (simp_all add: ws_ops_def)

section \<open>WsDialer and WsListener\<close>

definition ws_addr :: "(pystr \<times> nat) \<Rightarrow> addr" where
  "ws_addr a = \<lparr>network = u ''websocket'', address = host_port (fst a) (snd a)\<rparr>"

definition ws_remote_of :: "'w ws_lib \<Rightarrow> 'w \<Rightarrow> addr option" where
  "ws_remote_of L w = (case lib_remote_address L w of Return a \<Rightarrow> Some (ws_addr a) | _ \<Rightarrow> None)"

text \<open>\<open>connect\<close> is \<^verbatim>\<open>websockets.connect\<close>.\<close>

definition ws_dial :: "'w ws_lib \<Rightarrow> (pystr \<Rightarrow> 'w res) \<Rightarrow> pystr \<Rightarrow> 'w ws_conn res" where
  "ws_dial L connect a = bind_res (connect a) (\<lambda>w. Return (WsConn_init w None (ws_remote_of L w)))"

record 'w ws_listener =
  wl_addr :: addr
  wl_queue :: "'w ws_conn list"
  wl_closed :: bool
  wl_server_closed :: bool

text \<open>\<open>bound\<close> is the address of the server's socket.\<close>

definition ws_bind :: "(pystr \<times> nat) \<Rightarrow> 'w ws_listener" where
  "ws_bind bound =
     \<lparr>wl_addr = ws_addr bound, wl_queue = [], wl_closed = False, wl_server_closed = False\<rparr>"

text \<open>The connection handler, with the \<open>host\<close> and \<open>port\<close> that were passed to \<^verbatim>\<open>bind\<close>.\<close>

definition ws_accepted :: "'w ws_lib \<Rightarrow> pystr \<Rightarrow> nat \<Rightarrow> 'w \<Rightarrow> 'w ws_conn" where
  "ws_accepted L host port w = WsConn_init w (Some (ws_addr (host, port))) (ws_remote_of L w)"

definition ws_handler :: "'w ws_lib \<Rightarrow> pystr \<Rightarrow> nat \<Rightarrow> 'w \<Rightarrow> 'w ws_listener \<Rightarrow> 'w ws_listener" where
  "ws_handler L host port w l = l\<lparr>wl_queue := wl_queue l @ [ws_accepted L host port w]\<rparr>"

definition ws_accept :: "'w ws_listener \<Rightarrow> 'w ws_listener \<times> 'w ws_conn res" where
  "ws_accept l = (let (q, r) = queue_get (wl_queue l) in (l\<lparr>wl_queue := q\<rparr>, r))"

definition ws_listener_close :: "unit res \<Rightarrow> 'w ws_listener \<Rightarrow> 'w ws_listener \<times> unit res" where
  "ws_listener_close waited l =
     (if \<not> wl_closed l then (l\<lparr>wl_closed := True, wl_server_closed := True\<rparr>, waited) else (l, Return ()))"

definition ws_listener_addr :: "'w ws_listener \<Rightarrow> addr" where
  "ws_listener_addr l = wl_addr l"

section \<open>The contracts\<close>

text \<open>What the source relies on: messages are received in the order they are in the connection, and a
  sent message is put behind those sent before. \<open>lk w ms out\<close> relates a connection object to the
  messages it will deliver and those it has sent.\<close>

definition ws_lib_ok :: "'w ws_lib \<Rightarrow> ('w \<Rightarrow> ws_msg list \<Rightarrow> bytes list \<Rightarrow> bool) \<Rightarrow> bool" where
  "ws_lib_ok L lk \<longleftrightarrow>
     (\<forall>w m ms out. lk w (m # ms) out \<longrightarrow> (\<exists>w'. lib_recv L w = (w', Return m) \<and> lk w' ms out)) \<and>
     (\<forall>w ms out d. lk w ms out \<longrightarrow> (\<exists>w'. lib_send L d w = (w', Return ()) \<and> lk w' ms (out @ [d])))"

definition ws_link :: "('w \<Rightarrow> ws_msg list \<Rightarrow> bytes list \<Rightarrow> bool) \<Rightarrow> 'w ws_conn \<Rightarrow> bytes \<Rightarrow> bytes \<Rightarrow> bool" where
  "ws_link lk c inb outb \<longleftrightarrow> \<not> ws_closed c \<and>
     (\<exists>ms out datas. lk (ws_obj c) ms out \<and> map ws_bytes ms = map Return datas \<and> [] \<notin> set datas \<and>
        inb = ws_read_buf c @ concat datas \<and> outb = concat out)"

lemma ws_read_some:
  assumes L: "ws_lib_ok L lk" and l: "ws_link lk c inb outb" and ne: "inb \<noteq> []" "buf \<noteq> []"
  shows "\<exists>k c'. 0 < k \<and> k \<le> length buf \<and> k \<le> length inb \<and>
    ws_read L buf c = (c', Return (take k inb @ drop k buf, k)) \<and> ws_link lk c' (drop k inb) outb"
proof -
  obtain ms out datas where c: "\<not> ws_closed c" "lk (ws_obj c) ms out" "map ws_bytes ms = map Return datas"
    "[] \<notin> set datas" "inb = ws_read_buf c @ concat datas" "outb = concat out"
    using l by (auto simp: ws_link_def)
  show ?thesis
  proof (cases "ws_read_buf c = []")
    case False
    obtain k where k: "0 < k" "k \<le> length buf" "k \<le> length (ws_read_buf c)"
      "fill_buf buf (ws_read_buf c) = ((take k (ws_read_buf c) @ drop k buf, k), drop k (ws_read_buf c))"
      by (rule fill_buf_some [OF False ne(2)])
    then have "ws_read L buf c = (c\<lparr>ws_read_buf := drop k (ws_read_buf c)\<rparr>, Return (take k inb @ drop k buf, k))"
      using c(1,5) False by (simp add: ws_read_def)
    moreover have "ws_link lk (c\<lparr>ws_read_buf := drop k (ws_read_buf c)\<rparr>) (drop k inb) outb"
      unfolding ws_link_def using c k(3) by auto
    ultimately show ?thesis using k c(5) by (intro exI [of _ k]) auto
  next
    case True
    with c ne obtain d ds m ms' where d: "datas = d # ds" "ms = m # ms'" "ws_bytes m = Return d" "d \<noteq> []"
      by (cases datas; cases ms) auto
    obtain w where w: "lib_recv L (ws_obj c) = (w, Return m)" "lk w ms' out"
      using L c(2) d(2) unfolding ws_lib_ok_def by blast
    obtain k where k: "0 < k" "k \<le> length buf" "k \<le> length d"
      "fill_buf buf d = ((take k d @ drop k buf, k), drop k d)"
      by (rule fill_buf_some [OF d(4) ne(2)])
    let ?c = "c\<lparr>ws_obj := w, ws_read_buf := drop k d\<rparr>"
    have "ws_read L buf c = (?c, Return (take k inb @ drop k buf, k))"
      using c(1,5) True d w k by (simp add: ws_read_def)
    moreover have "ws_link lk ?c (drop k inb) outb"
      unfolding ws_link_def using c d w(2) k(3) True by auto
    ultimately show ?thesis using k c(5) d True by (intro exI [of _ k]) auto
  qed
qed

lemma ws_stream:
  assumes "ws_lib_ok L lk"
  shows "conn_stream (ws_ops L) (ws_link lk) (\<lambda>_ _. True)"
proof
  fix c :: "'a ws_conn" and inb outb buf :: bytes
  assume "ws_link lk c inb outb" "inb \<noteq> []" "buf \<noteq> []"
  from ws_read_some [OF assms this] show "\<exists>k c'. 0 < k \<and> k \<le> length buf \<and> k \<le> length inb \<and>
      op_read (ws_ops L) buf c = (c', Return (take k inb @ drop k buf, k)) \<and>
      ws_link lk c' (drop k inb) outb \<and> (\<forall>ns :: nat list. True \<longrightarrow> True)" by simp
next
  fix c :: "'a ws_conn" and inb outb data :: bytes and ns :: "nat list"
  assume l: "ws_link lk c inb outb"
  then obtain ms out datas where c: "\<not> ws_closed c" "lk (ws_obj c) ms out" "map ws_bytes ms = map Return datas"
    "[] \<notin> set datas" "inb = ws_read_buf c @ concat datas" "outb = concat out"
    by (auto simp: ws_link_def)
  obtain w where w: "lib_send L data (ws_obj c) = (w, Return ())" "lk w ms (out @ [data])"
    using assms c(2) unfolding ws_lib_ok_def by blast
  have "ws_link lk (c\<lparr>ws_obj := w\<rparr>) inb (outb @ data)"
    unfolding ws_link_def by (intro conjI exI [of _ ms] exI [of _ "out @ [data]"] exI [of _ datas]) (use c w(2) in simp_all)
  with c w show "\<exists>c'. op_write (ws_ops L) data c = (c', Return (length data)) \<and>
      ws_link lk c' inb (outb @ data) \<and> True"
    by (simp add: ws_write_def)
qed

interpretation ws_shut: conn_shut "ws_ops L" "\<lambda>_. True" ws_closed
  by unfold_locales (auto simp: ws_close_def ws_read_def ws_write_def split: prod.split)


interpretation ws_fifo: fifo_listener ws_accept "ws_handler L host port" "ws_accepted L host port" wl_queue
  by unfold_locales (auto simp: ws_accept_def ws_handler_def queue_get_def split: list.split)

lemma ws_pair:
  assumes "ws_lib_ok L lk" "ws_lib_ok L' lk'"
  shows "conn_pair (ws_ops L) (ws_link lk) (\<lambda>_ _. True) (ws_ops L') (ws_link lk') (\<lambda>_ _. True)"
  using ws_stream [OF assms(1)] ws_stream [OF assms(2)] by (simp add: conn_pair_def)

text \<open>A library for the witnesses: a queue of messages and a list of what was sent.\<close>

definition toy_ws :: "(ws_msg list \<times> bytes list) ws_lib" where
  "toy_ws = \<lparr>lib_recv = (\<lambda>(q, out). case q of [] \<Rightarrow> ((q, out), Blocked) | m # q \<Rightarrow> ((q, out), Return m)),
     lib_send = (\<lambda>d (q, out). ((q, out @ [d]), Return ())),
     lib_close = (\<lambda>w. (w, Return ())), lib_remote_address = (\<lambda>w. Return (u ''::1'', 7))\<rparr>"

lemma toy_ws_ok: "ws_lib_ok toy_ws (\<lambda>w ms out. w = (ms, out))"
  by (simp add: ws_lib_ok_def toy_ws_def)

section \<open>Properties\<close>

text \<open>The whole encrypted session works over WebSocket, whatever messages the bytes are cut into: two
  honest ends complete the handshake with matching keys, and what the initiator writes is exactly what the
  responder reads.\<close>

theorem session_over_websocket:
  assumes "ws_lib_ok L lk" "ws_lib_ok L' lk'" "env_ok E" "aead_ok A"
    and "identity_generate E gi = Return i" "identity_generate E gr = Return r"
    and "\<forall>m \<in> set ms. length m + 29 \<le> MAX_MESSAGE_SIZE" "length ms \<le> 2 ^ 64"
  shows "\<exists>hello reply. length hello = 8798 \<and> length reply = 8798 \<and>
    (\<forall>si oi. ws_link lk si reply oi \<longrightarrow>
      (\<exists>s1 ci s2 ci' frames.
        handshake_initiator E (ws_ops L) kci sci i (fingerprint E r) None si = (s1, Return ci) \<and>
        run_calls (secure_ops A now (ws_ops L)) (map CallWrite ms) ci =
          (ci', map (\<lambda>m. Return ([], length m)) ms) \<and>
        inner_conn ci' = Some s2 \<and> ws_link lk s2 [] (oi @ hello @ frames) \<and>
        (\<forall>sr orr. ws_link lk' sr (hello @ frames) orr \<longrightarrow>
          (\<exists>s3 cr cr'.
            handshake_responder E (ws_ops L') kcr scr r (fingerprint E i) None sr = (s3, Return cr) \<and>
            ws_link lk' s3 frames (orr @ reply) \<and> keys_match ci cr \<and>
            read_loop (secure_ops A now' (ws_ops L')) eof (length (concat ms)) 0
              (bytearray (length (concat ms))) cr = (cr', Return (concat ms))))))"
  using conn_pair.session_delivers [OF ws_pair [OF assms(1,2)] assms(3-8), of kci sci now kcr scr now' eof] by simp

theorem session_over_websocket_witness:
  "\<exists>reply s1 ci. length reply = 8798 \<and>
     handshake_initiator toy_env (ws_ops toy_ws) 0 0 toy_id (fingerprint toy_env toy_id) None
       (WsConn_init ([WsBinary reply], []) None None) = (s1, Return ci)"
proof -
  have "\<forall>m \<in> set [[1, 2], [], [3 :: byte]]. length m + 29 \<le> MAX_MESSAGE_SIZE"
    by (simp add: MAX_MESSAGE_SIZE_def)
  from session_over_websocket [OF toy_ws_ok toy_ws_ok toy_env_ok toy_aead_ok toy_id_generated toy_id_generated this]
  obtain hello reply where r: "length reply = 8798" and
    h: "\<And>si oi. ws_link (\<lambda>w ms out. w = (ms, out)) si reply oi \<Longrightarrow> (\<exists>s1 ci.
      handshake_initiator toy_env (ws_ops toy_ws) 0 0 toy_id (fingerprint toy_env toy_id) None si = (s1, Return ci))"
    by fastforce
  have "ws_link (\<lambda>w ms out. w = (ms, out)) (WsConn_init ([WsBinary reply], []) None None) reply []"
    unfolding ws_link_def WsConn_init_def
    by (intro conjI exI [of _ "[WsBinary reply]"] exI [of _ "[]"] exI [of _ "[reply]"])
      (use r in \<open>auto simp: ws_bytes_def\<close>)
  with r h show ?thesis by blast
qed

text \<open>Writing no bytes is not neutral on a WebSocket: the call returns 0 but sends an empty message, and
  the read that receives it returns 0, which the interface defines as end of stream, although the bytes
  that follow are still delivered.\<close>

theorem ws_empty_write_is_eof:
  assumes "ws_lib_ok L lk" "ws_lib_ok L' lk'"
    and "\<not> ws_closed a" "lk (ws_obj a) ms out"
    and "\<not> ws_closed b" "ws_read_buf b = []" "lk' (ws_obj b) (WsBinary [] # WsBinary data # ms') out'"
    and "data \<noteq> []" "length data \<le> length buf"
  shows "\<exists>a' b' b''. ws_write L [] a = (a', Return 0) \<and> lk (ws_obj a') ms (out @ [[]]) \<and>
    ws_read L' buf b = (b', Return (buf, 0)) \<and>
    ws_read L' buf b' = (b'', Return (data @ drop (length data) buf, length data))"
proof -
  obtain w where "lib_send L [] (ws_obj a) = (w, Return ())" "lk w ms (out @ [[]])"
    using assms(1,4) unfolding ws_lib_ok_def by blast
  then have a: "ws_write L [] a = (a\<lparr>ws_obj := w\<rparr>, Return 0)" "lk (ws_obj (a\<lparr>ws_obj := w\<rparr>)) ms (out @ [[]])"
    using assms(3) by (simp_all add: ws_write_def)
  obtain v where v: "lib_recv L' (ws_obj b) = (v, Return (WsBinary []))" "lk' v (WsBinary data # ms') out'"
    using assms(2,7) unfolding ws_lib_ok_def by blast
  obtain v' where v': "lib_recv L' v = (v', Return (WsBinary data))"
    using assms(2) v(2) unfolding ws_lib_ok_def by blast
  have "ws_read L' buf b = (b\<lparr>ws_obj := v\<rparr>, Return (buf, 0))"
    using assms(5,6) v(1) by (simp add: ws_read_def ws_bytes_def)
  moreover have "ws_read L' buf (b\<lparr>ws_obj := v\<rparr>) =
      (b\<lparr>ws_obj := v', ws_read_buf := []\<rparr>, Return (data @ drop (length data) buf, length data))"
    using assms(5,6,8,9) v' by (simp add: ws_read_def ws_bytes_def fill_buf_eq Let_def min_absorb2)
  ultimately show ?thesis using a by blast
qed

theorem ws_empty_write_is_eof_witness:
  "\<exists>b'. ws_read toy_ws [0] (WsConn_init ([WsBinary [], WsBinary [5]], []) None None) = (b', Return ([0], 0))"
proof -
  let ?a = "WsConn_init ([], []) None None :: (ws_msg list \<times> bytes list) ws_conn"
  let ?b = "WsConn_init ([WsBinary [], WsBinary [5]], []) None None :: (ws_msg list \<times> bytes list) ws_conn"
  have "\<not> ws_closed ?a" "ws_obj ?a = ([], [])" "\<not> ws_closed ?b" "ws_read_buf ?b = []"
    "ws_obj ?b = ([WsBinary [], WsBinary [5]], [])" "[5] \<noteq> ([] :: bytes)" "length [5 :: byte] \<le> length [0 :: byte]"
    by (simp_all add: WsConn_init_def)
  from ws_empty_write_is_eof [OF toy_ws_ok toy_ws_ok this] show ?thesis by blast
qed

end
