(* ===== verification/Quic.thy ===== *)
theory Quic
  imports SecureChannel
begin

text \<open>
  The QUIC transport: \<^verbatim>\<open>quic/conn.py\<close>, \<^verbatim>\<open>quic/dialer.py\<close>, \<^verbatim>\<open>quic/listener.py\<close>. A connection is the
  asyncio stream pair of one QUIC stream; \<^verbatim>\<open>aioquic\<close> and the name resolution are parameters. To its
  user a QUIC connection is the same thing as a TCP connection, which is how it gets the stream contract.
\<close>

section \<open>QuicConn\<close>

text \<open>Of the protocol object only \<open>close\<close> is called: \<open>Some True\<close> once that happened.\<close>

record quic_conn =
  q_reader :: stream_reader
  q_writer :: stream_writer
  q_protocol :: "bool option"
  q_local :: "pystr option"
  q_remote :: "pystr option"
  q_closed :: bool

definition QuicConn_init ::
  "stream_reader \<Rightarrow> stream_writer \<Rightarrow> bool option \<Rightarrow> pystr option \<Rightarrow> pystr option \<Rightarrow> quic_conn" where
  "QuicConn_init r w p loc rem =
     \<lparr>q_reader = r, q_writer = w, q_protocol = p, q_local = loc, q_remote = rem, q_closed = False\<rparr>"

definition quic_read :: "bytes \<Rightarrow> quic_conn \<Rightarrow> quic_conn \<times> (bytes \<times> nat) res" where
  "quic_read buf c =
     (if q_closed c then (c, Raise connection_closed)
      else (let (r, x) = stream_read_into buf (q_reader c) in (c\<lparr>q_reader := r\<rparr>, x)))"

definition quic_write :: "bytes \<Rightarrow> quic_conn \<Rightarrow> quic_conn \<times> nat res" where
  "quic_write data c =
     (if q_closed c then (c, Raise connection_closed)
      else (let c = c\<lparr>q_writer := sw_write data (q_writer c)\<rparr>
            in (c, bind_res (sw_drain (q_writer c)) (\<lambda>_. Return (length data)))))"

definition quic_close :: "quic_conn \<Rightarrow> quic_conn \<times> unit res" where
  "quic_close c =
     (if \<not> q_closed c
      then (c\<lparr>q_closed := True, q_writer := sw_close (q_writer c), q_protocol := map_option (\<lambda>_. True) (q_protocol c)\<rparr>,
            Return ())
      else (c, Return ()))"

definition quic_addr :: "pystr option \<Rightarrow> addr option" where
  "quic_addr a =
     (case a of
        Some s \<Rightarrow> if s \<noteq> [] then Some \<lparr>network = u ''quic'', address = s\<rparr> else None
      | None \<Rightarrow> None)"

definition quic_ops :: "quic_conn conn_ops" where
  "quic_ops = \<lparr>op_read = quic_read, op_write = quic_write, op_close = quic_close,
     op_local_addr = (\<lambda>c. quic_addr (q_local c)), op_remote_addr = (\<lambda>c. quic_addr (q_remote c))\<rparr>"

lemma quic_ops_sel [simp]:
  "op_read quic_ops = quic_read" "op_write quic_ops = quic_write" "op_close quic_ops = quic_close"
  by (simp_all add: quic_ops_def)

section \<open>QuicDialer\<close>

datatype sockaddr = Addr2 pystr nat | Addr4 pystr nat nat nat
datatype quic_verify = VerifyDefault | VerifyOff

record quic_config =
  qc_is_client :: bool
  qc_alpn :: "pystr list"
  qc_server_name :: "pystr option"
  qc_verify :: quic_verify

text \<open>\<open>alpn_protocols or ["uniconn"]\<close>\<close>

definition quic_alpn :: "pystr list option \<Rightarrow> pystr list" where
  "quic_alpn a = (case a of Some (p # ps) \<Rightarrow> p # ps | _ \<Rightarrow> [u ''uniconn''])"

definition quic_client_config :: "pystr list option \<Rightarrow> bool \<Rightarrow> pystr \<Rightarrow> quic_config" where
  "quic_client_config alpn vm host =
     \<lparr>qc_is_client = True, qc_alpn = quic_alpn alpn, qc_server_name = Some host,
      qc_verify = (if vm then VerifyDefault else VerifyOff)\<rparr>"

text \<open>\<open>infos[0][4]\<close>, mapped to an IPv6 address.\<close>

definition quic_target :: "sockaddr list \<Rightarrow> sockaddr res" where
  "quic_target infos =
     (case infos of
        [] \<Rightarrow> Raise (Exn IndexError [Txt ''list index out of range''])
      | Addr2 h p # _ \<Rightarrow> Return (Addr4 (u ''::ffff:'' @ h) p 0 0)
      | Addr4 h p f s # _ \<Rightarrow> Return (Addr4 h p f s))"

text \<open>The network: name resolution, and a connected endpoint with its first stream and what
  \<^verbatim>\<open>get_extra_info("sockname")\<close> gives.\<close>

record quic_net =
  net_getaddrinfo :: "pystr \<Rightarrow> int \<Rightarrow> sockaddr list res"
  net_open_stream ::
    "quic_config \<Rightarrow> sockaddr \<Rightarrow> (stream_reader \<times> stream_writer \<times> (pystr \<times> nat) option res) res"

definition quic_local_of :: "(pystr \<times> nat) option res \<Rightarrow> pystr option" where
  "quic_local_of sn = (case sn of Return (Some (h, p)) \<Rightarrow> Some (host_port h p) | _ \<Rightarrow> None)"

definition quic_dial :: "quic_net \<Rightarrow> pystr list option \<Rightarrow> bool \<Rightarrow> pystr \<Rightarrow> quic_conn res" where
  "quic_dial N alpn vm a =
     bind_res (split_address a) (\<lambda>(host, port).
     bind_res (net_getaddrinfo N host port) (\<lambda>infos.
     bind_res (quic_target infos) (\<lambda>target.
     bind_res (net_open_stream N (quic_client_config alpn vm host) target) (\<lambda>(r, w, sn).
       Return (QuicConn_init r w (Some False) (quic_local_of sn) (Some a))))))"

section \<open>QuicListener\<close>

text \<open>\<open>ql_addr\<close> is \<open>None\<close> while the attribute is not set.\<close>

record quic_listener =
  ql_addr :: "addr option"
  ql_queue :: "quic_conn list"
  ql_closed :: bool
  ql_server_closed :: bool

definition quic_server_config :: "pystr list option \<Rightarrow> quic_config" where
  "quic_server_config alpn =
     \<lparr>qc_is_client = False, qc_alpn = quic_alpn alpn, qc_server_name = None, qc_verify = VerifyDefault\<rparr>"

definition quic_net_addr :: "pystr \<times> nat \<Rightarrow> addr" where
  "quic_net_addr b = \<lparr>network = u ''quic'', address = host_port (fst b) (snd b)\<rparr>"

text \<open>\<open>bound\<close> is what \<^verbatim>\<open>get_extra_info("sockname")\<close> gives.\<close>

definition quic_bind :: "pystr \<Rightarrow> nat \<Rightarrow> (pystr \<times> nat) option res \<Rightarrow> quic_listener" where
  "quic_bind host port bound =
     \<lparr>ql_addr = (case bound of
          Return (Some b) \<Rightarrow> Some (quic_net_addr b)
        | Return None \<Rightarrow> None
        | _ \<Rightarrow> Some (quic_net_addr (host, port))),
      ql_queue = [], ql_closed = False, ql_server_closed = False\<rparr>"

text \<open>\<open>s.split(":")[-1]\<close>\<close>

definition after_last_colon :: "pystr \<Rightarrow> pystr" where
  "after_last_colon s = rev (takeWhile (\<lambda>c. c \<noteq> 58) (rev s))"

text \<open>The handler of a new stream; \<open>proto\<close> tells whether the writer's transport gives a protocol
  object. Any exception on the way leaves all three fields unset.\<close>

definition quic_on_stream :: "pystr \<Rightarrow> stream_reader \<Rightarrow> stream_writer \<Rightarrow> bool \<Rightarrow> quic_listener \<Rightarrow> quic_listener" where
  "quic_on_stream host r w proto l =
     (let c = (case ql_addr l of
                 Some a \<Rightarrow>
                   if proto
                   then QuicConn_init r w (Some False)
                          (Some (host @ [58] @ after_last_colon (address a)))
                          (map_option (\<lambda>(h, p). host_port h p) (peername w))
                   else QuicConn_init r w None None None
               | None \<Rightarrow> QuicConn_init r w None None None)
      in l\<lparr>ql_queue := ql_queue l @ [c]\<rparr>)"

definition quic_accept :: "quic_listener \<Rightarrow> quic_listener \<times> quic_conn res" where
  "quic_accept l = (let (q, r) = queue_get (ql_queue l) in (l\<lparr>ql_queue := q\<rparr>, r))"

definition quic_listener_close :: "quic_listener \<Rightarrow> quic_listener \<times> unit res" where
  "quic_listener_close l =
     (if \<not> ql_closed l then (l\<lparr>ql_closed := True, ql_server_closed := True\<rparr>, Return ()) else (l, Return ()))"

definition quic_listener_addr :: "quic_listener \<Rightarrow> addr res" where
  "quic_listener_addr l =
     (case ql_addr l of Some a \<Rightarrow> Return a | None \<Rightarrow> Raise (Exn AttributeError [Txt ''_addr'']))"

section \<open>A QUIC connection behaves like a TCP connection\<close>

definition as_tcp :: "quic_conn \<Rightarrow> tcp_conn" where
  "as_tcp c = \<lparr>tcp_reader = q_reader c, tcp_writer = q_writer c, tcp_closed = q_closed c\<rparr>"

lemma quic_as_tcp:
  "tcp_read buf (as_tcp c) = map_prod as_tcp id (quic_read buf c)"
  "tcp_write data (as_tcp c) = map_prod as_tcp id (quic_write data c)"
  "tcp_close (as_tcp c) = map_prod as_tcp id (quic_close c)"
  by (auto simp: as_tcp_def quic_read_def tcp_read_def quic_write_def tcp_write_def quic_close_def tcp_close_def
      Let_def split: prod.split)

lemma quic_calls_as_tcp: "run_calls tcp_ops cs (as_tcp c) = map_prod as_tcp id (run_calls quic_ops cs c)"
proof (induction cs arbitrary: c)
  case (Cons x cs)
  then show ?case by (cases x) (simp_all add: quic_as_tcp split_beta)
qed simp

definition quic_link :: "quic_conn \<Rightarrow> bytes \<Rightarrow> bytes \<Rightarrow> bool" where
  "quic_link c inb outb \<longleftrightarrow> tcp_link (as_tcp c) inb outb"

interpretation quic: conn_stream quic_ops quic_link "\<lambda>_ _. True"
proof
  fix c :: quic_conn and inb outb buf :: bytes
  assume "quic_link c inb outb" "inb \<noteq> []" "buf \<noteq> []"
  then obtain k s where "0 < k" "k \<le> length buf" "k \<le> length inb"
    "op_read tcp_ops buf (as_tcp c) = (s, Return (take k inb @ drop k buf, k))" "tcp_link s (drop k inb) outb"
    using tcp.read_some [of "as_tcp c" inb outb buf] unfolding quic_link_def by blast
  then show "\<exists>k c'. 0 < k \<and> k \<le> length buf \<and> k \<le> length inb \<and>
      op_read quic_ops buf c = (c', Return (take k inb @ drop k buf, k)) \<and>
      quic_link c' (drop k inb) outb \<and> (\<forall>ns :: nat list. True \<longrightarrow> True)"
    by (cases "quic_read buf c") (auto simp: quic_as_tcp quic_link_def)
next
  fix c :: quic_conn and inb outb data :: bytes and ns :: "nat list"
  assume "quic_link c inb outb"
  then obtain s where "op_write tcp_ops data (as_tcp c) = (s, Return (length data))" "tcp_link s inb (outb @ data)"
    using tcp.write_all [of "as_tcp c" inb outb data] unfolding quic_link_def by blast
  then show "\<exists>c'. op_write quic_ops data c = (c', Return (length data)) \<and> quic_link c' inb (outb @ data) \<and> True"
    by (cases "quic_write data c") (auto simp: quic_as_tcp quic_link_def)
qed

interpretation quic_shut: conn_shut quic_ops "\<lambda>_. True" q_closed
  by unfold_locales (auto simp: quic_close_def quic_read_def quic_write_def)

section \<open>Properties\<close>


text \<open>The dialer reaches exactly the first address that the resolver gave, as IPv6 (an IPv4 address in
  its mapped form), with the host as server name, the given or default protocol list and verification on
  unless switched off; an address without a port, a resolver error and an empty answer are errors.\<close>

theorem quic_dial_target:
  "quic_dial N alpn vm a = Return c \<longleftrightarrow>
     (\<exists>host port info infos target r w sn. split_address a = Return (host, port) \<and>
        net_getaddrinfo N host port = Return (info # infos) \<and>
        (case info of Addr2 h p \<Rightarrow> target = Addr4 (u ''::ffff:'' @ h) p 0 0 | Addr4 h p f s \<Rightarrow> target = info) \<and>
        net_open_stream N \<lparr>qc_is_client = True, qc_alpn = quic_alpn alpn, qc_server_name = Some host,
          qc_verify = (if vm then VerifyDefault else VerifyOff)\<rparr> target = Return (r, w, sn) \<and>
        c = QuicConn_init r w (Some False) (quic_local_of sn) (Some a))"
  (is "?L = ?R")
proof
  assume ?L
  then obtain host port infos target r w sn where s: "split_address a = Return (host, port)"
    "net_getaddrinfo N host port = Return infos" "quic_target infos = Return target"
    "net_open_stream N (quic_client_config alpn vm host) target = Return (r, w, sn)"
    "c = QuicConn_init r w (Some False) (quic_local_of sn) (Some a)"
    by (auto simp: quic_dial_def res_simps split: prod.splits)
  moreover from s(3) obtain info rest where "infos = info # rest"
    "case info of Addr2 h p \<Rightarrow> target = Addr4 (u ''::ffff:'' @ h) p 0 0 | Addr4 h p f s \<Rightarrow> target = info"
    by (auto simp: quic_target_def split: list.splits sockaddr.splits)
  ultimately show ?R unfolding quic_client_config_def by blast
next
  assume ?R
  then show ?L
    by (auto simp: quic_dial_def quic_client_config_def quic_target_def split: sockaddr.splits)
qed

end
