(* ===== verification/WebTransport.thy ===== *)
theory WebTransport
  imports Quic
begin

text \<open>
  The WebTransport transport: \<^verbatim>\<open>webtransport/conn.py\<close>, \<^verbatim>\<open>webtransport/dialer.py\<close>,
  \<^verbatim>\<open>webtransport/listener.py\<close>. \<^verbatim>\<open>aioquic\<close> is a parameter: a record of the calls the source makes on
  the QUIC connection and the HTTP/3 layer above it, whose common state is \<open>'q\<close>. The two protocol
  classes react to events of the library; connections live inside the protocol object that feeds them,
  and the listener's queue refers to them by protocol and stream number.
\<close>

section \<open>WebTransportConn\<close>

record wt_conn =
  wt_stream_id :: nat
  wt_session_id :: nat
  wt_remote :: "(pystr \<times> nat) option"
  wt_closed :: bool
  wt_buf :: bytes
  wt_data_event :: bool
  wt_eof :: bool

definition WebTransportConn_init :: "nat \<Rightarrow> nat \<Rightarrow> (pystr \<times> nat) option \<Rightarrow> wt_conn" where
  "WebTransportConn_init sid sess rem =
     \<lparr>wt_stream_id = sid, wt_session_id = sess, wt_remote = rem, wt_closed = False, wt_buf = [],
      wt_data_event = False, wt_eof = False\<rparr>"

definition feed_data :: "bytes \<Rightarrow> bool \<Rightarrow> wt_conn \<Rightarrow> wt_conn" where
  "feed_data data ended c =
     c\<lparr>wt_buf := wt_buf c @ data, wt_eof := wt_eof c \<or> ended, wt_data_event := True\<rparr>"

text \<open>The loop clears the event and waits until \<^verbatim>\<open>feed_data\<close> sets it again.\<close>

definition wt_read :: "bytes \<Rightarrow> wt_conn \<Rightarrow> wt_conn \<times> (bytes \<times> nat) res" where
  "wt_read buf c =
     (if wt_closed c then (c, Raise connection_closed)
      else if wt_buf c = [] \<and> \<not> wt_eof c then (c\<lparr>wt_data_event := False\<rparr>, Blocked)
      else if wt_buf c = [] then (c, Return (buf, 0))
      else (let (r, rest) = fill_buf buf (wt_buf c) in (c\<lparr>wt_buf := rest\<rparr>, Return r)))"

type_synonym headers = "(bytes \<times> bytes) list"

datatype quic_event = HandshakeCompleted | StreamDataReceived nat bytes bool | OtherQuicEvent
datatype h3_event =
    HeadersReceived nat headers | WebTransportStreamDataReceived nat nat bytes bool | OtherH3Event

record 'q wt_lib =
  h3_new :: "'q \<Rightarrow> 'q"
  h3_handle_event :: "nat \<Rightarrow> bytes \<Rightarrow> bool \<Rightarrow> 'q \<Rightarrow> 'q \<times> h3_event list"
  h3_send_headers :: "nat \<Rightarrow> headers \<Rightarrow> 'q \<Rightarrow> 'q"
  h3_create_webtransport_stream :: "nat \<Rightarrow> 'q \<Rightarrow> 'q \<times> nat"
  quic_send_stream_data :: "nat \<Rightarrow> bytes \<Rightarrow> bool \<Rightarrow> 'q \<Rightarrow> 'q \<times> unit res"
  quic_transmit :: "'q \<Rightarrow> 'q"
  quic_next_stream_id :: "'q \<Rightarrow> nat"
  quic_peer :: "'q \<Rightarrow> (pystr \<times> nat) res"

text \<open>\<^verbatim>\<open>write\<close> and \<^verbatim>\<open>close\<close> act on the connection and the library below it.\<close>

definition wt_write :: "'q wt_lib \<Rightarrow> bytes \<Rightarrow> 'q \<times> wt_conn \<Rightarrow> ('q \<times> wt_conn) \<times> nat res" where
  "wt_write L data = (\<lambda>(q, c).
     if wt_closed c then ((q, c), Raise connection_closed)
     else (case quic_send_stream_data L (wt_stream_id c) data False q of
             (q, Return _) \<Rightarrow> ((quic_transmit L q, c), Return (length data))
           | (q, Raise e) \<Rightarrow> ((q, c), Raise e)
           | (q, Blocked) \<Rightarrow> ((q, c), Blocked)))"

definition wt_close :: "'q wt_lib \<Rightarrow> 'q \<times> wt_conn \<Rightarrow> ('q \<times> wt_conn) \<times> unit res" where
  "wt_close L = (\<lambda>(q, c).
     if wt_closed c then ((q, c), Return ())
     else (let c = c\<lparr>wt_closed := True\<rparr> in
           case quic_send_stream_data L (wt_stream_id c) [] True q of
             (q, Raise e) \<Rightarrow> ((q, c), if is_exception e then Return () else Raise e)
           | (q, _) \<Rightarrow> ((quic_transmit L q, c), Return ())))"

definition wt_local_addr :: "wt_conn \<Rightarrow> addr option" where
  "wt_local_addr c = Some \<lparr>network = u ''webtransport'', address = u ''local''\<rparr>"

definition wt_remote_addr :: "wt_conn \<Rightarrow> addr option" where
  "wt_remote_addr c = Some \<lparr>network = u ''webtransport'',
     address = (case wt_remote c of Some (h, p) \<Rightarrow> host_port h p | None \<Rightarrow> u ''unknown'')\<rparr>"

definition wt_ops :: "'q wt_lib \<Rightarrow> ('q \<times> wt_conn) conn_ops" where
  "wt_ops L = \<lparr>op_read = (\<lambda>buf (q, c). case wt_read buf c of (c', r) \<Rightarrow> ((q, c'), r)),
     op_write = wt_write L, op_close = wt_close L,
     op_local_addr = (\<lambda>(q, c). wt_local_addr c), op_remote_addr = (\<lambda>(q, c). wt_remote_addr c)\<rparr>"

lemma wt_ops_sel [simp]:
  "op_read (wt_ops L) buf (q, c) = (case wt_read buf c of (c', r) \<Rightarrow> ((q, c'), r))"
  "op_write (wt_ops L) = wt_write L" "op_close (wt_ops L) = wt_close L"
  by (simp_all add: wt_ops_def)

section \<open>The server protocol\<close>

definition hdr :: "string \<Rightarrow> bytes" where
  "hdr s = map of_char s"

text \<open>\<open>dict(headers).get(name, b"")\<close>: the last header of a name counts.\<close>

definition header_of :: "string \<Rightarrow> headers \<Rightarrow> bytes" where
  "header_of name hs = (case map_of (rev hs) (hdr name) of Some v \<Rightarrow> v | None \<Rightarrow> [])"

record 'q wt_server =
  sp_quic :: 'q
  sp_h3 :: bool
  sp_conns :: "(nat \<times> wt_conn) list"
  sp_sessions :: "nat set"

definition wt_server_new :: "'q \<Rightarrow> 'q wt_server" where
  "wt_server_new q = \<lparr>sp_quic = q, sp_h3 = False, sp_conns = [], sp_sessions = {}\<rparr>"

definition feed_stream :: "nat \<Rightarrow> bytes \<Rightarrow> bool \<Rightarrow> (nat \<times> wt_conn) list \<Rightarrow> (nat \<times> wt_conn) list" where
  "feed_stream sid data ended cs = map (\<lambda>(i, c). (i, if i = sid then feed_data data ended c else c)) cs"

text \<open>The answer lists the streams whose connections are put into the listener's queue.\<close>

fun wt_server_h3_event :: "'q wt_lib \<Rightarrow> h3_event \<Rightarrow> 'q wt_server \<Rightarrow> 'q wt_server \<times> nat list" where
  "wt_server_h3_event L (HeadersReceived sid hs) p =
     (if header_of '':method'' hs = hdr ''CONNECT'' \<and> header_of '':protocol'' hs = hdr ''webtransport''
      then (p\<lparr>sp_sessions := insert sid (sp_sessions p),
              sp_quic := quic_transmit L (h3_send_headers L sid [(hdr '':status'', hdr ''200'')] (sp_quic p))\<rparr>, [])
      else (p, []))"
| "wt_server_h3_event L (WebTransportStreamDataReceived sid sess data ended) p =
     (let (p, new) =
        (if map_of (sp_conns p) sid = None
         then (let rem = (case quic_peer L (sp_quic p) of Return a \<Rightarrow> Some a | _ \<Rightarrow> None)
               in (p\<lparr>sp_conns := sp_conns p @ [(sid, WebTransportConn_init sid sess rem)]\<rparr>, [sid]))
         else (p, []))
      in (p\<lparr>sp_conns := feed_stream sid data ended (sp_conns p)\<rparr>, new))"
| "wt_server_h3_event L OtherH3Event p = (p, [])"

fun wt_server_h3_events :: "'q wt_lib \<Rightarrow> h3_event list \<Rightarrow> 'q wt_server \<Rightarrow> 'q wt_server \<times> nat list" where
  "wt_server_h3_events L [] p = (p, [])"
| "wt_server_h3_events L (e # es) p =
     (let (p, new) = wt_server_h3_event L e p; (p, news) = wt_server_h3_events L es p in (p, new @ news))"

definition wt_server_event :: "'q wt_lib \<Rightarrow> quic_event \<Rightarrow> 'q wt_server \<Rightarrow> 'q wt_server \<times> nat list" where
  "wt_server_event L ev p =
     (let p = (if ev = HandshakeCompleted then p\<lparr>sp_quic := h3_new L (sp_quic p), sp_h3 := True\<rparr> else p) in
      if \<not> sp_h3 p then (p, [])
      else case ev of
             StreamDataReceived sid data ended \<Rightarrow>
               if map_of (sp_conns p) sid \<noteq> None
               then (p\<lparr>sp_conns := feed_stream sid data ended (sp_conns p)\<rparr>, [])
               else (case h3_handle_event L sid data ended (sp_quic p) of
                       (q, es) \<Rightarrow> wt_server_h3_events L es (p\<lparr>sp_quic := q\<rparr>))
           | _ \<Rightarrow> (p, []))"

section \<open>WebTransportListener\<close>

record 'q wt_listener =
  wtl_addr :: addr
  wtl_queue :: "(nat \<times> nat) list"
  wtl_closed :: bool
  wtl_server_closed :: bool
  wtl_protocols :: "'q wt_server list"

definition wt_net_addr :: "pystr \<times> nat \<Rightarrow> addr" where
  "wt_net_addr b = \<lparr>network = u ''webtransport'', address = host_port (fst b) (snd b)\<rparr>"

definition wt_bind :: "pystr \<Rightarrow> nat \<Rightarrow> (pystr \<times> nat) option res \<Rightarrow> 'q wt_listener" where
  "wt_bind host port bound =
     \<lparr>wtl_addr = (case bound of
          Return (Some b) \<Rightarrow> wt_net_addr b
        | Return None \<Rightarrow> \<lparr>network = u ''webtransport'', address = u ''unknown''\<rparr>
        | _ \<Rightarrow> wt_net_addr (host, port)),
      wtl_queue = [], wtl_closed = False, wtl_server_closed = False, wtl_protocols = []\<rparr>"

definition wt_create_protocol :: "'q \<Rightarrow> 'q wt_listener \<Rightarrow> 'q wt_listener" where
  "wt_create_protocol q l = l\<lparr>wtl_protocols := wtl_protocols l @ [wt_server_new q]\<rparr>"

definition wt_listener_event :: "'q wt_lib \<Rightarrow> nat \<Rightarrow> quic_event \<Rightarrow> 'q wt_listener \<Rightarrow> 'q wt_listener" where
  "wt_listener_event L i ev l =
     (let (p, new) = wt_server_event L ev (wtl_protocols l ! i)
      in l\<lparr>wtl_protocols := (wtl_protocols l)[i := p], wtl_queue := wtl_queue l @ map (Pair i) new\<rparr>)"

definition wt_accept :: "'q wt_listener \<Rightarrow> 'q wt_listener \<times> (nat \<times> nat) res" where
  "wt_accept l = (let (q, r) = queue_get (wtl_queue l) in (l\<lparr>wtl_queue := q\<rparr>, r))"

definition wt_listener_close :: "'q wt_listener \<Rightarrow> 'q wt_listener \<times> unit res" where
  "wt_listener_close l =
     (if \<not> wtl_closed l then (l\<lparr>wtl_closed := True, wtl_server_closed := True\<rparr>, Return ()) else (l, Return ()))"

definition wt_listener_addr :: "'q wt_listener \<Rightarrow> addr" where
  "wt_listener_addr l = wtl_addr l"

section \<open>The client protocol\<close>

record 'q wt_client =
  cp_quic :: 'q
  cp_h3 :: bool
  cp_conn :: "wt_conn option"
  cp_ready :: bool
  cp_session :: "nat option"
  cp_stream :: "nat option"

definition wt_client_new :: "'q \<Rightarrow> 'q wt_client" where
  "wt_client_new q = \<lparr>cp_quic = q, cp_h3 = False, cp_conn = None, cp_ready = False, cp_session = None, cp_stream = None\<rparr>"

fun wt_client_h3_event :: "h3_event \<Rightarrow> 'q wt_client \<Rightarrow> 'q wt_client" where
  "wt_client_h3_event (HeadersReceived sid hs) p =
     (if header_of '':status'' hs = hdr ''200'' then p\<lparr>cp_session := Some sid, cp_ready := True\<rparr> else p)"
| "wt_client_h3_event (WebTransportStreamDataReceived sid sess data ended) p =
     (case cp_conn p of
        Some c \<Rightarrow> if sid = wt_stream_id c then p\<lparr>cp_conn := Some (feed_data data ended c)\<rparr> else p
      | None \<Rightarrow> p)"
| "wt_client_h3_event OtherH3Event p = p"

definition wt_client_event :: "'q wt_lib \<Rightarrow> quic_event \<Rightarrow> 'q wt_client \<Rightarrow> 'q wt_client" where
  "wt_client_event L ev p =
     (let p = (if ev = HandshakeCompleted then p\<lparr>cp_quic := h3_new L (cp_quic p), cp_h3 := True\<rparr> else p) in
      if \<not> cp_h3 p then p
      else case ev of
             StreamDataReceived sid data ended \<Rightarrow>
               (case (cp_conn p, cp_stream p) of
                  (Some c, Some ws) \<Rightarrow>
                    if sid = ws then p\<lparr>cp_conn := Some (feed_data data ended c)\<rparr>
                    else (case h3_handle_event L sid data ended (cp_quic p) of
                            (q, es) \<Rightarrow> fold wt_client_h3_event es (p\<lparr>cp_quic := q\<rparr>))
                | _ \<Rightarrow> (case h3_handle_event L sid data ended (cp_quic p) of
                          (q, es) \<Rightarrow> fold wt_client_h3_event es (p\<lparr>cp_quic := q\<rparr>)))
           | _ \<Rightarrow> p)"

section \<open>WebTransportDialer\<close>

text \<open>What \<^verbatim>\<open>urlparse\<close> gives for the address.\<close>

record url_parts =
  url_hostname :: "pystr option"
  url_port :: "nat option"
  url_path :: pystr

text \<open>\<open>parsed.hostname or "127.0.0.1"\<close>, \<open>parsed.port or 443\<close>, \<open>parsed.path or "/"\<close>: empty text and port
  0 count as absent.\<close>

definition wt_url :: "url_parts \<Rightarrow> pystr \<times> nat \<times> pystr" where
  "wt_url p =
     (case url_hostname p of Some h \<Rightarrow> if h \<noteq> [] then h else u ''127.0.0.1'' | None \<Rightarrow> u ''127.0.0.1'',
      case url_port p of Some n \<Rightarrow> if n \<noteq> 0 then n else 443 | None \<Rightarrow> 443,
      if url_path p \<noteq> [] then url_path p else u ''/'')"

definition wt_client_config :: "bool \<Rightarrow> pystr \<Rightarrow> quic_config" where
  "wt_client_config verify_ssl host =
     \<lparr>qc_is_client = True, qc_alpn = [u ''h3''], qc_server_name = Some host,
      qc_verify = (if verify_ssl then VerifyDefault else VerifyOff)\<rparr>"

definition connect_headers :: "pystr \<Rightarrow> nat \<Rightarrow> pystr \<Rightarrow> headers res" where
  "connect_headers host port path =
     bind_res (utf8_encode (host_port host port)) (\<lambda>authority.
     bind_res (utf8_encode path) (\<lambda>path.
       Return [(hdr '':method'', hdr ''CONNECT''), (hdr '':protocol'', hdr ''webtransport''),
               (hdr '':scheme'', hdr ''https''), (hdr '':authority'', authority), (hdr '':path'', path)]))"

text \<open>What the network does during a dial: resolution, the QUIC connection (or its error) with the events
  until it is connected, and the events that arrive in each pause of 10 ms while waiting for HTTP/3, in the pause of 100 ms, and in the 10 s in which the
  session must be accepted.\<close>

record 'q wt_net =
  wn_getaddrinfo :: "pystr \<Rightarrow> nat \<Rightarrow> sockaddr list res"
  wn_connect :: "quic_config \<Rightarrow> sockaddr \<Rightarrow> ('q \<times> quic_event list) res"
  wn_polls :: "quic_event list list"
  wn_settle :: "quic_event list"
  wn_session :: "quic_event list"

fun wait_h3 :: "'q wt_lib \<Rightarrow> quic_event list list \<Rightarrow> 'q wt_client \<Rightarrow> 'q wt_client" where
  "wait_h3 L [] p = p"
| "wait_h3 L (evs # rest) p = (if cp_h3 p then p else wait_h3 L rest (fold (wt_client_event L) evs p))"

fun wait_ready :: "'q wt_lib \<Rightarrow> quic_event list \<Rightarrow> 'q wt_client \<Rightarrow> 'q wt_client" where
  "wait_ready L [] p = p"
| "wait_ready L (ev # evs) p = (if cp_ready p then p else wait_ready L evs (wt_client_event L ev p))"

definition wt_open_stream :: "'q wt_lib \<Rightarrow> pystr \<times> nat \<Rightarrow> 'q wt_client \<Rightarrow> 'q wt_client" where
  "wt_open_stream L rem p =
     (let sess = the (cp_session p);
          (q, ws) = h3_create_webtransport_stream L sess (cp_quic p)
      in p\<lparr>cp_quic := quic_transmit L q, cp_stream := Some ws,
           cp_conn := Some (WebTransportConn_init ws sess (Some rem))\<rparr>)"

text \<open>The answer also tells whether the source closed the transport.\<close>

definition wt_dial :: "'q wt_lib \<Rightarrow> 'q wt_net \<Rightarrow> bool \<Rightarrow> url_parts \<Rightarrow> ('q wt_client res) \<times> bool" where
  "wt_dial L N verify_ssl parsed =
     (case wt_url parsed of (host, port, path) \<Rightarrow>
        case bind_res (wn_getaddrinfo N host port) (\<lambda>infos.
             bind_res (quic_target infos) (\<lambda>target. wn_connect N (wt_client_config verify_ssl host) target)) of
          Raise e \<Rightarrow> (Raise e, False)
        | Blocked \<Rightarrow> (Blocked, False)
        | Return (q, evs) \<Rightarrow>
            (let p = wait_h3 L (take 50 (wn_polls N)) (fold (wt_client_event L) evs (wt_client_new q)) in
             if \<not> cp_h3 p then (Raise (Exn ConnectionError [Txt ''H3 connection not established'']), True)
             else
               (let p = fold (wt_client_event L) (wn_settle N) p in
                case connect_headers host port path of
                  Raise e \<Rightarrow> (Raise e, False)
                | Blocked \<Rightarrow> (Blocked, False)
                | Return hs \<Rightarrow>
                    (let p = p\<lparr>cp_quic := quic_transmit L
                               (h3_send_headers L (quic_next_stream_id L (cp_quic p)) hs (cp_quic p))\<rparr>;
                         p = wait_ready L (wn_session N) p
                     in if \<not> cp_ready p
                        then (Raise (Exn ConnectionError [Txt ''WebTransport session timed out'']), True)
                        else (Return (wt_open_stream L (host, port) p), False)))))"

section \<open>The contracts\<close>

text \<open>Sending on an open stream succeeds and puts the bytes behind those sent before.\<close>

definition wt_lib_ok :: "'q wt_lib \<Rightarrow> ('q \<Rightarrow> nat \<Rightarrow> bytes \<Rightarrow> bool) \<Rightarrow> bool" where
  "wt_lib_ok L lk \<longleftrightarrow> (\<forall>q sid out d. lk q sid out \<longrightarrow>
     (\<exists>q'. quic_send_stream_data L sid d False q = (q', Return ()) \<and> lk (quic_transmit L q') sid (out @ d)))"

definition wt_link :: "('q \<Rightarrow> nat \<Rightarrow> bytes \<Rightarrow> bool) \<Rightarrow> 'q \<times> wt_conn \<Rightarrow> bytes \<Rightarrow> bytes \<Rightarrow> bool" where
  "wt_link lk = (\<lambda>(q, c) inb outb. \<not> wt_closed c \<and> inb = wt_buf c \<and> lk q (wt_stream_id c) outb)"

lemma wt_stream:
  assumes "wt_lib_ok L lk"
  shows "conn_stream (wt_ops L) (wt_link lk) (\<lambda>_ _. True)"
proof
  fix s :: "'a \<times> wt_conn" and inb outb buf :: bytes
  assume a: "wt_link lk s inb outb" "inb \<noteq> []" "buf \<noteq> []"
  obtain q c where s: "s = (q, c)" by (cases s)
  obtain k where k: "0 < k" "k \<le> length buf" "k \<le> length inb"
    "fill_buf buf inb = ((take k inb @ drop k buf, k), drop k inb)" by (rule fill_buf_some [OF a(2,3)])
  have "op_read (wt_ops L) buf s = ((q, c\<lparr>wt_buf := drop k inb\<rparr>), Return (take k inb @ drop k buf, k))"
    "wt_link lk (q, c\<lparr>wt_buf := drop k inb\<rparr>) (drop k inb) outb"
    using a k by (auto simp: s wt_link_def wt_read_def)
  with k show "\<exists>k s'. 0 < k \<and> k \<le> length buf \<and> k \<le> length inb \<and>
      op_read (wt_ops L) buf s = (s', Return (take k inb @ drop k buf, k)) \<and>
      wt_link lk s' (drop k inb) outb \<and> (\<forall>ns :: nat list. True \<longrightarrow> True)" by blast
next
  fix s :: "'a \<times> wt_conn" and inb outb data :: bytes and ns :: "nat list"
  assume l: "wt_link lk s inb outb"
  obtain q c where s: "s = (q, c)" by (cases s)
  obtain q' where "quic_send_stream_data L (wt_stream_id c) data False q = (q', Return ())"
    "lk (quic_transmit L q') (wt_stream_id c) (outb @ data)"
    using assms l unfolding wt_lib_ok_def wt_link_def s by (simp, blast)
  with l show "\<exists>s'. op_write (wt_ops L) data s = (s', Return (length data)) \<and> wt_link lk s' inb (outb @ data) \<and> True"
    by (auto simp: s wt_link_def wt_write_def)
qed

interpretation wt_shut: conn_shut "wt_ops L" "\<lambda>_. True" "\<lambda>(q, c). wt_closed c"
  by unfold_locales
    (auto simp: wt_ops_def wt_close_def wt_read_def wt_write_def Let_def split: prod.splits res.splits)

section \<open>Streams and connections of the server\<close>

text \<open>The streams that have a connection, oldest first.\<close>

definition stream_ids :: "'q wt_server \<Rightarrow> nat list" where
  "stream_ids p = map fst (sp_conns p)"

lemma feed_stream_fst [simp]: "map fst (feed_stream sid data ended cs) = map fst cs"
  by (simp add: feed_stream_def comp_def split_beta)

lemma feed_stream_lookup:
  "map_of (feed_stream sid data ended cs) i =
     map_option (\<lambda>c. if i = sid then feed_data data ended c else c) (map_of cs i)"
  by (induction cs) (auto simp: feed_stream_def)

lemma server_h3_event_queue:
  "wt_server_h3_event L e p = (p', new) \<Longrightarrow> distinct (stream_ids p) \<Longrightarrow>
     stream_ids p' = stream_ids p @ new \<and> distinct (stream_ids p')"
  by (cases e) (auto simp: stream_ids_def Let_def map_of_eq_None_iff split: if_splits)

lemma server_h3_events_queue:
  "wt_server_h3_events L es p = (p', new) \<Longrightarrow> distinct (stream_ids p) \<Longrightarrow>
     stream_ids p' = stream_ids p @ new \<and> distinct (stream_ids p')"
proof (induction es arbitrary: p new)
  case (Cons e es)
  obtain p1 n1 where e: "wt_server_h3_event L e p = (p1, n1)" by fastforce
  obtain n2 where n2: "wt_server_h3_events L es p1 = (p', n2)" "new = n1 @ n2"
    using Cons.prems(1) e by (auto simp: Let_def split: prod.splits)
  have q: "stream_ids p1 = stream_ids p @ n1" "distinct (stream_ids p1)"
    using server_h3_event_queue [OF e Cons.prems(2)] by blast+
  from Cons.IH [OF n2(1) q(2)] show ?case unfolding n2(2) q(1) append_assoc .
qed simp

lemma server_event_queue:
  assumes "wt_server_event L ev p = (p', new)" "distinct (stream_ids p)"
  shows "stream_ids p' = stream_ids p @ new \<and> distinct (stream_ids p')"
proof (cases ev)
  case (StreamDataReceived sid data ended)
  obtain q es where h: "h3_handle_event L sid data ended (sp_quic p) = (q, es)" by fastforce
  show ?thesis
  proof (cases "sp_h3 p \<and> map_of (sp_conns p) sid = None")
    case True
    then have "wt_server_h3_events L es (p\<lparr>sp_quic := q\<rparr>) = (p', new)"
      using assms(1) StreamDataReceived h by (simp add: wt_server_event_def Let_def)
    moreover have "stream_ids (p\<lparr>sp_quic := q\<rparr>) = stream_ids p" by (simp add: stream_ids_def)
    ultimately show ?thesis using server_h3_events_queue [of L es "p\<lparr>sp_quic := q\<rparr>" p' new] assms(2) by metis
  qed (use assms StreamDataReceived h in \<open>auto simp: stream_ids_def wt_server_event_def Let_def split: if_splits\<close>)
qed (use assms in \<open>auto simp: stream_ids_def wt_server_event_def Let_def split: if_splits\<close>)

text \<open>A run of a listener: new QUIC connections, events on them, and the calls of its owner. The second part
  of the state lists the connections that \<^verbatim>\<open>accept\<close> handed out.\<close>

datatype 'q listener_input = NewProtocol 'q | ProtocolEvent nat quic_event | AcceptCall | CloseCall

fun wt_input :: "'q wt_lib \<Rightarrow> 'q listener_input \<Rightarrow> 'q wt_listener \<times> (nat \<times> nat) list \<Rightarrow> 'q wt_listener \<times> (nat \<times> nat) list" where
  "wt_input L (NewProtocol q) (l, out) = (wt_create_protocol q l, out)"
| "wt_input L (ProtocolEvent i ev) (l, out) = (if i < length (wtl_protocols l) then wt_listener_event L i ev l else l, out)"
| "wt_input L AcceptCall (l, out) =
     (case wt_accept l of (l', Return x) \<Rightarrow> (l', out @ [x]) | (l', _) \<Rightarrow> (l', out))"
| "wt_input L CloseCall (l, out) = (fst (wt_listener_close l), out)"

definition queued_once :: "(nat \<times> nat) list \<Rightarrow> 'q wt_server list \<Rightarrow> bool" where
  "queued_once xs ps \<longleftrightarrow>
     (\<forall>i < length ps. distinct (stream_ids (ps ! i)) \<and> map snd (filter (\<lambda>x. fst x = i) xs) = stream_ids (ps ! i)) \<and>
     (\<forall>x \<in> set xs. fst x < length ps)"

lemma queued_once_new: "queued_once xs ps \<Longrightarrow> queued_once xs (ps @ [wt_server_new q])"
proof -
  assume a: "queued_once xs ps"
  have "filter (\<lambda>x. fst x = length ps) xs = []" using a by (auto simp: queued_once_def filter_empty_conv)
  with a show ?thesis by (auto simp: queued_once_def nth_append wt_server_new_def stream_ids_def less_Suc_eq)
qed

lemma queued_once_event:
  assumes a: "queued_once xs ps" and i: "i < length ps" and e: "wt_server_event L ev (ps ! i) = (p', new)"
  shows "queued_once (xs @ map (Pair i) new) (ps[i := p'])"
proof -
  have q: "stream_ids p' = stream_ids (ps ! i) @ new" "distinct (stream_ids p')"
    using server_event_queue [OF e] a i by (auto simp: queued_once_def)
  have f: "filter (\<lambda>x. fst x = j) (map (Pair i) new) = (if j = i then map (Pair i) new else [])" for j
    by (induction new) auto
  have "map snd (map (Pair i) new) = new" by (simp add: comp_def)
  then show ?thesis using a i q f by (auto simp: queued_once_def nth_update_at)
qed

definition wt_queue_inv :: "'q wt_listener \<times> (nat \<times> nat) list \<Rightarrow> bool" where
  "wt_queue_inv = (\<lambda>(l, out). queued_once (out @ wtl_queue l) (wtl_protocols l))"

lemma wt_input_inv: "wt_queue_inv s \<Longrightarrow> wt_queue_inv (wt_input L e s)"
proof -
  assume a: "wt_queue_inv s"
  obtain l out where s: "s = (l, out)" by (cases s)
  show ?thesis
  proof (cases e)
    case (NewProtocol q)
    then show ?thesis using a queued_once_new [of "out @ wtl_queue l" "wtl_protocols l" q]
      by (simp add: wt_queue_inv_def wt_create_protocol_def s)
  next
    case (ProtocolEvent i ev)
    obtain p' new where e: "wt_server_event L ev (wtl_protocols l ! i) = (p', new)" by fastforce
    then show ?thesis using a ProtocolEvent queued_once_event [of "out @ wtl_queue l" "wtl_protocols l" i, OF _ _ e]
      by (simp add: wt_queue_inv_def wt_listener_event_def s)
  qed (use a in \<open>auto simp: s wt_queue_inv_def wt_accept_def queue_get_def wt_listener_close_def split: list.split\<close>)
qed

lemma wt_inputs_inv: "wt_queue_inv s \<Longrightarrow> wt_queue_inv (fold (wt_input L) es s)"
  by (induction es arbitrary: s) (simp_all add: wt_input_inv)

lemma wt_bind_inv: "wt_queue_inv (wt_bind host port bound, [])"
  by (simp add: wt_queue_inv_def wt_bind_def queued_once_def)

subsection \<open>Data on streams that have a connection\<close>

text \<open>The part of a sequence of stream data that belongs to one stream.\<close>

definition stream_data :: "nat \<Rightarrow> (nat \<times> bytes \<times> bool) list \<Rightarrow> bytes" where
  "stream_data sid ds = concat (map (\<lambda>d. fst (snd d)) (filter (\<lambda>d. fst d = sid) ds))"

definition stream_ended :: "nat \<Rightarrow> (nat \<times> bytes \<times> bool) list \<Rightarrow> bool" where
  "stream_ended sid ds \<longleftrightarrow> (\<exists>d \<in> set ds. fst d = sid \<and> snd (snd d))"

lemma known_stream_event:
  "sp_h3 p \<Longrightarrow> map_of (sp_conns p) sid \<noteq> None \<Longrightarrow>
     wt_server_event L (StreamDataReceived sid data ended) p = (p\<lparr>sp_conns := feed_stream sid data ended (sp_conns p)\<rparr>, [])"
  by (simp add: wt_server_event_def Let_def)

lemma known_stream_events:
  assumes "sp_h3 p" "\<forall>d \<in> set ds. map_of (sp_conns p) (fst d) \<noteq> None" "map_of (sp_conns p) sid = Some c"
  shows "\<exists>cs c'. fold (\<lambda>(i, d, e) p. fst (wt_server_event L (StreamDataReceived i d e) p)) ds p = p\<lparr>sp_conns := cs\<rparr> \<and>
    map_of cs sid = Some c' \<and> wt_buf c' = wt_buf c @ stream_data sid ds \<and> wt_eof c' = (wt_eof c \<or> stream_ended sid ds) \<and>
    wt_closed c' = wt_closed c \<and> wt_stream_id c' = wt_stream_id c"
  using assms
proof (induction ds arbitrary: p c)
  case Nil
  then show ?case by (intro exI [of _ "sp_conns p"] exI [of _ c]) (simp add: stream_data_def stream_ended_def)
next
  case (Cons d ds)
  obtain i dd e where d: "d = (i, dd, e)" by (cases d)
  let ?p = "p\<lparr>sp_conns := feed_stream i dd e (sp_conns p)\<rparr>"
  let ?c = "if sid = i then feed_data dd e c else c"
  have step: "fst (wt_server_event L (StreamDataReceived i dd e) p) = ?p"
    using known_stream_event [of p i L dd e] Cons.prems d by simp
  have "\<forall>x \<in> set ds. map_of (sp_conns ?p) (fst x) \<noteq> None" "map_of (sp_conns ?p) sid = Some ?c"
    using Cons.prems by (auto simp: feed_stream_lookup)
  then obtain cs c' where r: "fold (\<lambda>(i, d, e) p. fst (wt_server_event L (StreamDataReceived i d e) p)) ds ?p = ?p\<lparr>sp_conns := cs\<rparr>"
    "map_of cs sid = Some c'" "wt_buf c' = wt_buf ?c @ stream_data sid ds" "wt_eof c' = (wt_eof ?c \<or> stream_ended sid ds)"
    "wt_closed c' = wt_closed ?c" "wt_stream_id c' = wt_stream_id ?c"
    using Cons.IH [of ?p ?c] Cons.prems(1) by auto
  have "wt_buf c' = wt_buf c @ stream_data sid (d # ds)" "wt_eof c' = (wt_eof c \<or> stream_ended sid (d # ds))"
    "wt_closed c' = wt_closed c" "wt_stream_id c' = wt_stream_id c"
    using r(3-6) d by (auto simp: stream_data_def stream_ended_def feed_data_def)
  with r(1,2) step d show ?case by (intro exI [of _ cs] exI [of _ c']) simp
qed

section \<open>The dialer\<close>

definition wt_client_ok :: "'q wt_client \<Rightarrow> bool" where
  "wt_client_ok p \<longleftrightarrow> (cp_ready p \<longrightarrow> cp_session p \<noteq> None)"

lemma wt_client_new_ok: "wt_client_ok (wt_client_new q)"
  by (simp add: wt_client_ok_def wt_client_new_def)

lemma h3_event_keep: "wt_client_ok p \<Longrightarrow> wt_client_ok (wt_client_h3_event e p)"
  by (cases e) (auto simp: wt_client_ok_def split: option.splits)

lemma h3_event_h3 [simp]: "cp_h3 (wt_client_h3_event e p) = cp_h3 p"
  by (cases e) (auto split: option.split)

lemma h3_events_h3 [simp]: "cp_h3 (fold wt_client_h3_event es p) = cp_h3 p"
  by (induction es arbitrary: p) simp_all

lemma h3_events_keep: "wt_client_ok p \<Longrightarrow> wt_client_ok (fold wt_client_h3_event es p)"
  by (induction es arbitrary: p) (simp_all add: h3_event_keep)

lemma client_event_keep: "wt_client_ok p \<Longrightarrow> wt_client_ok (wt_client_event L ev p)"
proof (cases ev)
  case (StreamDataReceived sid data ended)
  assume a: "wt_client_ok p"
  obtain q es where h: "h3_handle_event L sid data ended (cp_quic p) = (q, es)" by fastforce
  have "wt_client_ok (p\<lparr>cp_quic := q\<rparr>)" using a by (simp add: wt_client_ok_def)
  from h3_events_keep [OF this] show ?thesis
    using a StreamDataReceived h by (auto simp: wt_client_event_def wt_client_ok_def split: option.split)
qed (simp_all add: wt_client_ok_def wt_client_event_def Let_def)

lemma client_event_h3: "cp_h3 p \<Longrightarrow> cp_h3 (wt_client_event L ev p)"
  by (auto simp: wt_client_event_def Let_def split: option.split prod.split quic_event.split)

lemma client_events_keep: "wt_client_ok p \<Longrightarrow> wt_client_ok (fold (wt_client_event L) evs p)"
  by (induction evs arbitrary: p) (simp_all add: client_event_keep)

lemma client_events_h3: "cp_h3 p \<Longrightarrow> cp_h3 (fold (wt_client_event L) evs p)"
  by (induction evs arbitrary: p) (simp_all add: client_event_h3)

lemma wait_h3_ok: "wt_client_ok p \<Longrightarrow> wt_client_ok (wait_h3 L polls p)"
  by (induction polls arbitrary: p) (simp_all add: client_events_keep)

lemma wait_ready_ok: "wt_client_ok p \<Longrightarrow> wt_client_ok (wait_ready L evs p)"
  by (induction evs arbitrary: p) (simp_all add: client_event_keep)

lemma wait_ready_h3: "cp_h3 p \<Longrightarrow> cp_h3 (wait_ready L evs p)"
  by (induction evs arbitrary: p) (simp_all add: client_event_h3)

lemma wt_open_stream_ok:
  "wt_client_ok p \<Longrightarrow> cp_h3 p \<Longrightarrow> cp_ready p \<Longrightarrow>
     cp_h3 (wt_open_stream L rem p) \<and> cp_ready (wt_open_stream L rem p) \<and>
     (\<exists>sess ws. cp_session (wt_open_stream L rem p) = Some sess \<and> cp_stream (wt_open_stream L rem p) = Some ws \<and>
        cp_conn (wt_open_stream L rem p) = Some (WebTransportConn_init ws sess (Some rem)))"
  by (auto simp: wt_open_stream_def wt_client_ok_def split: prod.split)

text \<open>A dial that returns has waited for HTTP/3 and for the session, then opened its stream.\<close>

lemma wt_dial_session:
  assumes "wt_dial L N vs a = (Return p, shut)"
  obtains p1 where "wt_client_ok p1" "cp_h3 p1" "cp_ready p1" "\<not> shut"
    "p = wt_open_stream L (fst (wt_url a), fst (snd (wt_url a))) p1"
proof -
  obtain q evs p0 q' where p0: "p0 = wait_h3 L (take 50 (wn_polls N)) (fold (wt_client_event L) evs (wt_client_new q))"
    and h: "cp_h3 p0" "\<not> shut"
    and r: "cp_ready (wait_ready L (wn_session N) ((fold (wt_client_event L) (wn_settle N) p0)\<lparr>cp_quic := q'\<rparr>))"
      "p = wt_open_stream L (fst (wt_url a), fst (snd (wt_url a)))
         (wait_ready L (wn_session N) ((fold (wt_client_event L) (wn_settle N) p0)\<lparr>cp_quic := q'\<rparr>))"
    using assms by (auto simp: wt_dial_def Let_def split: prod.splits res.splits if_splits)
  let ?p = "fold (wt_client_event L) (wn_settle N) p0"
  have "wt_client_ok p0" unfolding p0 by (intro client_events_keep wait_h3_ok wt_client_new_ok)
  then have "wt_client_ok (?p\<lparr>cp_quic := q'\<rparr>)"
    using client_events_keep [of p0 L "wn_settle N"] by (simp add: wt_client_ok_def)
  moreover have "cp_h3 (?p\<lparr>cp_quic := q'\<rparr>)" using client_events_h3 [OF h(1)] by simp
  ultimately show thesis using that wait_ready_ok wait_ready_h3 h r by blast
qed

section \<open>Properties\<close>

text \<open>A library for the witnesses: every stream event with data is a new WebTransport stream, and what is
  sent is recorded.\<close>

definition toy_wt :: "(nat \<times> bytes) list wt_lib" where
  "toy_wt = \<lparr>h3_new = (\<lambda>q. q),
     h3_handle_event = (\<lambda>sid d e q. (q, if d = [] then [HeadersReceived sid [(hdr '':status'', hdr ''200'')]]
                                        else [WebTransportStreamDataReceived sid 0 d e])),
     h3_send_headers = (\<lambda>_ _ q. q), h3_create_webtransport_stream = (\<lambda>_ q. (q, 4)),
     quic_send_stream_data = (\<lambda>sid d e q. (q @ [(sid, d)], Return ())), quic_transmit = (\<lambda>q. q),
     quic_next_stream_id = (\<lambda>_. 0), quic_peer = (\<lambda>_. Return (u ''::1'', 7))\<rparr>"

text \<open>C34. Whatever the peers send and however their events interleave with the owner's calls, the WebTransport
  listener puts each stream into its queue exactly once: for every QUIC connection, the streams already
  handed out by \<^verbatim>\<open>accept\<close> followed by those still queued are its streams in the order in which they were
  opened, without repetition.\<close>

theorem wt_listener_queue:
  assumes "fold (wt_input L) es (wt_bind host port bound, []) = (l, out)" "i < length (wtl_protocols l)"
  shows "map snd (filter (\<lambda>x. fst x = i) (out @ wtl_queue l)) = map fst (sp_conns (wtl_protocols l ! i)) \<and>
    distinct (map fst (sp_conns (wtl_protocols l ! i)))"
  using wt_inputs_inv [OF wt_bind_inv, of L es host port bound] assms
  unfolding wt_queue_inv_def queued_once_def stream_ids_def by simp

theorem wt_listener_queue_witness:
  "case fold (wt_input toy_wt) [NewProtocol [], ProtocolEvent 0 HandshakeCompleted,
        ProtocolEvent 0 (StreamDataReceived 4 [1] False), ProtocolEvent 0 (StreamDataReceived 8 [2] False), AcceptCall,
        ProtocolEvent 0 (StreamDataReceived 4 [3] False)] (wt_bind [] 0 (Return None), []) of
     (l, out) \<Rightarrow> out @ wtl_queue l = [(0, 4), (0, 8)] \<and> distinct (map fst (sp_conns (wtl_protocols l ! 0)))"
proof -
  let ?es = "[NewProtocol [], ProtocolEvent 0 HandshakeCompleted, ProtocolEvent 0 (StreamDataReceived 4 [1] False),
    ProtocolEvent 0 (StreamDataReceived 8 [2] False), AcceptCall, ProtocolEvent 0 (StreamDataReceived 4 [3] False)]
    :: (nat \<times> bytes) list listener_input list"
  obtain l out where r: "fold (wt_input toy_wt) ?es (wt_bind [] 0 (Return None), []) = (l, out)" by fastforce
  then have v: "out @ wtl_queue l = [(0, 4), (0, 8)]" "0 < length (wtl_protocols l)"
    by (auto simp: wt_bind_def wt_create_protocol_def wt_listener_event_def wt_server_event_def wt_server_new_def
      toy_wt_def Let_def feed_stream_def wt_accept_def queue_get_def)
  with wt_listener_queue [OF r v(2)] r show ?thesis by simp
qed

text \<open>C35. Streams do not leak into each other: after any interleaving of data events on streams the server
  knows, a connection reads exactly the bytes that were still buffered followed by the data of its own stream
  in order, as many as fit; with none it reports the end of the stream when the peer ended it, and waits
  otherwise.\<close>

theorem wt_stream_delivers:
  assumes "sp_h3 p" "\<forall>d \<in> set ds. map_of (sp_conns p) (fst d) \<noteq> None"
    and "map_of (sp_conns p) sid = Some c" "\<not> wt_closed c"
  shows "\<exists>c'. map_of (sp_conns (fold (\<lambda>(i, d, e) p. fst (wt_server_event L (StreamDataReceived i d e) p)) ds p)) sid = Some c' \<and>
    (let data = wt_buf c @ stream_data sid ds; k = min (length buf) (length data) in
     wt_read buf c' =
       (if data \<noteq> [] then (c'\<lparr>wt_buf := drop k data\<rparr>, Return (take k data @ drop k buf, k))
        else if wt_eof c \<or> stream_ended sid ds then (c', Return (buf, 0))
        else (c'\<lparr>wt_data_event := False\<rparr>, Blocked)))"
proof -
  from known_stream_events [OF assms(1,2,3), of L] obtain cs c' where
    "fold (\<lambda>(i, d, e) p. fst (wt_server_event L (StreamDataReceived i d e) p)) ds p = p\<lparr>sp_conns := cs\<rparr>"
    "map_of cs sid = Some c'" "wt_buf c' = wt_buf c @ stream_data sid ds"
    "wt_eof c' = (wt_eof c \<or> stream_ended sid ds)" "wt_closed c' = wt_closed c" by blast
  with assms(4) show ?thesis
    by (intro exI [of _ c']) (auto simp: wt_read_def Let_def fill_buf_eq)
qed

theorem wt_stream_delivers_witness:
  "\<exists>c'. map_of (sp_conns (fold (\<lambda>(i, d, e) p. fst (wt_server_event toy_wt (StreamDataReceived i d e) p))
      [(4, [1], False), (8, [2], True), (4, [3], False)]
      \<lparr>sp_quic = [], sp_h3 = True, sp_conns = [(4, WebTransportConn_init 4 0 None), (8, WebTransportConn_init 8 0 None)],
       sp_sessions = {0}\<rparr>)) 4 = Some c' \<and>
    wt_read (bytearray 3) c' = (c'\<lparr>wt_buf := []\<rparr>, Return ([1, 3, 0], 2))"
proof -
  let ?c = "\<lambda>sid. WebTransportConn_init sid 0 None"
  let ?p = "\<lparr>sp_quic = [], sp_h3 = True, sp_conns = [(4, ?c 4), (8, ?c 8)], sp_sessions = {0}\<rparr> :: (nat \<times> bytes) list wt_server"
  let ?ds = "[(4, [1], False), (8, [2], True), (4, [3], False)] :: (nat \<times> bytes \<times> bool) list"
  have "sp_h3 ?p" "\<forall>d \<in> set ?ds. map_of (sp_conns ?p) (fst d) \<noteq> None" "map_of (sp_conns ?p) 4 = Some (?c 4)"
    "\<not> wt_closed (?c 4)" by (simp_all add: WebTransportConn_init_def)
  note r = wt_stream_delivers [OF this, of toy_wt "bytearray 3"]
  have "wt_buf (?c 4) @ stream_data 4 ?ds = [1, 3]" "bytearray 3 = [0, 0, 0]"
    by (simp_all add: WebTransportConn_init_def stream_data_def bytearray_def numeral_3_eq_3)
  with r show ?thesis by (simp add: Let_def numeral_2_eq_2)
qed


definition toy_wt_net :: "quic_event list \<Rightarrow> (nat \<times> bytes) list wt_net" where
  "toy_wt_net answer = \<lparr>wn_getaddrinfo = (\<lambda>h p. Return [Addr2 h p]), wn_connect = (\<lambda>_ _. Return ([], [HandshakeCompleted])),
     wn_polls = [], wn_settle = [], wn_session = answer\<rparr>"


end
