(* ===== verification/Echo.thy ===== *)
theory Echo
  imports WebSocket WebTransport Quic Json
begin

text \<open>
  The echo servers \<^verbatim>\<open>uniconn-tests/tools_py/echo_server.py\<close> (TCP, WebSocket) and \<^verbatim>\<open>py_wt_echo_server.py\<close>
  (WebTransport). The handler reads into one buffer that it keeps, writes back what it got, and closes the
  connection when the peer is done or anything fails. A handler that never returns would be \<open>None\<close>; one
  that waits for data is \<open>Blocked\<close>.

  Two contracts on top of those of \<open>ConnIface\<close>:
  \<^item> \<open>conn_eof\<close>: a stream that has ended is read as length 0 after its last byte.
  \<^item> \<open>conn_tracked\<close>: in any state, also one with a failing peer, a read takes its bytes from what the
    connection holds and a write that returns has put all its bytes on the wire.
\<close>

section \<open>The programs\<close>

partial_function (option) echo_loop :: "'s conn_ops \<Rightarrow> bytes \<Rightarrow> 's \<Rightarrow> ('s \<times> unit res) option" where
  "echo_loop ops buf s =
     (case op_read ops buf s of
        (s, Return (buf, n)) \<Rightarrow>
          if n = 0 then Some (s, Return ())
          else (case op_write ops (take n buf) s of
                  (s, Return m) \<Rightarrow> echo_loop ops buf s
                | (s, Raise e) \<Rightarrow> Some (s, Raise e)
                | (s, Blocked) \<Rightarrow> Some (s, Blocked))
      | (s, Raise e) \<Rightarrow> Some (s, Raise e)
      | (s, Blocked) \<Rightarrow> Some (s, Blocked))"

text \<open>\<open>except Exception: pass\<close>, then \<open>finally: await conn.close()\<close>.\<close>

definition echo_finish :: "'s conn_ops \<Rightarrow> 's \<Rightarrow> unit res \<Rightarrow> 's \<times> unit res" where
  "echo_finish ops s r =
     (case r of
        Blocked \<Rightarrow> (s, Blocked)
      | Return _ \<Rightarrow> op_close ops s
      | Raise e \<Rightarrow>
          if is_exception e then op_close ops s
          else res_bind (op_close ops s) (\<lambda>s _. (s, Raise e)))"

definition echo_handler :: "nat \<Rightarrow> 's conn_ops \<Rightarrow> 's \<Rightarrow> ('s \<times> unit res) option" where
  "echo_handler bufsize ops s =
     map_option (\<lambda>(s, r). echo_finish ops s r) (echo_loop ops (bytearray bufsize) s)"

definition ECHO_BUF :: nat where "ECHO_BUF = 256 * 1024"
definition WT_ECHO_BUF :: nat where "WT_ECHO_BUF = 65536"

definition wt_echo_handler :: "'q wt_lib \<Rightarrow> 'q \<times> wt_conn \<Rightarrow> (('q \<times> wt_conn) \<times> unit res) option" where
  "wt_echo_handler L = echo_handler WT_ECHO_BUF (wt_ops L)"

text \<open>\<^verbatim>\<open>main\<close>: which listener is bound (the exit status otherwise), the line that announces the port, and one
  turn of the loop that starts a handler for every accepted connection.\<close>

datatype echo_listener = EchoTcp | EchoWs | EchoExit nat

definition echo_choose :: "pystr list \<Rightarrow> (echo_listener \<times> int) res" where
  "echo_choose argv =
     (let protocol = (if 1 < length argv then argv ! 1 else u ''tcp'') in
      bind_res (if 2 < length argv then py_int (argv ! 2) else Return 0) (\<lambda>port.
        Return (if protocol = u ''tcp'' then EchoTcp else if protocol = u ''ws'' then EchoWs else EchoExit 1, port)))"

fun split_colon :: "pystr \<Rightarrow> pystr list" where
  "split_colon [] = [[]]"
| "split_colon (c # cs) =
     (if c = 58 then [] # split_colon cs
      else (case split_colon cs of f # fs \<Rightarrow> (c # f) # fs | [] \<Rightarrow> [[c]]))"

definition echo_ready :: "addr \<Rightarrow> pystr res" where
  "echo_ready a =
     (let parts = split_colon (address a) in
      if length parts \<le> 1 then Raise (Exn IndexError [Txt ''list index out of range''])
      else bind_res (py_int (parts ! 1)) (\<lambda>port. Return (u ''READY:'' @ dump_int port)))"

definition wt_echo_info :: "addr \<Rightarrow> pystr \<Rightarrow> json res" where
  "wt_echo_info a cert_hash =
     bind_res (py_int (last (split_colon (address a)))) (\<lambda>port.
       Return (JObj [(u ''port'', JInt port), (u ''cert_hash'', JStr cert_hash)]))"

definition echo_accept :: "('l \<Rightarrow> 'l \<times> 'c res) \<Rightarrow> 'l \<times> 'c list \<Rightarrow> ('l \<times> 'c list) \<times> unit res" where
  "echo_accept accept = (\<lambda>(l, handlers).
     (case accept l of
        (l, Return conn) \<Rightarrow> ((l, handlers @ [conn]), Return ())
      | (l, Raise e) \<Rightarrow> ((l, handlers), Raise e)
      | (l, Blocked) \<Rightarrow> ((l, handlers), Blocked)))"

text \<open>The program as it runs: connections arrive while the loop accepts them.\<close>

fun echo_serve :: "('l \<Rightarrow> 'l \<times> 'c res) \<Rightarrow> ('a \<Rightarrow> 'l \<Rightarrow> 'l) \<Rightarrow> 'a listener_event list \<Rightarrow> 'l \<times> 'c list \<Rightarrow> 'l \<times> 'c list" where
  "echo_serve acc arr [] st = st"
| "echo_serve acc arr (Arrives a # es) st = echo_serve acc arr es (arr a (fst st), snd st)"
| "echo_serve acc arr (Accept # es) st = echo_serve acc arr es (fst (echo_accept acc st))"

section \<open>The announced port\<close>

lemma split_colon_append: "58 \<notin> set host \<Longrightarrow> split_colon (host @ 58 # rest) = host # split_colon rest"
  by (induction host) auto

lemma split_colon_none: "58 \<notin> set s \<Longrightarrow> split_colon s = [s]"
  by (induction s) auto

lemma dec_digits_no_colon: "58 \<notin> set (dec_digits n)"
  using dec_digits_all [of n] by (auto simp: list_all_iff is_digit_def)

lemma split_colon_host_port: "58 \<notin> set host \<Longrightarrow> split_colon (host_port host port) = [host, dec_digits port]"
  by (simp add: host_port_def split_colon_append split_colon_none dec_digits_no_colon)

lemma echo_ready_port:
  "58 \<notin> set host \<Longrightarrow> address a = host_port host port \<Longrightarrow> echo_ready a = Return (u ''READY:'' @ dump_int (int port))"
  by (simp add: echo_ready_def split_colon_host_port py_int_dec_digits)

lemma wt_echo_info_port:
  "58 \<notin> set host \<Longrightarrow> address a = host_port host port \<Longrightarrow>
     wt_echo_info a h = Return (JObj [(u ''port'', JInt (int port)), (u ''cert_hash'', JStr h)])"
  by (simp add: wt_echo_info_def split_colon_host_port py_int_dec_digits)

section \<open>Streams that end\<close>

locale conn_eof = conn_stream ops link wok
  for ops :: "'s conn_ops" and link and wok +
  fixes ended :: "'s \<Rightarrow> bool"
    and gone :: "'s \<Rightarrow> bytes \<Rightarrow> bool"
  assumes read_eof: "\<lbrakk>link s [] outb; ended s\<rbrakk> \<Longrightarrow>
      \<exists>s'. op_read ops buf s = (s', Return (buf, 0)) \<and> link s' [] outb"
    and ended_read: "\<lbrakk>link s inb outb; ended s; op_read ops buf s = (s', r)\<rbrakk> \<Longrightarrow> ended s'"
    and ended_write: "\<lbrakk>link s inb outb; ended s; op_write ops data s = (s', x)\<rbrakk> \<Longrightarrow> ended s'"
    and close_gone: "link s inb outb \<Longrightarrow> \<exists>s'. op_close ops s = (s', Return ()) \<and> gone s' outb"
begin

lemma echo_loop_all:
  assumes "link s inb outb" "ended s" "\<And>ns. wok s ns" "buf \<noteq> []"
  shows "\<exists>s'. echo_loop ops buf s = Some (s', Return ()) \<and> link s' [] (outb @ inb)"
  using assms
proof (induction "length inb" arbitrary: s inb outb buf rule: less_induct)
  case less
  show ?case
  proof (cases "inb = []")
    case True
    with less.prems read_eof [of s outb buf] show ?thesis by (auto simp: echo_loop.simps [of ops buf s])
  next
    case False
    obtain k s1 where k: "0 < k" "k \<le> length buf" "k \<le> length inb"
      "op_read ops buf s = (s1, Return (take k inb @ drop k buf, k))" "link s1 (drop k inb) outb" "\<And>ns. wok s1 ns"
      using read_someE [OF less.prems(1) False less.prems(4)] less.prems(3) by metis
    obtain s2 where s2: "op_write ops (take k inb) s1 = (s2, Return (length (take k inb)))"
      "link s2 (drop k inb) (outb @ take k inb)"
      using write_allE [OF k(5,6)] by metis
    have w: "wok s2 ns" for ns
      using write_allE [OF k(5,6), of "take k inb" ns] s2(1) by (metis prod.inject)
    have e: "ended s2" using ended_write [OF k(5) ended_read [OF less.prems(1,2) k(4)] s2(1)] .
    have "echo_loop ops buf s = echo_loop ops (take k inb @ drop k buf) s2"
      using k s2 by (simp add: echo_loop.simps [of ops buf s] min_absorb2)
    moreover have "\<exists>s'. echo_loop ops (take k inb @ drop k buf) s2 = Some (s', Return ()) \<and>
        link s' [] ((outb @ take k inb) @ drop k inb)"
      by (rule less.hyps [OF _ s2(2) e w]) (use k less.prems(4) in auto)
    ultimately show ?thesis by simp
  qed
qed

lemma echo_all:
  assumes "link s inb outb" "ended s" "\<And>ns. wok s ns" "0 < bufsize"
  shows "\<exists>s'. echo_handler bufsize ops s = Some (s', Return ()) \<and> gone s' (outb @ inb)"
proof -
  have "bytearray bufsize \<noteq> []" using assms(4) by simp
  from echo_loop_all [OF assms(1-3) this] obtain s1 where
    s1: "echo_loop ops (bytearray bufsize) s = Some (s1, Return ())" "link s1 [] (outb @ inb)" by blast
  with close_gone [OF s1(2)] show ?thesis by (auto simp: echo_handler_def echo_finish_def)
qed

end

interpretation tcp_eof: conn_eof tcp_ops tcp_link "\<lambda>_ _. True" "\<lambda>c. rtail (tcp_reader c) = Eof"
    "\<lambda>c outb. tcp_closed c \<and> wclosed (tcp_writer c) \<and> wsent (tcp_writer c) = outb"
proof unfold_locales
  fix s :: tcp_conn and outb buf :: bytes
  assume a: "tcp_link s [] outb" "rtail (tcp_reader s) = Eof"
  then have "segs (tcp_reader s) = []" by (cases "segs (tcp_reader s)") (auto simp: tcp_link_def reader_ok_def)
  with a have "tcp_read buf s = (s, Return (buf, 0))"
    by (simp add: tcp_read_def stream_read_into_def sr_read_def tcp_link_def)
  with a show "\<exists>s'. op_read tcp_ops buf s = (s', Return (buf, 0)) \<and> tcp_link s' [] outb" by simp
next
  fix s s' :: tcp_conn and inb outb buf :: bytes and r
  assume "tcp_link s inb outb" "rtail (tcp_reader s) = Eof" "op_read tcp_ops buf s = (s', r)"
  then show "rtail (tcp_reader s') = Eof"
    by (auto simp: tcp_read_def stream_read_into_def sr_read_def Let_def
        split: if_splits prod.splits res.splits list.splits stream_tail.splits)
qed (auto simp: tcp_write_def tcp_close_def tcp_link_def sw_write_def sw_close_def Let_def split: if_splits)

text \<open>A WebTransport stream: the library must accept the end of the stream, \<open>fin\<close> is the state of the
  library afterwards.\<close>

definition wt_fin_ok :: "'q wt_lib \<Rightarrow> ('q \<Rightarrow> nat \<Rightarrow> bytes \<Rightarrow> bool) \<Rightarrow> ('q \<Rightarrow> nat \<Rightarrow> bytes \<Rightarrow> bool) \<Rightarrow> bool" where
  "wt_fin_ok L lk fin \<longleftrightarrow> (\<forall>q sid out. lk q sid out \<longrightarrow>
     (\<exists>q'. quic_send_stream_data L sid [] True q = (q', Return ()) \<and> fin (quic_transmit L q') sid out))"

lemma wt_eof_stream:
  assumes "wt_lib_ok L lk" "wt_fin_ok L lk fin"
  shows "conn_eof (wt_ops L) (wt_link lk) (\<lambda>_ _. True) (\<lambda>(q, c). wt_eof c)
    (\<lambda>(q, c) outb. wt_closed c \<and> fin q (wt_stream_id c) outb)"
proof (rule conn_eof.intro [OF wt_stream [OF assms(1)]], unfold_locales)
  fix s :: "'a \<times> wt_conn" and inb outb :: bytes
  assume l: "wt_link lk s inb outb"
  obtain q c where s: "s = (q, c)" by (cases s)
  obtain q' where "quic_send_stream_data L (wt_stream_id c) [] True q = (q', Return ())"
    "fin (quic_transmit L q') (wt_stream_id c) outb"
    using assms(2) l unfolding wt_fin_ok_def wt_link_def s by (simp, blast)
  with l show "\<exists>s'. op_close (wt_ops L) s = (s', Return ()) \<and>
      (case s' of (q, c) \<Rightarrow> \<lambda>outb. wt_closed c \<and> fin q (wt_stream_id c) outb) outb"
    by (simp add: s wt_close_def wt_link_def Let_def)
qed (auto simp: wt_link_def wt_read_def wt_write_def Let_def split: if_splits prod.splits res.splits)

text \<open>A WebSocket whose peer has closed it: after the last message \<^verbatim>\<open>recv\<close> raises \<^verbatim>\<open>ConnectionClosed\<close>, and
  closing again returns.\<close>

definition ws_ends_ok :: "'w ws_lib \<Rightarrow> ('w \<Rightarrow> ws_msg list \<Rightarrow> bytes list \<Rightarrow> bool) \<Rightarrow> ('w \<Rightarrow> bytes list \<Rightarrow> bool) \<Rightarrow> bool" where
  "ws_ends_ok L lk fin \<longleftrightarrow>
     (\<forall>w out. lk w [] out \<longrightarrow> (\<exists>w' e. lib_recv L w = (w', Raise e) \<and> is_exception e \<and> lk w' [] out)) \<and>
     (\<forall>w ms out. lk w ms out \<longrightarrow> (\<exists>w'. lib_close L w = (w', Return ()) \<and> fin w' out))"

lemma ws_eof_stream:
  assumes L: "ws_lib_ok L lk" and F: "ws_ends_ok L lk fin"
  shows "conn_eof (ws_ops L) (ws_link lk) (\<lambda>_ _. True) (\<lambda>_. True)
    (\<lambda>c outb. ws_closed c \<and> (\<exists>out. fin (ws_obj c) out \<and> concat out = outb))"
proof (rule conn_eof.intro [OF ws_stream [OF L]], unfold_locales)
  fix c :: "'a ws_conn" and outb buf :: bytes
  assume l: "ws_link lk c [] outb"
  then obtain ms out datas where c: "\<not> ws_closed c" "lk (ws_obj c) ms out" "map ws_bytes ms = map Return datas"
    "[] \<notin> set datas" "ws_read_buf c = []" "concat datas = []" "outb = concat out"
    by (auto simp: ws_link_def)
  have "datas = []" using c(4,6) by (cases datas) auto
  with c(2,3) have m: "lk (ws_obj c) [] out" by simp
  then obtain w e where w: "lib_recv L (ws_obj c) = (w, Raise e)" "is_exception e" "lk w [] out"
    using F unfolding ws_ends_ok_def by blast
  have "ws_link lk (c\<lparr>ws_obj := w\<rparr>) [] outb"
    unfolding ws_link_def by (intro conjI exI [of _ "[]"] exI [of _ out]) (use c w in simp_all)
  with c w show "\<exists>c'. op_read (ws_ops L) buf c = (c', Return (buf, 0)) \<and> ws_link lk c' [] outb"
    by (simp add: ws_read_def)
next
  fix c :: "'a ws_conn" and inb outb :: bytes
  assume "ws_link lk c inb outb"
  then obtain ms out where c: "\<not> ws_closed c" "lk (ws_obj c) ms out" "outb = concat out" by (auto simp: ws_link_def)
  then obtain w where "lib_close L (ws_obj c) = (w, Return ())" "fin w out" using F unfolding ws_ends_ok_def by blast
  with c show "\<exists>c'. op_close (ws_ops L) c = (c', Return ()) \<and> ws_closed c' \<and> (\<exists>out. fin (ws_obj c') out \<and> concat out = outb)"
    by (auto simp: ws_close_def)
qed simp_all

section \<open>Connections in any state\<close>

locale conn_tracked =
  fixes ops :: "'s conn_ops"
    and ok :: "'s \<Rightarrow> bool"
    and held :: "'s \<Rightarrow> bytes"
    and put :: "'s \<Rightarrow> bytes"
    and shut :: "'s \<Rightarrow> bool"
  assumes read_held: "ok s \<Longrightarrow> op_read ops buf s = (s', Return (b, n)) \<Longrightarrow>
      n \<le> length b \<and> held s = take n b @ held s'"
    and read_put: "ok s \<Longrightarrow> op_read ops buf s = (s', r) \<Longrightarrow> ok s' \<and> put s' = put s"
    and write_put: "ok s \<Longrightarrow> op_write ops data s = (s', Return m) \<Longrightarrow> ok s' \<and> held s' = held s \<and> put s' = put s @ data"
    and write_fails: "ok s \<Longrightarrow> op_write ops data s = (s', Raise e) \<Longrightarrow> put s' = put s"
    and write_waits: "ok s \<Longrightarrow> op_write ops data s = (s', Blocked) \<Longrightarrow> put s' = put s"
    and close_ends: "\<exists>s'. op_close ops s = (s', Return ()) \<and> shut s' \<and> put s' = put s"
begin

lemma echo_loop_returns:
  assumes "ok s"
  shows "\<exists>s' r k. echo_loop ops buf s = Some (s', r) \<and> put s' = put s @ take k (held s)"
  using assms
proof (induction "length (held s)" arbitrary: s buf rule: less_induct)
  case less
  obtain s1 r1 where r1: "op_read ops buf s = (s1, r1)" by (cases "op_read ops buf s")
  have p1: "ok s1" "put s1 = put s" using read_put [OF less.prems r1] by simp_all
  show ?case
  proof (cases "\<exists>b n. r1 = Return (b, n) \<and> n \<noteq> 0")
    case False
    then have "\<exists>r. echo_loop ops buf s = Some (s1, r)"
      using r1 by (cases r1) (auto simp: echo_loop.simps [of ops buf s])
    with p1 show ?thesis by (metis append_Nil2 take_0)
  next
    case True
    then obtain b n where bn: "r1 = Return (b, n)" "n \<noteq> 0" by blast
    have h: "n \<le> length b" "held s = take n b @ held s1" using read_held [OF less.prems r1 [unfolded bn(1)]] by simp_all
    obtain s2 r2 where r2: "op_write ops (take n b) s1 = (s2, r2)" by (cases "op_write ops (take n b) s1")
    show ?thesis
    proof (cases r2)
      case (Return m)
      have p2: "ok s2" "held s2 = held s1" "put s2 = put s @ take n b"
        using write_put [OF p1(1) r2 [unfolded Return]] p1(2) by simp_all
      have "length (held s2) < length (held s)" using h bn(2) p2(2) by simp
      from less.hyps [OF this p2(1), of b] obtain s' r k where
        "echo_loop ops b s2 = Some (s', r)" "put s' = put s2 @ take k (held s2)" by blast
      moreover have "echo_loop ops buf s = echo_loop ops b s2"
        using r1 bn r2 Return by (simp add: echo_loop.simps [of ops buf s])
      moreover have "take n b @ take k (held s1) = take (n + k) (held s)" using h by simp
      ultimately show ?thesis using p2 by (metis append_assoc)
    next
      case (Raise e)
      with r1 bn r2 write_fails [OF p1(1) r2 [unfolded Raise]] p1(2) show ?thesis
        by (auto simp: echo_loop.simps [of ops buf s] intro: exI [of _ 0])
    next
      case Blocked
      with r1 bn r2 write_waits [OF p1(1) r2 [unfolded Blocked]] p1(2) show ?thesis
        by (auto simp: echo_loop.simps [of ops buf s] intro: exI [of _ 0])
    qed
  qed
qed

lemma echo_returns:
  assumes "ok s"
  shows "\<exists>s' r k. echo_handler bufsize ops s = Some (s', r) \<and> (r = Blocked \<or> shut s') \<and>
    put s' = put s @ take k (held s)"
proof -
  obtain s1 r k where l: "echo_loop ops (bytearray bufsize) s = Some (s1, r)" "put s1 = put s @ take k (held s)"
    using echo_loop_returns [OF assms] by blast
  obtain s2 where c: "op_close ops s1 = (s2, Return ())" "shut s2" "put s2 = put s1" using close_ends by blast
  show ?thesis
  proof (cases r)
    case Blocked
    with l show ?thesis by (auto simp: echo_handler_def echo_finish_def)
  next
    case (Return x)
    with l c show ?thesis by (auto simp: echo_handler_def echo_finish_def)
  next
    case (Raise e)
    with l c show ?thesis by (auto simp: echo_handler_def echo_finish_def)
  qed
qed

end

lemma stream_read_held:
  assumes "stream_read_into buf r = (r', Return (b, n))"
  shows "n \<le> length b \<and> concat (segs r) = take n b @ concat (segs r')"
  using assms
  by (auto simp: stream_read_into_def sr_read_def slice_assign_def Let_def split: list.splits stream_tail.splits if_splits)

interpretation tcp_tracked: conn_tracked tcp_ops "\<lambda>c. tcp_closed c \<or> \<not> wclosed (tcp_writer c)"
    "\<lambda>c. concat (segs (tcp_reader c))" "\<lambda>c. wsent (tcp_writer c)" tcp_closed
proof unfold_locales
  fix s s' :: tcp_conn and buf b :: bytes and n
  assume "op_read tcp_ops buf s = (s', Return (b, n))"
  then show "n \<le> length b \<and> concat (segs (tcp_reader s)) = take n b @ concat (segs (tcp_reader s'))"
    using stream_read_held [of buf "tcp_reader s" _ b n] by (auto simp: tcp_read_def split: if_splits prod.splits)
qed (auto simp: tcp_read_def tcp_write_def tcp_close_def sw_write_def sw_drain_def sw_close_def Let_def
    split: if_splits prod.splits option.splits)

section \<open>The server\<close>

context fifo_listener
begin

lemma echo_serve_conserves:
  "echo_serve acc arr es (l, hs) = (l', hs') \<Longrightarrow> hs' @ queued l' = hs @ queued l @ map mk (arrivals es)"
proof (induction es arbitrary: l hs)
  case (Cons e es)
  show ?case
  proof (cases e)
    case (Arrives a)
    with Cons show ?thesis by (simp add: arrive_last)
  next
    case Accept
    show ?thesis
    proof (cases "queued l")
      case Nil
      with accept_waits obtain l1 where "acc l = (l1, Blocked)" "queued l1 = []" by blast
      with Cons Accept Nil show ?thesis by (simp add: echo_accept_def)
    next
      case (Cons c q)
      with accept_first obtain l1 where "acc l = (l1, Return c)" "queued l1 = q" by blast
      with Cons.IH [of l1 "hs @ [c]"] Cons.prems Accept Cons show ?thesis by (simp add: echo_accept_def)
    qed
  qed
qed simp

end

section \<open>Properties\<close>

text \<open>C37. The echo server over TCP serves every client: after any sequence of arrivals and turns of the
  accept loop, the handlers followed by the connections still queued are those that arrived, in order,
  and the handler of a client that sent some bytes and shut down its side returns without error, with exactly these bytes on
  the wire and the connection closed, whatever segments the bytes came in.\<close>

theorem echo_serves_all:
  assumes "echo_serve tcp_accept (\<lambda>(r, w). tcp_on_connect r w) es (tcp_bind bound, []) = (l, handlers)"
  shows "handlers @ tl_queue l = map (\<lambda>(r, w). TcpConn_init r w) (arrivals es) \<and>
    (\<forall>c \<in> set handlers. \<forall>inb. tcp_link c inb [] \<longrightarrow> rtail (tcp_reader c) = Eof \<longrightarrow>
      (\<exists>c'. echo_handler ECHO_BUF tcp_ops c = Some (c', Return ()) \<and> tcp_closed c' \<and> wclosed (tcp_writer c') \<and>
        wsent (tcp_writer c') = inb))"
proof -
  have "0 < ECHO_BUF" by (simp add: ECHO_BUF_def)
  with tcp_fifo.echo_serve_conserves [OF assms] show ?thesis
    by (auto simp: tcp_bind_def dest: tcp_eof.echo_all)
qed

theorem echo_serves_all_witness:
  "\<exists>c'. echo_handler ECHO_BUF tcp_ops (toy_tcp [[1], [2, 3]]\<lparr>tcp_reader := \<lparr>segs = [[1], [2, 3]], rtail = Eof\<rparr>\<rparr>) =
     Some (c', Return ()) \<and> wsent (tcp_writer c') = [1, 2, 3]"
proof -
  let ?r = "\<lparr>segs = [[1], [2, 3]], rtail = Eof\<rparr>" and ?w = "tcp_writer (toy_tcp [])"
  let ?c = "TcpConn_init ?r ?w"
  have e: "echo_serve tcp_accept (\<lambda>(r, w). tcp_on_connect r w) [Arrives (?r, ?w), Accept] (tcp_bind (u ''h'', 1), []) =
      (tcp_bind (u ''h'', 1), [?c])"
    by (simp add: echo_accept_def tcp_accept_def tcp_on_connect_def tcp_bind_def queue_get_def)
  have "tcp_link ?c [1, 2, 3] []" "rtail (tcp_reader ?c) = Eof"
    by (simp_all add: tcp_link_def TcpConn_init_def reader_ok_def toy_tcp_def)
  moreover have "toy_tcp [[1], [2, 3]]\<lparr>tcp_reader := ?r\<rparr> = ?c" by (simp add: toy_tcp_def TcpConn_init_def)
  ultimately show ?thesis using echo_serves_all [OF e] by auto
qed

text \<open>C38. The echo handler never runs for ever, whatever the connection does: on every TCP connection, also one that
  fails while reading or writing, it returns, or has used up what arrived and waits. When it returns
  the connection is closed, and in every case what it has written is a prefix of what the connection held.\<close>

theorem echo_handler_returns:
  assumes "tcp_closed c \<or> \<not> wclosed (tcp_writer c)"
  shows "\<exists>c' r k. echo_handler bufsize tcp_ops c = Some (c', r) \<and> (r = Blocked \<or> tcp_closed c') \<and>
    wsent (tcp_writer c') = wsent (tcp_writer c) @ take k (concat (segs (tcp_reader c)))"
  by (rule tcp_tracked.echo_returns [OF assms])

theorem echo_handler_returns_witness:
  "\<exists>c' r. echo_handler 2 tcp_ops (toy_tcp [[1, 2, 3]]) = Some (c', r) \<and> (r = Blocked \<or> tcp_closed c')"
proof -
  have "tcp_closed (toy_tcp [[1, 2, 3]]) \<or> \<not> wclosed (tcp_writer (toy_tcp [[1, 2, 3]]))"
    by (simp add: toy_tcp_def TcpConn_init_def)
  from echo_handler_returns [OF this] show ?thesis by blast
qed

text \<open>The same for the server over WebTransport and over a WebSocket.\<close>

theorem wt_echo_all:
  assumes "wt_lib_ok L lk" "wt_fin_ok L lk fin" "wt_link lk (q, c) inb outb" "wt_eof c"
  shows "\<exists>q' c'. wt_echo_handler L (q, c) = Some ((q', c'), Return ()) \<and> wt_closed c' \<and>
    fin q' (wt_stream_id c') (outb @ inb)"
  using conn_eof.echo_all [OF wt_eof_stream [OF assms(1,2)] assms(3), of WT_ECHO_BUF] assms(4)
  by (auto simp: WT_ECHO_BUF_def wt_echo_handler_def)

theorem ws_echo_all:
  assumes "ws_lib_ok L lk" "ws_ends_ok L lk fin" "ws_link lk c inb outb"
  shows "\<exists>c' out. echo_handler ECHO_BUF (ws_ops L) c = Some (c', Return ()) \<and> ws_closed c' \<and>
    fin (ws_obj c') out \<and> concat out = outb @ inb"
  using conn_eof.echo_all [OF ws_eof_stream [OF assms(1,2)] assms(3), of ECHO_BUF]
  by (auto simp: ECHO_BUF_def)

end
