(* ===== verification/Store.thy ===== *)
theory Store
  imports Handshake
begin

text \<open>
  The identity file of \<^verbatim>\<open>secure/store.py\<close>: an identity encrypted under a password. Argon2id and the
  cipher are parameters, the random salt and nonce arguments; the file system is a map from paths to
  contents with the set of paths that can be written.
\<close>

section \<open>Constants and environment\<close>

definition store_MAGIC :: bytes where "store_MAGIC = map of_char ''UCID''"
definition store_VERSION :: byte where "store_VERSION = 1"
definition store_SALT_SIZE :: nat where "store_SALT_SIZE = 32"
definition store_NONCE_SIZE :: nat where "store_NONCE_SIZE = 24"
definition store_TAG_SIZE :: nat where "store_TAG_SIZE = 16"
definition store_HEADER_SIZE :: nat where
  "store_HEADER_SIZE = 4 + 1 + store_SALT_SIZE + store_NONCE_SIZE"

definition ARGON_TIME :: nat where "ARGON_TIME = 3"
definition ARGON_MEMORY :: nat where "ARGON_MEMORY = 64 * 1024"
definition ARGON_PARALLELISM :: nat where "ARGON_PARALLELISM = 4"
definition ARGON_KEY_LEN :: nat where "ARGON_KEY_LEN = 32"
definition MLDSA87_SK_SIZE :: nat where "MLDSA87_SK_SIZE = 4896"
definition MLDSA87_PK_SIZE :: nat where "MLDSA87_PK_SIZE = 2592"

lemmas store_consts = store_MAGIC_def store_VERSION_def store_SALT_SIZE_def store_NONCE_SIZE_def
  store_TAG_SIZE_def store_HEADER_SIZE_def MLDSA87_SK_SIZE_def MLDSA87_PK_SIZE_def

text \<open>\<open>hash_secret_raw\<close>: time, memory, parallelism, length, password, salt.\<close>

type_synonym argon2 = "nat \<Rightarrow> nat \<Rightarrow> nat \<Rightarrow> nat \<Rightarrow> bytes \<Rightarrow> bytes \<Rightarrow> bytes res"

record file_system =
  fs_files :: "pystr \<Rightarrow> bytes option"
  fs_writable :: "pystr \<Rightarrow> bool"

definition write_bytes :: "pystr \<Rightarrow> bytes \<Rightarrow> file_system \<Rightarrow> file_system \<times> unit res" where
  "write_bytes path data fs =
     (if fs_writable fs path then (fs\<lparr>fs_files := (fs_files fs)(path \<mapsto> data)\<rparr>, Return ())
      else (fs, Raise (Exn OSError [Str path])))"

definition read_bytes :: "pystr \<Rightarrow> file_system \<Rightarrow> bytes res" where
  "read_bytes path fs =
     (case fs_files fs path of Some data \<Rightarrow> Return data | None \<Rightarrow> Raise (Exn OSError [Str path]))"

definition derive_file_key :: "argon2 \<Rightarrow> bytes \<Rightarrow> bytes \<Rightarrow> bytes res" where
  "derive_file_key H password salt =
     H ARGON_TIME ARGON_MEMORY ARGON_PARALLELISM ARGON_KEY_LEN password salt"

section \<open>Saving and loading\<close>

definition save_identity ::
  "aead \<Rightarrow> argon2 \<Rightarrow> bytes \<Rightarrow> bytes \<Rightarrow> pystr \<Rightarrow> identity \<Rightarrow> bytes \<Rightarrow> file_system \<Rightarrow>
     file_system \<times> unit res" where
  "save_identity A H salt nonce path i password fs =
     (let plaintext = id_sk i @ id_pk i in
      case derive_file_key H password salt of
        Raise e \<Rightarrow> (fs, Raise e)
      | Blocked \<Rightarrow> (fs, Blocked)
      | Return key \<Rightarrow>
          if \<not> cipher_new A key nonce then
            (fs, Raise (Exn ValueError [Txt ''ChaCha20_Poly1305.new'']))
          else
            (let (ciphertext, tag) = encrypt_and_digest A key nonce plaintext;
                 header = store_MAGIC @ [store_VERSION] @ salt @ nonce;
                 data = header @ ciphertext @ tag
             in write_bytes path data fs))"

definition load_bytes :: "aead \<Rightarrow> argon2 \<Rightarrow> bytes \<Rightarrow> bytes \<Rightarrow> identity res" where
  "load_bytes A H password data =
     (if length data < store_HEADER_SIZE
      then Raise (Exn ValueError [Txt ''file too short: '', Num (length data), Txt '' bytes''])
      else if slice 0 4 data \<noteq> store_MAGIC
      then Raise (Exn ValueError [Txt ''invalid magic: '', Raw (slice 0 4 data)])
      else if data ! 4 \<noteq> store_VERSION
      then Raise (Exn ValueError [Txt ''unsupported version: '', Num (unat (data ! 4))])
      else
        let salt = slice 5 (5 + store_SALT_SIZE) data;
            nonce = slice (5 + store_SALT_SIZE) store_HEADER_SIZE data;
            payload = drop store_HEADER_SIZE data in
        if length payload < store_TAG_SIZE
        then Raise (Exn ValueError [Txt ''file too short: no tag''])
        else
          let ciphertext = slice_but_last store_TAG_SIZE payload;
              tag = slice_last store_TAG_SIZE payload in
          bind_res (derive_file_key H password salt) (\<lambda>key.
            if \<not> cipher_new A key nonce then Raise (Exn ValueError [Txt ''ChaCha20_Poly1305.new''])
            else case decrypt_and_verify A key nonce ciphertext tag of
              None \<Rightarrow> Raise (Exn ValueError [Txt ''decrypt failed: wrong password or corrupted file''])
            | Some plaintext \<Rightarrow>
                if length plaintext \<noteq> MLDSA87_SK_SIZE + MLDSA87_PK_SIZE
                then Raise (Exn ValueError [Txt ''unexpected plaintext size: got '', Num (length plaintext),
                       Txt '', want '', Num (MLDSA87_SK_SIZE + MLDSA87_PK_SIZE)])
                else Return \<lparr>id_pk = drop MLDSA87_SK_SIZE plaintext,
                             id_sk = take MLDSA87_SK_SIZE plaintext\<rparr>))"

definition load_identity :: "aead \<Rightarrow> argon2 \<Rightarrow> pystr \<Rightarrow> bytes \<Rightarrow> file_system \<Rightarrow> identity res" where
  "load_identity A H path password fs =
     bind_res (read_bytes path fs) (load_bytes A H password)"

section \<open>The file\<close>

definition identity_file :: "aead \<Rightarrow> bytes \<Rightarrow> bytes \<Rightarrow> bytes \<Rightarrow> bytes \<Rightarrow> bytes" where
  "identity_file A key salt nonce p = store_MAGIC @ [store_VERSION] @ salt @ nonce @ seal A key nonce p"

definition argon2_ok :: "argon2 \<Rightarrow> bool" where
  "argon2_ok H \<longleftrightarrow> (\<forall>t m p n pw salt. 8 \<le> length salt \<longrightarrow>
     (\<exists>key. H t m p n pw salt = Return key \<and> length key = n))"

lemma argon2_ok_key:
  assumes "argon2_ok H" "derive_file_key H password salt = Return key" "8 \<le> length salt"
  shows "length key = 32"
proof -
  obtain key' where "derive_file_key H password salt = Return key'" "length key' = 32"
    using assms(1,3) unfolding argon2_ok_def derive_file_key_def ARGON_KEY_LEN_def by blast
  with assms(2) show ?thesis by simp
qed

lemma length_MAGIC: "length store_MAGIC = 4"
  by (simp add: store_MAGIC_def)

text \<open>A file of at least the header's size splits into its fields, and only such a file passes the
  header checks.\<close>

lemma load_bytes_fields:
  assumes "length salt = 32" "length nonce = 24" "16 \<le> length pay"
  shows "load_bytes A H password (store_MAGIC @ [store_VERSION] @ salt @ nonce @ pay) =
    bind_res (derive_file_key H password salt) (\<lambda>key.
      if \<not> cipher_new A key nonce then Raise (Exn ValueError [Txt ''ChaCha20_Poly1305.new''])
      else case decrypt_and_verify A key nonce (slice_but_last 16 pay) (slice_last 16 pay) of
        None \<Rightarrow> Raise (Exn ValueError [Txt ''decrypt failed: wrong password or corrupted file''])
      | Some p \<Rightarrow>
          if length p \<noteq> 7488
          then Raise (Exn ValueError [Txt ''unexpected plaintext size: got '', Num (length p),
                 Txt '', want '', Num 7488])
          else Return \<lparr>id_pk = drop 4896 p, id_sk = take 4896 p\<rparr>)"
proof -
  let ?d = "store_MAGIC @ [store_VERSION] @ salt @ nonce @ pay"
  have total: "(4896 :: nat) + 2592 = 7488" by simp
  have "length ?d = 61 + length pay" "slice 0 4 ?d = store_MAGIC" "?d ! 4 = store_VERSION"
    "slice 5 37 ?d = salt" "slice 37 61 ?d = nonce" "drop 61 ?d = pay"
    using assms by (simp_all add: length_MAGIC slice_def nth_append)
  then show ?thesis
    using assms unfolding load_bytes_def MLDSA87_SK_SIZE_def MLDSA87_PK_SIZE_def total
    by (simp add: store_HEADER_SIZE_def store_SALT_SIZE_def store_NONCE_SIZE_def store_TAG_SIZE_def)
qed

lemma load_bytes_shape:
  assumes "load_bytes A H password data = Return i"
  obtains salt nonce pay where "data = store_MAGIC @ [store_VERSION] @ salt @ nonce @ pay"
    "length salt = 32" "length nonce = 24" "16 \<le> length pay"
proof -
  have l: "61 \<le> length data" and m: "take 4 data = store_MAGIC" and v: "data ! 4 = store_VERSION"
    and t: "16 \<le> length (drop 61 data)"
    using assms
    by (auto simp: load_bytes_def Let_def py_slice store_HEADER_SIZE_def store_SALT_SIZE_def
        store_NONCE_SIZE_def store_TAG_SIZE_def split: if_splits)
  have "data = take 4 data @ [data ! 4] @ take 32 (drop 5 data) @ take 24 (drop 37 data) @ drop 61 data"
  proof -
    have "drop 4 data = data ! 4 # drop 5 data"
      using l Cons_nth_drop_Suc [of 4 data] by (simp add: eval_nat_numeral)
    moreover have "drop 5 data = take 32 (drop 5 data) @ drop 37 data"
      using append_take_drop_id [of 32 "drop 5 data"] by simp
    moreover have "drop 37 data = take 24 (drop 37 data) @ drop 61 data"
      using append_take_drop_id [of 24 "drop 37 data"] by simp
    ultimately show ?thesis by (metis append_Cons append_Nil append_take_drop_id)
  qed
  with l m v t show thesis
    by (intro that [of "take 32 (drop 5 data)" "take 24 (drop 37 data)" "drop 61 data"]) simp_all
qed

lemma save_identity_Return:
  assumes "save_identity A H salt nonce path i password fs = (fs', Return ())"
  obtains key where "derive_file_key H password salt = Return key" "cipher_new A key nonce"
    "fs' = fs\<lparr>fs_files := (fs_files fs)(path \<mapsto> identity_file A key salt nonce (id_sk i @ id_pk i))\<rparr>"
  using assms
  by (auto simp: save_identity_def write_bytes_def identity_file_def seal_def split_beta Let_def
      split: res.splits if_splits)

lemma load_saved:
  assumes "aead_ok A" "argon2_ok H" "length salt = 32" "length nonce = 24"
    and "save_identity A H salt nonce path i password fs = (fs', Return ())"
  shows "load_identity A H path password fs' =
      (if length (id_sk i) + length (id_pk i) = 7488
       then Return \<lparr>id_pk = drop 4896 (id_sk i @ id_pk i), id_sk = take 4896 (id_sk i @ id_pk i)\<rparr>
       else Raise (Exn ValueError [Txt ''unexpected plaintext size: got '',
              Num (length (id_sk i) + length (id_pk i)), Txt '', want '', Num 7488]))"
proof -
  obtain key where k: "derive_file_key H password salt = Return key" "cipher_new A key nonce"
    and fs': "fs' = fs\<lparr>fs_files := (fs_files fs)(path \<mapsto> identity_file A key salt nonce (id_sk i @ id_pk i))\<rparr>"
    using save_identity_Return [OF assms(5)] .
  have "length key = 32"
    using argon2_ok_key [OF assms(2) k(1)] assms(3) by simp
  note a = aead_okD(2,3) [OF assms(1) this assms(4)]
  show ?thesis
    using load_bytes_fields [OF assms(3,4), of "seal A key nonce (id_sk i @ id_pk i)"] a k
    by (simp add: load_identity_def read_bytes_def fs' identity_file_def)
qed

section \<open>Properties\<close>


definition toy_argon2 :: argon2 where
  "toy_argon2 t m p n pw salt = Return (replicate n 7)"


text \<open>C22. Loading returns an identity exactly when the file is the magic number, version 1, a 32-byte
  salt, a 24-byte nonce and a payload that the cipher opens, under the key derived from the password
  and that salt, to 7488 bytes, which are the two keys.\<close>

theorem load_accepts_exactly:
  "load_identity A H path password fs = Return i \<longleftrightarrow>
     (\<exists>salt nonce pay key p.
        fs_files fs path = Some (store_MAGIC @ [store_VERSION] @ salt @ nonce @ pay) \<and>
        length salt = 32 \<and> length nonce = 24 \<and> 16 \<le> length pay \<and>
        derive_file_key H password salt = Return key \<and> cipher_new A key nonce \<and>
        decrypt_and_verify A key nonce (slice_but_last 16 pay) (slice_last 16 pay) = Some p \<and>
        length p = 7488 \<and> i = \<lparr>id_pk = drop 4896 p, id_sk = take 4896 p\<rparr>)"
    (is "?L \<longleftrightarrow> ?R")
proof
  assume ?L
  then obtain data where d: "fs_files fs path = Some data" "load_bytes A H password data = Return i"
    by (auto simp: load_identity_def read_bytes_def res_simps split: option.splits)
  from d(2) obtain salt nonce pay where s: "data = store_MAGIC @ [store_VERSION] @ salt @ nonce @ pay"
    "length salt = 32" "length nonce = 24" "16 \<le> length pay"
    by (rule load_bytes_shape)
  from d(2) [unfolded s(1) load_bytes_fields [OF s(2-4)]] obtain key p where
    "derive_file_key H password salt = Return key" "cipher_new A key nonce"
    "decrypt_and_verify A key nonce (slice_but_last 16 pay) (slice_last 16 pay) = Some p"
    "length p = 7488" "i = \<lparr>id_pk = drop 4896 p, id_sk = take 4896 p\<rparr>"
    by (auto simp: res_simps split: if_splits option.splits)
  with s d(1) show ?R by blast
next
  assume ?R
  then obtain salt nonce pay key p where
    r: "fs_files fs path = Some (store_MAGIC @ [store_VERSION] @ salt @ nonce @ pay)"
      "length salt = 32" "length nonce = 24" "16 \<le> length pay"
      "derive_file_key H password salt = Return key" "cipher_new A key nonce"
      "decrypt_and_verify A key nonce (slice_but_last 16 pay) (slice_last 16 pay) = Some p"
      "length p = 7488" "i = \<lparr>id_pk = drop 4896 p, id_sk = take 4896 p\<rparr>"
    by blast
  then show ?L
    using load_bytes_fields [OF r(2-4)]
    by (simp add: load_identity_def read_bytes_def)
qed

end
