(* ===== verification/Harness.thy ===== *)
theory Harness
  imports Echo Envelope Store "HOL-Library.Sublist"
begin

text \<open>
  The part of the interoperability tests under \<^verbatim>\<open>uniconn-tests\<close> that computes: the echo clients of
  \<^verbatim>\<open>runners/run_go_python.py\<close> and \<^verbatim>\<open>runners/run_e2ee.py\<close>, the wait for the Go server (\<^verbatim>\<open>conftest.py\<close>), the supervised processes of \<^verbatim>\<open>runners/run_p2p_cross.py\<close> and the identity helpers of
  \<^verbatim>\<open>runners/run_store_interop.py\<close>.

  A child process is known by the lines it prints. Where the test polls it against a deadline the
  model takes what happens during each poll as an argument, one element per poll that starts before the deadline.
\<close>

section \<open>Echo clients\<close>

text \<open>The short test: write, one read into 1024 bytes, compare, close. A failing \<open>assert\<close> leaves the connection open.\<close>

definition assert_that :: "bool \<Rightarrow> unit res" where
  "assert_that b = (if b then Return () else Raise (Exn AssertionError []))"

definition echo_once :: "'s conn_ops \<Rightarrow> bytes \<Rightarrow> 's \<Rightarrow> 's \<times> unit res" where
  "echo_once ops data s =
     res_bind (op_write ops data s) (\<lambda>s m.
     res_bind (op_read ops (bytearray 1024) s) (\<lambda>s (buf, n).
     res_bind (lift_res (assert_that (take n buf = data)) s) (\<lambda>s _. op_close ops s)))"

text \<open>The large test: reads until as many bytes as were sent have come back, or the end of the stream.\<close>

partial_function (option) echo_collect :: "'s conn_ops \<Rightarrow> nat \<Rightarrow> bytes \<Rightarrow> bytes \<Rightarrow> 's \<Rightarrow> ('s \<times> bytes res) option" where
  "echo_collect ops want received buf s =
     (if length received < want
      then (case op_read ops buf s of
              (s, Return (buf, n)) \<Rightarrow>
                if n = 0 then Some (s, Return received)
                else echo_collect ops want (received @ take n buf) buf s
            | (s, Raise e) \<Rightarrow> Some (s, Raise e)
            | (s, Blocked) \<Rightarrow> Some (s, Blocked))
      else Some (s, Return received))"

definition echo_large :: "nat \<Rightarrow> 's conn_ops \<Rightarrow> bytes \<Rightarrow> 's \<Rightarrow> ('s \<times> unit res) option" where
  "echo_large bufsize ops data s =
     (case op_write ops data s of
        (s, Return m) \<Rightarrow>
          (case echo_collect ops (length data) [] (bytearray bufsize) s of
             None \<Rightarrow> None
           | Some x \<Rightarrow> Some (res_bind x (\<lambda>s received.
               res_bind (lift_res (assert_that (received = data)) s) (\<lambda>s _. op_close ops s))))
      | (s, Raise e) \<Rightarrow> Some (s, Raise e)
      | (s, Blocked) \<Rightarrow> Some (s, Blocked))"

definition LARGE :: bytes where
  "LARGE = concat (replicate 256 (map of_nat [0..<256]))"

text \<open>The tests, each with the network it dials through; the result is the outcome of the test.\<close>

definition run_test :: "'s res \<Rightarrow> ('s \<Rightarrow> ('s \<times> unit res) option) \<Rightarrow> unit res option" where
  "run_test dialed body =
     (case dialed of Return s \<Rightarrow> map_option snd (body s) | Raise e \<Rightarrow> Some (Raise e) | Blocked \<Rightarrow> Some Blocked)"

definition GO_TCP_PORT :: nat where "GO_TCP_PORT = 19001"
definition GO_WS_PORT :: nat where "GO_WS_PORT = 19002"
definition GO_QUIC_PORT :: nat where "GO_QUIC_PORT = 19003"

definition test_go_tcp_echo :: "(pystr \<Rightarrow> int \<Rightarrow> (stream_reader \<times> stream_writer) res) \<Rightarrow> unit res option" where
  "test_go_tcp_echo open_connection =
     run_test (tcp_dial open_connection (host_port (u ''127.0.0.1'') GO_TCP_PORT))
       (\<lambda>c. Some (echo_once tcp_ops (map of_char ''hello from Python TCP!'') c))"

definition test_go_tcp_large :: "(pystr \<Rightarrow> int \<Rightarrow> (stream_reader \<times> stream_writer) res) \<Rightarrow> unit res option" where
  "test_go_tcp_large open_connection =
     run_test (tcp_dial open_connection (host_port (u ''127.0.0.1'') GO_TCP_PORT)) (echo_large 4096 tcp_ops LARGE)"

definition ws_echo_url :: pystr where
  "ws_echo_url = u ''ws://127.0.0.1:'' @ dec_digits GO_WS_PORT @ u ''/echo''"

definition test_go_ws_echo :: "'w ws_lib \<Rightarrow> (pystr \<Rightarrow> 'w res) \<Rightarrow> unit res option" where
  "test_go_ws_echo L connect =
     run_test (ws_dial L connect ws_echo_url)
       (\<lambda>c. Some (echo_once (ws_ops L) (map of_char ''hello from Python WebSocket!'') c))"

definition test_go_ws_large :: "'w ws_lib \<Rightarrow> (pystr \<Rightarrow> 'w res) \<Rightarrow> unit res option" where
  "test_go_ws_large L connect =
     run_test (ws_dial L connect ws_echo_url) (echo_large (256 * 1024) (ws_ops L) LARGE)"

definition test_go_quic_echo :: "quic_net \<Rightarrow> unit res option" where
  "test_go_quic_echo N =
     run_test (quic_dial N None False (host_port (u ''127.0.0.1'') GO_QUIC_PORT))
       (\<lambda>c. Some (echo_once quic_ops (map of_char ''hello from Python QUIC!'') c))"

definition test_go_quic_large :: "quic_net \<Rightarrow> unit res option" where
  "test_go_quic_large N =
     run_test (quic_dial N None False (host_port (u ''127.0.0.1'') GO_QUIC_PORT)) (echo_large (256 * 1024) quic_ops LARGE)"

text \<open>The encrypted tests of \<^verbatim>\<open>runners/run_e2ee.py\<close>: handshake with the server's fingerprint, bind, and the
  short test on the encrypted connection. Over a WebSocket the two sides first exchange their fingerprints.\<close>

definition e2ee_echo ::
  "hs_env \<Rightarrow> aead \<Rightarrow> (nat \<Rightarrow> int) \<Rightarrow> 's conn_ops \<Rightarrow> nat \<Rightarrow> nat \<Rightarrow> identity \<Rightarrow> bytes \<Rightarrow> bytes \<Rightarrow> 's \<Rightarrow> unit res" where
  "e2ee_echo E A now ops kc sc py_identity server_fp data conn =
     (case handshake_initiator E ops kc sc py_identity server_fp None conn of
        (conn, Return secure_conn) \<Rightarrow> snd (echo_once (secure_ops A now ops) data (sc_bind conn secure_conn))
      | (conn, Raise e) \<Rightarrow> Raise e
      | (conn, Blocked) \<Rightarrow> Blocked)"

definition test_e2ee_tcp_echo ::
  "hs_env \<Rightarrow> aead \<Rightarrow> (nat \<Rightarrow> int) \<Rightarrow> (pystr \<Rightarrow> int \<Rightarrow> (stream_reader \<times> stream_writer) res) \<Rightarrow> nat \<Rightarrow> nat \<Rightarrow>
     identity \<Rightarrow> bytes \<Rightarrow> pystr \<Rightarrow> unit res" where
  "test_e2ee_tcp_echo E A now open_connection kc sc py_identity server_fp tcp_port =
     bind_res (tcp_dial open_connection (u ''127.0.0.1:'' @ tcp_port))
       (e2ee_echo E A now tcp_ops kc sc py_identity server_fp (map of_char ''hello, E2EE over TCP!''))"

definition test_e2ee_ws_echo ::
  "hs_env \<Rightarrow> aead \<Rightarrow> (nat \<Rightarrow> int) \<Rightarrow> 'w ws_lib \<Rightarrow> (pystr \<Rightarrow> pystr \<Rightarrow> 'w res) \<Rightarrow> nat \<Rightarrow> nat \<Rightarrow> identity \<Rightarrow> bytes \<Rightarrow> pystr \<Rightarrow> unit res" where
  "test_e2ee_ws_echo E A now L connect kc sc py_identity server_fp ws_port =
     bind_res (connect (u ''ws://127.0.0.1:'' @ ws_port @ u ''/ws'') (u ''http://127.0.0.1:'' @ ws_port)) (\<lambda>ws.
       case res_bind (ws_write L (fingerprint E py_identity) (WsConn_init ws None None)) (\<lambda>conn n. ws_read L (bytearray 64) conn) of
         (conn, Return (fp_buf, n)) \<Rightarrow>
           e2ee_echo E A now (ws_ops L) kc sc py_identity server_fp (map of_char ''hello, E2EE over WebSocket!'') conn
       | (conn, Raise e) \<Rightarrow> Raise e
       | (conn, Blocked) \<Rightarrow> Blocked)"

section \<open>Waiting for a server\<close>

text \<open>\<^verbatim>\<open>str.strip\<close> and \<^verbatim>\<open>str.rstrip\<close> remove Unicode white space.\<close>

definition py_space :: "nat \<Rightarrow> bool" where
  "py_space c \<longleftrightarrow> ascii_space c \<or> c \<in> {0x85, 0xA0, 0x1680, 0x2028, 0x2029, 0x202F, 0x205F, 0x3000} \<or> (0x2000 \<le> c \<and> c \<le> 0x200A)"

definition py_rstrip :: "pystr \<Rightarrow> pystr" where
  "py_rstrip s = rev (dropWhile py_space (rev s))"

definition py_strip :: "pystr \<Rightarrow> pystr" where
  "py_strip s = py_rstrip (dropWhile py_space s)"

text \<open>The Go server also prints the hash of its certificate, kept in a variable of the module.\<close>

fun go_echo_server :: "exn \<Rightarrow> pystr list \<Rightarrow> pystr option \<Rightarrow> pystr option \<times> unit res" where
  "go_echo_server not_ready [] cert = (cert, Raise not_ready)"
| "go_echo_server not_ready (l # ls) cert =
     (let line = py_strip l;
          cert = (if take 10 line = u ''CERT_HASH:'' then Some (drop 10 line) else cert)
      in if line = u ''READY'' then (cert, Return ()) else go_echo_server not_ready ls cert)"

section \<open>Supervised processes\<close>

record managed_process =
  mp_events :: "json list"
  mp_logs :: "pystr list"
  mp_exit :: "int option"
  mp_reader_alive :: bool

text \<open>A process just started, with the thread that reads its output.\<close>

definition mp_new :: managed_process where
  "mp_new = \<lparr>mp_events = [], mp_logs = [], mp_exit = None, mp_reader_alive = True\<rparr>"

definition is_dict :: "json \<Rightarrow> bool" where
  "is_dict v = (case v of JObj _ \<Rightarrow> True | _ \<Rightarrow> False)"

definition mp_read :: "pystr \<Rightarrow> managed_process \<Rightarrow> managed_process" where
  "mp_read line p =
     (let logs = mp_logs p @ [py_rstrip line];
          p = p\<lparr>mp_logs := drop (length logs - 50) logs\<rparr>
      in case json_loads line of
           Return event \<Rightarrow> if is_dict event then p\<lparr>mp_events := mp_events p @ [event]\<rparr> else p
         | _ \<Rightarrow> p)"

text \<open>What happens during one turn of the waiting loop: the lines the reader thread handles while the queue
  is watched, those it handles between the expiry of that watch and the look at the process, and the
  state of the process and of the thread at that look.\<close>

record turn =
  t_lines :: "pystr list"
  t_late :: "pystr list"
  t_exit :: "int option"
  t_alive :: bool

text \<open>The message of the error shows the event; here it is shown as JSON.\<close>

definition assert_message :: "json \<Rightarrow> pystr \<Rightarrow> unit res" where
  "assert_message event expected =
     bind_res (json_get (u ''event'') JNull event) (\<lambda>kind.
     bind_res (json_get (u ''data'') JNull event) (\<lambda>data.
       if kind \<noteq> JStr (u ''msg_received'') \<or> data \<noteq> JStr expected
       then Raise (Exn AssertionError [Txt ''expected '', Str expected, Txt '', got '', Str (json_dump event)])
       else Return ()))"

definition event_matches :: "pystr \<Rightarrow> (json \<Rightarrow> bool) \<Rightarrow> json \<Rightarrow> bool" where
  "event_matches kind predicate event \<longleftrightarrow> json_get (u ''event'') JNull event = Return (JStr kind) \<and> predicate event"

text \<open>The log at the end of both error messages.\<close>

definition mp_log_text :: "managed_process \<Rightarrow> pystr" where
  "mp_log_text p = u '':'' @ concat (map (\<lambda>l. 10 # l) (if mp_logs p = [] then [[]] else mp_logs p))"

definition mp_exited :: "pystr \<Rightarrow> pystr \<Rightarrow> managed_process \<Rightarrow> exn" where
  "mp_exited name kind p =
     Exn RuntimeError [Str name, Txt '' exited ('', Str (case mp_exit p of Some c \<Rightarrow> dump_int c | None \<Rightarrow> u ''None''),
       Txt '') before '', Str kind, Str (mp_log_text p)]"

definition mp_timeout :: "pystr \<Rightarrow> pystr \<Rightarrow> pystr \<Rightarrow> managed_process \<Rightarrow> exn" where
  "mp_timeout name kind timeout p =
     Exn TimeoutError [Str name, Txt '' did not report '', Str kind, Txt '' within '', Str timeout, Txt ''s'', Str (mp_log_text p)]"

fun wait_event ::
  "pystr \<Rightarrow> pystr \<Rightarrow> pystr \<Rightarrow> (json \<Rightarrow> bool) \<Rightarrow> turn list \<Rightarrow> managed_process \<Rightarrow> managed_process \<times> json res" where
  "wait_event name kind timeout predicate [] p = (p, Raise (mp_timeout name kind timeout p))"
| "wait_event name kind timeout predicate (t # ts) p =
     (let p = fold mp_read (t_lines t) p in
      case mp_events p of
        event # rest \<Rightarrow>
          (let p = p\<lparr>mp_events := rest\<rparr> in
           if event_matches kind predicate event then (p, Return event)
           else wait_event name kind timeout predicate ts p)
      | [] \<Rightarrow>
          (let p = (fold mp_read (t_late t) p)\<lparr>mp_exit := t_exit t, mp_reader_alive := t_alive t\<rparr> in
           if mp_exit p \<noteq> None \<and> \<not> mp_reader_alive p then (p, Raise (mp_exited name kind p))
           else wait_event name kind timeout predicate ts p))"

section \<open>Identity helpers\<close>

definition STORE_PASSWORD :: bytes where "STORE_PASSWORD = map of_char ''interop-test-password''"

definition run_python_save ::
  "hs_env \<Rightarrow> aead \<Rightarrow> argon2 \<Rightarrow> nat \<Rightarrow> bytes \<Rightarrow> bytes \<Rightarrow> pystr \<Rightarrow> file_system \<Rightarrow> file_system \<times> pystr res" where
  "run_python_save E A H coins salt nonce path fs =
     res_bind (lift_res (identity_generate E coins) fs) (\<lambda>fs identity.
     res_bind (save_identity A H salt nonce path identity STORE_PASSWORD fs) (\<lambda>fs _.
       (fs, Return (bytes_hex (id_pk identity)))))"

definition run_python_load :: "aead \<Rightarrow> argon2 \<Rightarrow> pystr \<Rightarrow> file_system \<Rightarrow> pystr res" where
  "run_python_load A H path fs =
     bind_res (load_identity A H path STORE_PASSWORD fs) (\<lambda>identity. Return (bytes_hex (id_pk identity)))"

section \<open>The echo clients against any echo\<close>

context conn_stream
begin

lemma echo_collect_all:
  assumes "link s data outb" "buf \<noteq> []" "length received + length data = want"
  shows "\<exists>s'. echo_collect ops want received buf s = Some (s', Return (received @ data)) \<and> link s' [] outb"
  using assms
proof (induction "length data" arbitrary: s data received buf rule: less_induct)
  case less
  show ?case
  proof (cases "data = []")
    case True
    with less.prems show ?thesis by (simp add: echo_collect.simps [of ops want received buf s])
  next
    case False
    obtain k s1 where k: "0 < k" "k \<le> length buf" "k \<le> length data"
      "op_read ops buf s = (s1, Return (take k data @ drop k buf, k))" "link s1 (drop k data) outb"
      using read_someE [OF less.prems(1) False less.prems(2)] by metis
    have "length received < want" using False less.prems(3) by (cases data) auto
    then have "echo_collect ops want received buf s =
        echo_collect ops want (received @ take k data) (take k data @ drop k buf) s1"
      using k by (simp add: echo_collect.simps [of ops want received buf s] min_absorb2)
    moreover have "\<exists>s'. echo_collect ops want (received @ take k data) (take k data @ drop k buf) s1 =
        Some (s', Return ((received @ take k data) @ drop k data)) \<and> link s' [] outb"
      by (rule less.hyps [OF _ k(5)]) (use k less.prems in auto)
    ultimately show ?thesis by simp
  qed
qed

text \<open>The large test ends and gets as far as closing the connection, whatever pieces the echo comes in.\<close>

lemma echo_large_passes:
  assumes "link s data outb" "wok s [length data]" "0 < bufsize"
  shows "\<exists>s'. echo_large bufsize ops data s = Some (op_close ops s') \<and> link s' [] (outb @ data)"
proof -
  obtain s1 where s1: "op_write ops data s = (s1, Return (length data))" "link s1 data (outb @ data)"
    using write_allE [OF assms(1,2)] by blast
  have "bytearray bufsize \<noteq> []" using assms(3) by simp
  from echo_collect_all [OF s1(2) this, of "[]" "length data"] obtain s2 where
    "echo_collect ops (length data) [] (bytearray bufsize) s1 = Some (s2, Return data)" "link s2 [] (outb @ data)" by auto
  with s1 show ?thesis by (auto simp: echo_large_def assert_that_def lift_res_def)
qed

end

lemma fresh_tcp_link:
  "reader_ok r \<Longrightarrow> \<not> wclosed w \<Longrightarrow> wlost w = None \<Longrightarrow> tcp_link (TcpConn_init r w) (concat (segs r)) (wsent w)"
  by (simp add: tcp_link_def TcpConn_init_def)

lemma dial_go_tcp:
  "tcp_dial open_connection (host_port (u ''127.0.0.1'') GO_TCP_PORT) =
     bind_res (open_connection (u ''127.0.0.1'') 19001) (\<lambda>(r, w). Return (TcpConn_init r w))"
  by (simp add: tcp_dial_def split_address_host_port GO_TCP_PORT_def)

text \<open>The large test over TCP passes against every server that sends back what it got, however the network cuts the echo into segments.\<close>

theorem go_tcp_large_passes:
  assumes "open_connection (u ''127.0.0.1'') 19001 = Return (r, w)"
    and "reader_ok r" "concat (segs r) = LARGE" "\<not> wclosed w" "wlost w = None"
  shows "test_go_tcp_large open_connection = Some (Return ())"
proof -
  have "tcp_link (TcpConn_init r w) LARGE (wsent w)" using fresh_tcp_link [of r w] assms(2-5) by simp
  from tcp.echo_large_passes [OF this, of 4096] obtain c where
    "echo_large 4096 tcp_ops LARGE (TcpConn_init r w) = Some (tcp_close c)" by auto
  then show ?thesis
    using assms(1) by (simp add: test_go_tcp_large_def run_test_def dial_go_tcp tcp_close_def)
qed

text \<open>The short test does not: it compares a single read with the whole text, so a correct echo that arrives in two
  segments fails it.\<close>

theorem go_tcp_echo_first_segment:
  assumes "open_connection (u ''127.0.0.1'') 19001 = Return (\<lparr>segs = seg # rest, rtail = t\<rparr>, w)"
    and "concat (seg # rest) = map of_char ''hello from Python TCP!''" "seg \<noteq> []" "\<not> wclosed w" "wlost w = None"
  shows "test_go_tcp_echo open_connection =
    Some (if seg = map of_char ''hello from Python TCP!'' then Return () else Raise (Exn AssertionError []))"
proof -
  let ?data = "map of_char ''hello from Python TCP!'' :: bytes"
  have "length (concat (seg # rest)) = 22" unfolding assms(2) by simp
  then have l: "length seg \<le> 1024" by simp
  have r: "stream_read_into (bytearray 1024) \<lparr>segs = seg # rest, rtail = t\<rparr> =
      (\<lparr>segs = rest, rtail = t\<rparr>, Return (seg @ drop (length seg) (bytearray 1024), length seg))"
    using l assms(3) by (simp add: stream_read_into_def sr_read_def slice_assign_def Let_def)
  show ?thesis
    using assms(1,4,5) r
    by (simp add: test_go_tcp_echo_def run_test_def dial_go_tcp echo_once_def TcpConn_init_def tcp_write_def tcp_read_def
        tcp_close_def sw_write_def sw_drain_def Let_def assert_that_def lift_res_def)
qed

text \<open>On an encrypted connection the same short test cannot fail that way: an answer is one frame, and a read waits for the
  whole frame. It passes against every server that keeps the protocol, whatever the segments.\<close>

lemma honest_server:
  assumes "env_ok E" "identity_generate E gi = Return i" "identity_generate E gr = Return r"
  obtains K h body m ss where "kem_backend E = Some K" "blake3_ok (blake3 E)" "initiator_hello E K kc sc i = Return (frame h)"
    "responder_reply E K kr sr r (fst (kem_keypair K kc)) = Return (frame body, ss)" "length body \<le> MAX_MESSAGE_SIZE"
    "unmarshal_hello body = Return m" "check_hello E MSG_HELLO_REPLY ''HELLO_REPLY'' (fingerprint E r) None m = Return ()"
    "kem_decrypt K (snd (kem_keypair K kc)) (payload m) = Return ss"
proof -
  obtain K where K: "kem_backend E = Some K" and b3: "blake3_ok (blake3 E)" using assms(1) by (auto simp: env_ok_def)
  obtain h where h: "initiator_hello E K kc sc i = Return (frame h)" using honest_hello [OF assms(1,2) K] by blast
  obtain body m ss where rr: "responder_reply E K kr sr r (fst (kem_keypair K kc)) = Return (frame body, ss)"
    "length body = 8794" "unmarshal_hello body = Return m" "kem_decrypt K (snd (kem_keypair K kc)) (payload m) = Return ss"
    "check_hello E MSG_HELLO_REPLY ''HELLO_REPLY'' (fingerprint E r) None m = Return ()"
    using honest_reply [OF assms(1,3) K] by blast
  from that [OF K b3 h rr(1) _ rr(3,5,4)] rr(2) show thesis by (simp add: MAX_MESSAGE_SIZE_def)
qed

context conn_stream
begin

lemma e2ee_echo_closes:
  assumes A: "aead_ok A" "blake3_ok (blake3 E)" "kem_backend E = Some K" "initiator_hello E K kc sc i = Return hello"
    and b: "length body \<le> MAX_MESSAGE_SIZE" "unmarshal_hello body = Return m"
      "check_hello E MSG_HELLO_REPLY ''HELLO_REPLY'' fp None m = Return ()"
      "kem_decrypt K (snd (kem_keypair K kc)) (payload m) = Return ss"
    and l: "link s (frame body @ data_frames A (responder_key (derive_keys E ss)) (responder_nonce_pfx (derive_keys E ss)) 0 [(ts, data)]) out"
    and d: "ts < 2 ^ 32" "data \<noteq> []" "length data \<le> 1024" and w: "\<And>ns s. wok s ns"
  shows "\<exists>s'. e2ee_echo E A now ops kc sc i fp data s = snd (op_close ops s')"
proof -
  let ?keys = "derive_keys E ss"
  obtain s1 where s1: "handshake_initiator E ops kc sc i fp None s = (s1, Return (sc_bind s1 (SecureConn_init ?keys True)))"
    "link s1 (data_frames A (responder_key ?keys) (responder_nonce_pfx ?keys) 0 [(ts, data)]) (out @ hello)"
    using initiator_completes [OF l b(1) w A(3,4) b(2-4)] by blast
  let ?c = "sc_bind s1 (SecureConn_init ?keys True)"
  have l1: "link s1 (data_frames A (recv_key ?c) (recv_pfx ?c) 0 [(ts, data)]) (out @ hello)"
    using s1(2) by (simp add: sc_bind_def SecureConn_init_def)
  have d': "msg_ok (ts, data)" "length data + 29 < 256 ^ 4" "bytearray 1024 \<noteq> []" "length data \<le> length (bytearray 1024)"
    using d by (simp_all add: msg_ok_def MAX_MESSAGE_SIZE_def)
  obtain c2 c3 s3 where x: "sc_write A now ops data ?c = (c2, Return (length data))"
    "sc_read A ops (bytearray 1024) c2 = (c3, Return (data @ drop (length data) (bytearray 1024), length data))" "inner_conn c3 = Some s3"
    and f: "\<not> sc_closed c3"
    using fresh_exchange [OF A(1,2) refl l1 d'(1) d(2) d'(2) w d'(3,4), of now] by blast
  have "snd (sc_close ops c3) = snd (op_close ops s3)" using x(3) f by (simp add: sc_close_def split_beta)
  moreover have "sc_bind s1 ?c = ?c" by (simp add: sc_bind_def)
  ultimately show ?thesis
    using s1(1) x by (auto simp: e2ee_echo_def echo_once_def assert_that_def lift_res_def)
qed

end

lemma local_address: "u ''127.0.0.1:'' @ dec_digits port = host_port (u ''127.0.0.1'') port"
  by (simp add: host_port_def u_def)

theorem e2ee_tcp_passes:
  assumes "env_ok E" "aead_ok A" "identity_generate E gi = Return i" "identity_generate E gr = Return r"
  shows "\<exists>K reply ss. kem_backend E = Some K \<and>
    responder_reply E K kr sr r (fst (kem_keypair K kc)) = Return (reply, ss) \<and>
    (\<forall>rd w ts. open_connection (u ''127.0.0.1'') (int port) = Return (rd, w) \<longrightarrow> reader_ok rd \<longrightarrow> ts < 2 ^ 32 \<longrightarrow>
      concat (segs rd) = reply @ data_frames A (responder_key (derive_keys E ss)) (responder_nonce_pfx (derive_keys E ss)) 0
        [(ts, map of_char ''hello, E2EE over TCP!'')] \<longrightarrow>
      \<not> wclosed w \<longrightarrow> wlost w = None \<longrightarrow>
      test_e2ee_tcp_echo E A now open_connection kc sc i (fingerprint E r) (dec_digits port) = Return ())"
proof -
  let ?data = "map of_char ''hello, E2EE over TCP!'' :: bytes"
  obtain K h body m ss where H: "kem_backend E = Some K" "blake3_ok (blake3 E)" "initiator_hello E K kc sc i = Return (frame h)"
    "responder_reply E K kr sr r (fst (kem_keypair K kc)) = Return (frame body, ss)" "length body \<le> MAX_MESSAGE_SIZE"
    "unmarshal_hello body = Return m" "check_hello E MSG_HELLO_REPLY ''HELLO_REPLY'' (fingerprint E r) None m = Return ()"
    "kem_decrypt K (snd (kem_keypair K kc)) (payload m) = Return ss"
    by (rule honest_server [OF assms(1,3,4)])
  have "test_e2ee_tcp_echo E A now open_connection kc sc i (fingerprint E r) (dec_digits port) = Return ()"
    if o: "open_connection (u ''127.0.0.1'') (int port) = Return (rd, w)" and rd: "reader_ok rd" and ts: "ts < 2 ^ 32"
      and wire: "concat (segs rd) = frame body @ data_frames A (responder_key (derive_keys E ss)) (responder_nonce_pfx (derive_keys E ss)) 0 [(ts, ?data)]"
      and w: "\<not> wclosed w" "wlost w = None" for rd w ts
  proof -
    have l: "tcp_link (TcpConn_init rd w) (frame body @ data_frames A (responder_key (derive_keys E ss))
        (responder_nonce_pfx (derive_keys E ss)) 0 [(ts, ?data)]) (wsent w)"
      using fresh_tcp_link [OF rd w] wire by simp
    obtain c where "e2ee_echo E A now tcp_ops kc sc i (fingerprint E r) ?data (TcpConn_init rd w) = snd (tcp_close c)"
      using tcp.e2ee_echo_closes [OF assms(2) H(2,1,3,5-8) l ts, of now] by auto
    then show ?thesis
      using o by (simp add: test_e2ee_tcp_echo_def tcp_dial_def local_address split_address_host_port tcp_close_def)
  qed
  with H(1,4) show ?thesis by blast
qed

section \<open>Events of a supervised process\<close>

definition line_events :: "pystr list \<Rightarrow> json list" where
  "line_events ls = concat (map (\<lambda>l. case json_loads l of Return e \<Rightarrow> if is_dict e then [e] else [] | _ \<Rightarrow> []) ls)"

lemma line_events_append [simp]: "line_events (ls @ ls') = line_events ls @ line_events ls'" "line_events [] = []"
  by (simp_all add: line_events_def)

lemma mp_read_events: "mp_events (mp_read l p) = mp_events p @ line_events [l]"
  by (simp add: mp_read_def line_events_def Let_def split: res.split)

lemma fold_mp_read_events: "mp_events (fold mp_read ls p) = mp_events p @ line_events ls"
proof (induction ls arbitrary: p)
  case (Cons l ls)
  then show ?case using line_events_append(1) [of "[l]" ls] by (simp add: mp_read_events)
qed simp

text \<open>Only the last fifty lines are kept for the error report.\<close>

lemma mp_read_logs: "length (mp_logs p) \<le> 50 \<Longrightarrow> length (mp_logs (mp_read l p)) \<le> 50"
  by (auto simp: mp_read_def Let_def split: res.split)

lemma wait_event_step:
  assumes "mp_events (fold mp_read (t_lines t) p) = event # rest" "\<not> event_matches kind predicate event"
  shows "wait_event name kind timeout predicate (t # ts) p =
    wait_event name kind timeout predicate ts ((fold mp_read (t_lines t) p)\<lparr>mp_events := rest\<rparr>)"
  using assms by (simp add: Let_def)

text \<open>Waiting for an event of a supervised process gives the first event of the kind and drops only
  events before it: the events queued, followed by those of the lines handled meanwhile, are the dropped ones,
  none of which matches, the one returned, which does, and those left in the queue for the next wait.\<close>

theorem wait_event_first:
  assumes "wait_event name kind timeout predicate ts p = (p', Return e)"
  shows "event_matches kind predicate e \<and>
    (\<exists>ls dropped. subseq ls (concat (map (\<lambda>t. t_lines t @ t_late t) ts)) \<and>
      mp_events p @ line_events ls = dropped @ e # mp_events p' \<and> list_all (\<lambda>d. \<not> event_matches kind predicate d) dropped)"
  using assms
proof (induction ts arbitrary: p)
  case (Cons t ts)
  let ?q = "fold mp_read (t_lines t) p"
  show ?case
  proof (cases "mp_events ?q")
    case (Cons event rest)
    show ?thesis
    proof (cases "event_matches kind predicate event")
      case True
      with Cons.prems Cons have "e = event" "mp_events p' = rest" by (auto simp: Let_def)
      moreover have "subseq (t_lines t) (concat (map (\<lambda>t. t_lines t @ t_late t) (t # ts)))"
        by (simp add: subseq_rev_drop_many)
      ultimately show ?thesis
        using True Cons unfolding fold_mp_read_events
        by (intro conjI exI [of _ "t_lines t"] exI [of _ "[]"]) simp_all
    next
      case False
      let ?p = "?q\<lparr>mp_events := rest\<rparr>"
      have "wait_event name kind timeout predicate ts ?p = (p', Return e)"
        using Cons.prems wait_event_step [OF Cons False] by simp
      from Cons.IH [OF this] obtain ls dropped where m: "event_matches kind predicate e"
        and ls: "subseq ls (concat (map (\<lambda>t. t_lines t @ t_late t) ts))"
        and d: "rest @ line_events ls = dropped @ e # mp_events p'" "list_all (\<lambda>d. \<not> event_matches kind predicate d) dropped"
        by auto
      have "mp_events p @ line_events (t_lines t @ ls) = (event # dropped) @ e # mp_events p'"
        using Cons d(1) unfolding fold_mp_read_events by (metis append_Cons append_assoc line_events_append(1))
      moreover have "subseq (t_lines t @ ls) (concat (map (\<lambda>t. t_lines t @ t_late t) (t # ts)))"
        using subseq_drop_many [OF ls] by (simp add: subseq_append')
      ultimately show ?thesis using m d(2) False by (intro conjI exI [of _ "t_lines t @ ls"] exI [of _ "event # dropped"]) simp_all
    qed
  next
    case Nil
    let ?p = "(fold mp_read (t_late t) ?q)\<lparr>mp_exit := t_exit t, mp_reader_alive := t_alive t\<rparr>"
    have "wait_event name kind timeout predicate ts ?p = (p', Return e)"
      using Cons.prems Nil by (auto simp: Let_def split: if_splits)
    from Cons.IH [OF this] obtain ls dropped where m: "event_matches kind predicate e"
      and ls: "subseq ls (concat (map (\<lambda>t. t_lines t @ t_late t) ts))"
      and d: "mp_events ?p @ line_events ls = dropped @ e # mp_events p'" "list_all (\<lambda>d. \<not> event_matches kind predicate d) dropped"
      by auto
    have "mp_events p @ line_events ((t_lines t @ t_late t) @ ls) = dropped @ e # mp_events p'"
      using d(1) by (simp add: fold_mp_read_events)
    moreover have "subseq ((t_lines t @ t_late t) @ ls) (concat (map (\<lambda>t. t_lines t @ t_late t) (t # ts)))"
      using ls by (simp add: subseq_append')
    ultimately show ?thesis using m d(2) by blast
  qed
qed simp

theorem wait_event_first_witness:
  "\<exists>p' e. wait_event (u ''R1'') (u ''a'') (u ''30'') (\<lambda>_. True) [\<lparr>t_lines = [], t_late = [], t_exit = None, t_alive = True\<rparr>]
     \<lparr>mp_events = [JObj [(u ''event'', JStr (u ''a''))]], mp_logs = [], mp_exit = None, mp_reader_alive = True\<rparr> = (p', Return e) \<and>
     event_matches (u ''a'') (\<lambda>_. True) e"
proof -
  let ?p = "\<lparr>mp_events = [JObj [(u ''event'', JStr (u ''a''))]], mp_logs = [], mp_exit = None, mp_reader_alive = True\<rparr>"
  have "wait_event (u ''R1'') (u ''a'') (u ''30'') (\<lambda>_. True) [\<lparr>t_lines = [], t_late = [], t_exit = None, t_alive = True\<rparr>] ?p =
      (?p\<lparr>mp_events := []\<rparr>, Return (JObj [(u ''event'', JStr (u ''a''))]))"
    by (simp add: event_matches_def json_get_def)
  from wait_event_first [OF this] this show ?thesis by blast
qed

text \<open>An event that is queued is found within as many turns as there are events up to it.\<close>

theorem wait_event_finds:
  assumes "mp_events p = dropped @ e # rest" "list_all (\<lambda>d. \<not> event_matches kind predicate d) dropped"
    "event_matches kind predicate e" "length dropped < length ts"
  shows "\<exists>p'. wait_event name kind timeout predicate ts p = (p', Return e)"
  using assms
proof (induction ts arbitrary: p dropped rest)
  case (Cons t ts)
  show ?case
  proof (cases dropped)
    case Nil
    with Cons.prems show ?thesis by (simp add: fold_mp_read_events Let_def)
  next
    case d: (Cons x xs)
    let ?q = "(fold mp_read (t_lines t) p)\<lparr>mp_events := xs @ e # rest @ line_events (t_lines t)\<rparr>"
    have "mp_events (fold mp_read (t_lines t) p) = x # xs @ e # rest @ line_events (t_lines t)"
      using Cons.prems(1) d by (simp add: fold_mp_read_events)
    from wait_event_step [OF this] Cons.prems(2) d
    have s: "wait_event name kind timeout predicate (t # ts) p = wait_event name kind timeout predicate ts ?q" by simp
    have "\<exists>p'. wait_event name kind timeout predicate ts ?q = (p', Return e)"
      by (rule Cons.IH [where dropped = xs]) (use Cons.prems d in simp_all)
    with s show ?thesis by simp
  qed
qed simp

text \<open>But a last event can be overlooked: it may arrive after the watch on the queue expired and before the
  process is looked at; when the process is gone by then, the wait fails with the event in the queue.\<close>

theorem wait_event_overlooks:
  assumes "mp_events p = []" "json_loads line = Return e" "is_dict e" "event_matches kind predicate e"
  shows "\<exists>p'. wait_event name kind timeout predicate (\<lparr>t_lines = [], t_late = [line], t_exit = Some 0, t_alive = False\<rparr> # ts) p =
      (p', Raise (mp_exited name kind p')) \<and> mp_events p' = [e]"
  using assms by (auto simp: mp_read_def Let_def)

section \<open>Identity files between the helpers\<close>

theorem python_save_load:
  assumes "env_ok E" "aead_ok A" "argon2_ok H" "length salt = 32" "length nonce = 24"
    and "run_python_save E A H coins salt nonce path fs = (fs', Return pubkey)"
  shows "run_python_load A H path fs' = Return pubkey"
proof -
  obtain i where i: "identity_generate E coins = Return i"
    "save_identity A H salt nonce path i STORE_PASSWORD fs = (fs', Return ())" "pubkey = bytes_hex (id_pk i)"
    using assms(6) by (auto simp: run_python_save_def lift_res_def res_simps split: res.splits prod.splits)
  have "length (id_sk i) = 4896" "length (id_pk i) = 2592" using generated_identity(1,2) [OF assms(1) i(1)] by simp_all
  with load_saved [OF assms(2-5) i(2)] show ?thesis by (cases i) (simp add: run_python_load_def i(3))
qed

end
