(* ===== verification/Processes.thy ===== *)
theory Processes
  imports Harness
begin

text \<open>
  Programs started by the runners under \<^verbatim>\<open>uniconn-tests/runners\<close>: the interface to the operating system, the paths,
  the loop that waits for a line of output, and the echo servers and clients of \<^verbatim>\<open>run_python_go.py\<close>,
  \<^verbatim>\<open>run_node_go.py\<close>, \<^verbatim>\<open>run_python_node.py\<close> and \<^verbatim>\<open>run_go_node.py\<close>.

  The operating system is a parameter, the record \<open>os\<close> of the calls of \<^verbatim>\<open>subprocess\<close> and \<^verbatim>\<open>time\<close> that the
  runners make, over an arbitrary type of worlds. \<open>os_ok\<close> names what is relied on. A loop against a
  deadline asks the clock of that world, so it may run for ever (the value \<open>None\<close>) in a world whose clock stands still.
\<close>

section \<open>The operating system\<close>

type_synonym pid = nat

record completed =
  returncode :: int
  run_stdout :: pystr
  run_stderr :: pystr

text \<open>\<^verbatim>\<open>Popen\<close> with arguments, working directory and additions to the environment; the pipes of a child; signals,
  \<^verbatim>\<open>wait(timeout)\<close> and \<^verbatim>\<open>poll\<close>; \<^verbatim>\<open>subprocess.run\<close> with the text for standard input; the clock in nanoseconds; \<^verbatim>\<open>sleep\<close>.\<close>

record 'w os =
  os_popen :: "pystr list \<Rightarrow> pystr option \<Rightarrow> (pystr \<times> pystr) list \<Rightarrow> 'w \<Rightarrow> 'w \<times> pid res"
  os_readline :: "pid \<Rightarrow> 'w \<Rightarrow> 'w \<times> pystr res"
  os_read_stdout :: "pid \<Rightarrow> 'w \<Rightarrow> 'w \<times> pystr res"
  os_read_stderr :: "pid \<Rightarrow> 'w \<Rightarrow> 'w \<times> pystr res"
  os_write_stdin :: "pid \<Rightarrow> pystr \<Rightarrow> 'w \<Rightarrow> 'w \<times> unit res"
  os_stdin_closed :: "pid \<Rightarrow> 'w \<Rightarrow> bool"
  os_close_stdin :: "pid \<Rightarrow> 'w \<Rightarrow> 'w \<times> unit res"
  os_close_stdout :: "pid \<Rightarrow> 'w \<Rightarrow> 'w \<times> unit res"
  os_terminate :: "pid \<Rightarrow> 'w \<Rightarrow> 'w \<times> unit res"
  os_kill :: "pid \<Rightarrow> 'w \<Rightarrow> 'w \<times> unit res"
  os_wait :: "pid \<Rightarrow> int \<Rightarrow> 'w \<Rightarrow> 'w \<times> int res"
  os_poll :: "pid \<Rightarrow> 'w \<Rightarrow> 'w \<times> int option res"
  os_run :: "pystr list \<Rightarrow> pystr option \<Rightarrow> pystr option \<Rightarrow> int \<Rightarrow> 'w \<Rightarrow> 'w \<times> completed res"
  os_time :: "'w \<Rightarrow> 'w \<times> int"
  os_sleep :: "int \<Rightarrow> 'w \<Rightarrow> 'w"

definition second :: int where "second = 1000000000"

text \<open>Sequencing where a step may run for ever, and \<^verbatim>\<open>try ... finally\<close>.\<close>

definition then_do :: "('w \<times> 'a res) option \<Rightarrow> ('w \<Rightarrow> 'a \<Rightarrow> ('w \<times> 'b res) option) \<Rightarrow> ('w \<times> 'b res) option" where
  "then_do m f =
     (case m of
        None \<Rightarrow> None
      | Some (w, Return a) \<Rightarrow> f w a
      | Some (w, Raise e) \<Rightarrow> Some (w, Raise e)
      | Some (w, Blocked) \<Rightarrow> Some (w, Blocked))"

fun try_finally :: "'w \<times> 'a res \<Rightarrow> ('w \<Rightarrow> 'w \<times> unit res) \<Rightarrow> 'w \<times> 'a res" where
  "try_finally (w, Blocked) final = (w, Blocked)"
| "try_finally (w, r) final = res_bind (final w) (\<lambda>w _. (w, r))"

section \<open>Paths\<close>

text \<open>\<^verbatim>\<open>os.path.dirname\<close> and \<^verbatim>\<open>os.path.join\<close> of a POSIX system. Every runner builds its paths from its own file.\<close>

definition path_dirname :: "pystr \<Rightarrow> pystr" where
  "path_dirname p =
     (let head = rev (dropWhile (\<lambda>c. c \<noteq> 47) (rev p)) in
      if list_all (\<lambda>c. c = 47) head then head else rev (dropWhile (\<lambda>c. c = 47) (rev head)))"

definition path_join :: "pystr \<Rightarrow> pystr \<Rightarrow> pystr" where
  "path_join a b =
     (if take 1 b = [47] then b
      else if a = [] \<or> last a = 47 then a @ b else a @ [47] @ b)"

definition REPO_ROOT :: "pystr \<Rightarrow> pystr" where
  "REPO_ROOT conftest_file = path_dirname (path_dirname conftest_file)"

definition ECHO_SERVER :: "pystr \<Rightarrow> pystr" where
  "ECHO_SERVER file = path_join (path_dirname file) (u ''echo_server.py'')"

definition GO_CLIENT :: "pystr \<Rightarrow> pystr" where
  "GO_CLIENT file = path_join (path_dirname file) (u ''go_client.go'')"

definition NODE_SERVER :: "pystr \<Rightarrow> pystr" where
  "NODE_SERVER file = path_join (path_dirname file) (u ''node_server.mjs'')"

definition NODE_CLIENT :: "pystr \<Rightarrow> pystr" where
  "NODE_CLIENT file = path_join (path_dirname file) (u ''node_client.mjs'')"

definition GO_DIR :: "pystr \<Rightarrow> pystr" where
  "GO_DIR root = path_join root (u ''uniconn-go'')"

definition JS_DIR :: "pystr \<Rightarrow> pystr" where
  "JS_DIR root = path_join root (u ''uniconn-js'')"

definition PYTHON :: "pystr \<Rightarrow> pystr" where
  "PYTHON root = path_join (path_join (path_join (path_join root (u ''uniconn-py'')) (u ''.venv'')) (u ''Scripts'')) (u ''python.exe'')"

definition E2EE_ROOT :: "pystr \<Rightarrow> pystr" where
  "E2EE_ROOT file = path_dirname (path_dirname file)"

section \<open>Waiting for a line\<close>

text \<open>The loop all runners share: lines are read until one is of interest, the handler raises, or the deadline has passed.\<close>

partial_function (option) await_line ::
  "'w os \<Rightarrow> pid \<Rightarrow> (pystr \<Rightarrow> 'a option res) \<Rightarrow> int \<Rightarrow> 'w \<Rightarrow> ('w \<times> 'a option res) option" where
  "await_line OS proc handle deadline w =
     (case os_time OS w of (w, t) \<Rightarrow>
        if t < deadline
        then (case os_readline OS proc w of
                (w, Return line) \<Rightarrow>
                  (case handle (py_strip line) of
                     Return None \<Rightarrow> await_line OS proc handle deadline w
                   | Return (Some a) \<Rightarrow> Some (w, Return (Some a))
                   | Raise e \<Rightarrow> Some (w, Raise e)
                   | Blocked \<Rightarrow> Some (w, Blocked))
              | (w, Raise e) \<Rightarrow> Some (w, Raise e)
              | (w, Blocked) \<Rightarrow> Some (w, Blocked))
        else Some (w, Return None))"

definition not_ready :: "'w os \<Rightarrow> pid \<Rightarrow> string \<Rightarrow> 'w \<Rightarrow> 'w \<times> 'a res" where
  "not_ready OS proc message w =
     res_bind (os_kill OS proc w) (\<lambda>w _.
     res_bind (os_read_stderr OS proc w) (\<lambda>w stderr.
       (w, Raise (Exn RuntimeError [Txt message, Txt ''stderr: '', Str stderr]))))"

section \<open>Echo servers and clients\<close>

definition ready_line :: "pystr \<Rightarrow> pystr option res" where
  "ready_line line = Return (if take 6 line = u ''READY:'' then Some line else None)"

definition ready_port :: "pystr \<Rightarrow> int res" where
  "ready_port line =
     (case drop 1 (split_colon line) of p # _ \<Rightarrow> py_int p | [] \<Rightarrow> Raise (Exn IndexError [Txt ''list index out of range'']))"

definition spawn_server ::
  "'w os \<Rightarrow> pystr list \<Rightarrow> (pystr \<times> pystr) list \<Rightarrow> string \<Rightarrow> 'w \<Rightarrow> ('w \<times> (pid \<times> int) res) option" where
  "spawn_server OS args env message w =
     then_do (Some (os_popen OS args None env w)) (\<lambda>w proc.
       case os_time OS w of (w, t) \<Rightarrow>
       then_do (await_line OS proc ready_line (t + 10 * second) w) (\<lambda>w found.
         Some (case found of
                 Some line \<Rightarrow> (w, bind_res (ready_port line) (\<lambda>port. Return (proc, port)))
               | None \<Rightarrow> not_ready OS proc message w)))"

definition run_client ::
  "'w os \<Rightarrow> string \<Rightarrow> pystr list \<Rightarrow> pystr \<Rightarrow> bytes \<Rightarrow> int \<Rightarrow> 'w \<Rightarrow> 'w \<times> bytes res" where
  "run_client OS who args cwd data timeout w =
     res_bind (os_run OS args (Some cwd) (Some (bytes_hex data)) timeout w) (\<lambda>w result.
       if returncode result \<noteq> 0
       then (w, Raise (Exn RuntimeError [Txt who, Txt '' client failed (exit '', Str (dump_int (returncode result)),
         Txt ''): stdout: '', Str (run_stdout result), Txt '' stderr: '', Str (run_stderr result)]))
       else (w, bytes_fromhex (py_strip (run_stdout result))))"

definition expect_echo :: "(bytes \<Rightarrow> 'w \<Rightarrow> 'w \<times> bytes res) \<Rightarrow> bytes \<Rightarrow> 'w \<Rightarrow> 'w \<times> unit res" where
  "expect_echo client data w = res_bind (client data w) (\<lambda>w echoed. (w, assert_that (echoed = data)))"

definition with_server ::
  "'w os \<Rightarrow> ('w \<Rightarrow> ('w \<times> (pid \<times> int) res) option) \<Rightarrow> (int \<Rightarrow> 'w \<Rightarrow> 'w \<times> unit res) \<Rightarrow> 'w \<Rightarrow> ('w \<times> unit res) option" where
  "with_server OS spawn body w =
     then_do (spawn w) (\<lambda>w (proc, port). Some (try_finally (body port w) (os_kill OS proc)))"

definition local_port :: "int \<Rightarrow> pystr" where
  "local_port port = u ''127.0.0.1:'' @ dump_int port"

text \<open>\<^verbatim>\<open>run_python_go.py\<close>; \<open>conf\<close> is the file \<^verbatim>\<open>conftest.py\<close>.\<close>

definition python_go_spawn :: "'w os \<Rightarrow> pystr \<Rightarrow> pystr \<Rightarrow> pystr \<Rightarrow> int \<Rightarrow> 'w \<Rightarrow> ('w \<times> (pid \<times> int) res) option" where
  "python_go_spawn OS conf file protocol port =
     spawn_server OS [PYTHON (REPO_ROOT conf), ECHO_SERVER file, protocol, dump_int port] []
       ''Python echo server did not become ready.''"

definition python_go_client :: "'w os \<Rightarrow> pystr \<Rightarrow> pystr \<Rightarrow> pystr \<Rightarrow> pystr \<Rightarrow> int \<Rightarrow> bytes \<Rightarrow> 'w \<Rightarrow> 'w \<times> bytes res" where
  "python_go_client OS conf file protocol addr timeout data =
     run_client OS ''Go'' [u ''go'', u ''run'', GO_CLIENT file, protocol, addr] (GO_DIR (REPO_ROOT conf)) data timeout"

definition test_python_go_tcp_echo :: "'w os \<Rightarrow> pystr \<Rightarrow> pystr \<Rightarrow> 'w \<Rightarrow> ('w \<times> unit res) option" where
  "test_python_go_tcp_echo OS conf file =
     with_server OS (python_go_spawn OS conf file (u ''tcp'') 0) (\<lambda>port.
       expect_echo (python_go_client OS conf file (u ''tcp'') (local_port port) 15) (map of_char ''hello from Go to Python TCP!''))"

definition test_python_go_tcp_large :: "'w os \<Rightarrow> pystr \<Rightarrow> pystr \<Rightarrow> 'w \<Rightarrow> ('w \<times> unit res) option" where
  "test_python_go_tcp_large OS conf file =
     with_server OS (python_go_spawn OS conf file (u ''tcp'') 0) (\<lambda>port.
       expect_echo (python_go_client OS conf file (u ''tcp'') (local_port port) 30) LARGE)"

definition test_python_go_ws_echo :: "'w os \<Rightarrow> pystr \<Rightarrow> pystr \<Rightarrow> 'w \<Rightarrow> ('w \<times> unit res) option" where
  "test_python_go_ws_echo OS conf file =
     with_server OS (python_go_spawn OS conf file (u ''ws'') 0) (\<lambda>port.
       expect_echo (python_go_client OS conf file (u ''ws'') (u ''ws://'' @ local_port port) 15) (map of_char ''hello from Go to Python WS!''))"

definition test_python_go_ws_large :: "'w os \<Rightarrow> pystr \<Rightarrow> pystr \<Rightarrow> 'w \<Rightarrow> ('w \<times> unit res) option" where
  "test_python_go_ws_large OS conf file =
     with_server OS (python_go_spawn OS conf file (u ''ws'') 0) (\<lambda>port.
       expect_echo (python_go_client OS conf file (u ''ws'') (u ''ws://'' @ local_port port) 30) LARGE)"

text \<open>\<^verbatim>\<open>run_node_go.py\<close>.\<close>

definition node_go_spawn :: "'w os \<Rightarrow> pystr \<Rightarrow> pystr \<Rightarrow> pystr \<Rightarrow> int \<Rightarrow> 'w \<Rightarrow> ('w \<times> (pid \<times> int) res) option" where
  "node_go_spawn OS conf file protocol port =
     spawn_server OS [u ''node'', NODE_SERVER file, protocol, dump_int port]
       [(u ''NODE_PATH'', path_join (JS_DIR (REPO_ROOT conf)) (u ''node_modules''))]
       ''Node echo server did not become ready.''"

definition node_go_client :: "'w os \<Rightarrow> pystr \<Rightarrow> pystr \<Rightarrow> pystr \<Rightarrow> pystr \<Rightarrow> int \<Rightarrow> bytes \<Rightarrow> 'w \<Rightarrow> 'w \<times> bytes res" where
  "node_go_client OS conf file protocol addr timeout data =
     run_client OS ''Go'' [u ''go'', u ''run'', GO_CLIENT file, protocol, addr] (GO_DIR (REPO_ROOT conf)) data timeout"

definition test_node_go_tcp_echo :: "'w os \<Rightarrow> pystr \<Rightarrow> pystr \<Rightarrow> 'w \<Rightarrow> ('w \<times> unit res) option" where
  "test_node_go_tcp_echo OS conf file =
     with_server OS (node_go_spawn OS conf file (u ''tcp'') 0) (\<lambda>port.
       expect_echo (node_go_client OS conf file (u ''tcp'') (local_port port) 15) (map of_char ''hello from Go to Node TCP!''))"

definition test_node_go_tcp_large :: "'w os \<Rightarrow> pystr \<Rightarrow> pystr \<Rightarrow> 'w \<Rightarrow> ('w \<times> unit res) option" where
  "test_node_go_tcp_large OS conf file =
     with_server OS (node_go_spawn OS conf file (u ''tcp'') 0) (\<lambda>port.
       expect_echo (node_go_client OS conf file (u ''tcp'') (local_port port) 30) LARGE)"

definition test_node_go_ws_echo :: "'w os \<Rightarrow> pystr \<Rightarrow> pystr \<Rightarrow> 'w \<Rightarrow> ('w \<times> unit res) option" where
  "test_node_go_ws_echo OS conf file =
     with_server OS (node_go_spawn OS conf file (u ''ws'') 0) (\<lambda>port.
       expect_echo (node_go_client OS conf file (u ''ws'') (u ''ws://'' @ local_port port) 15) (map of_char ''hello from Go to Node WS!''))"

definition test_node_go_ws_large :: "'w os \<Rightarrow> pystr \<Rightarrow> pystr \<Rightarrow> 'w \<Rightarrow> ('w \<times> unit res) option" where
  "test_node_go_ws_large OS conf file =
     with_server OS (node_go_spawn OS conf file (u ''ws'') 0) (\<lambda>port.
       expect_echo (node_go_client OS conf file (u ''ws'') (u ''ws://'' @ local_port port) 30) LARGE)"

text \<open>\<^verbatim>\<open>run_python_node.py\<close>.\<close>

definition python_node_spawn :: "'w os \<Rightarrow> pystr \<Rightarrow> pystr \<Rightarrow> pystr \<Rightarrow> int \<Rightarrow> 'w \<Rightarrow> ('w \<times> (pid \<times> int) res) option" where
  "python_node_spawn OS conf file protocol port =
     spawn_server OS [PYTHON (REPO_ROOT conf), ECHO_SERVER file, protocol, dump_int port] []
       ''Python echo server did not become ready.''"

definition python_node_client :: "'w os \<Rightarrow> pystr \<Rightarrow> pystr \<Rightarrow> pystr \<Rightarrow> int \<Rightarrow> bytes \<Rightarrow> 'w \<Rightarrow> 'w \<times> bytes res" where
  "python_node_client OS file protocol addr timeout data =
     run_client OS ''Node'' [u ''node'', NODE_CLIENT file, protocol, addr] (path_dirname file) data timeout"

definition test_python_node_tcp_echo :: "'w os \<Rightarrow> pystr \<Rightarrow> pystr \<Rightarrow> 'w \<Rightarrow> ('w \<times> unit res) option" where
  "test_python_node_tcp_echo OS conf file =
     with_server OS (python_node_spawn OS conf file (u ''tcp'') 0) (\<lambda>port.
       expect_echo (python_node_client OS file (u ''tcp'') (local_port port) 15) (map of_char ''hello from Node to Python TCP!''))"

definition test_python_node_ws_echo :: "'w os \<Rightarrow> pystr \<Rightarrow> pystr \<Rightarrow> 'w \<Rightarrow> ('w \<times> unit res) option" where
  "test_python_node_ws_echo OS conf file =
     with_server OS (python_node_spawn OS conf file (u ''ws'') 0) (\<lambda>port.
       expect_echo (python_node_client OS file (u ''ws'') (u ''ws://'' @ local_port port) 15) (map of_char ''hello from Node to Python WS!''))"

text \<open>\<^verbatim>\<open>run_go_node.py\<close>: the Go server is the one of the fixture.\<close>

definition go_node_client :: "'w os \<Rightarrow> pystr \<Rightarrow> pystr \<Rightarrow> pystr \<Rightarrow> int \<Rightarrow> bytes \<Rightarrow> 'w \<Rightarrow> 'w \<times> bytes res" where
  "go_node_client OS file protocol addr timeout data =
     run_client OS ''Node'' [u ''node'', NODE_CLIENT file, protocol, addr] (path_dirname file) data timeout"

definition test_go_node_tcp_echo :: "'w os \<Rightarrow> pystr \<Rightarrow> 'w \<Rightarrow> 'w \<times> unit res" where
  "test_go_node_tcp_echo OS file =
     expect_echo (go_node_client OS file (u ''tcp'') (local_port (int GO_TCP_PORT)) 15) (map of_char ''hello from Node TCP!'')"

definition test_go_node_tcp_large :: "'w os \<Rightarrow> pystr \<Rightarrow> 'w \<Rightarrow> 'w \<times> unit res" where
  "test_go_node_tcp_large OS file =
     expect_echo (go_node_client OS file (u ''tcp'') (local_port (int GO_TCP_PORT)) 30) LARGE"

definition test_go_node_ws_echo :: "'w os \<Rightarrow> pystr \<Rightarrow> 'w \<Rightarrow> 'w \<times> unit res" where
  "test_go_node_ws_echo OS file =
     expect_echo (go_node_client OS file (u ''ws'') (u ''ws://'' @ local_port (int GO_WS_PORT) @ u ''/echo'') 15)
       (map of_char ''hello from Node WebSocket!'')"

definition test_go_node_ws_large :: "'w os \<Rightarrow> pystr \<Rightarrow> 'w \<Rightarrow> 'w \<times> unit res" where
  "test_go_node_ws_large OS file =
     expect_echo (go_node_client OS file (u ''ws'') (u ''ws://'' @ local_port (int GO_WS_PORT) @ u ''/echo'') 30) LARGE"

section \<open>What is relied on\<close>

text \<open>\<open>running w\<close> are the children that were started and have neither ended nor been sent \<^verbatim>\<open>SIGKILL\<close>. Only \<^verbatim>\<open>Popen\<close>
  adds one, \<^verbatim>\<open>kill\<close> and \<^verbatim>\<open>terminate\<close> return, \<^verbatim>\<open>kill\<close> takes one away, a process whose exit status is known has
  ended, and waiting for one raises only when the time is over.\<close>

definition quiet :: "('w \<Rightarrow> pid set) \<Rightarrow> ('w \<Rightarrow> 'w \<times> 'a) \<Rightarrow> bool" where
  "quiet running f \<longleftrightarrow> (\<forall>w. running (fst (f w)) \<subseteq> running w)"

definition starts_one :: "('w \<Rightarrow> pid set) \<Rightarrow> ('w \<Rightarrow> 'w \<times> pid res) \<Rightarrow> bool" where
  "starts_one running f \<longleftrightarrow>
     (\<forall>w. running (fst (f w)) \<subseteq> running w \<union> (case snd (f w) of Return p \<Rightarrow> {p} | _ \<Rightarrow> {}))"

definition os_ok :: "'w os \<Rightarrow> ('w \<Rightarrow> pid set) \<Rightarrow> bool" where
  "os_ok OS running \<longleftrightarrow>
     (\<forall>args cwd env. starts_one running (os_popen OS args cwd env)) \<and>
     (\<forall>p. quiet running (os_readline OS p) \<and> quiet running (os_read_stdout OS p) \<and> quiet running (os_read_stderr OS p)) \<and>
     (\<forall>p s. quiet running (os_write_stdin OS p s)) \<and>
     (\<forall>p. quiet running (os_close_stdin OS p) \<and> quiet running (os_close_stdout OS p) \<and> quiet running (os_terminate OS p)) \<and>
     (\<forall>p w. snd (os_kill OS p w) = Return () \<and> running (fst (os_kill OS p w)) \<subseteq> running w - {p}) \<and>
     (\<forall>p w. snd (os_terminate OS p w) = Return ()) \<and>
     (\<forall>p t w w' e. os_wait OS p t w = (w', Raise e) \<longrightarrow> exn_class_of e = TimeoutExpired) \<and>
     (\<forall>p t. quiet running (os_wait OS p t)) \<and> (\<forall>p t w w' c. os_wait OS p t w = (w', Return c) \<longrightarrow> p \<notin> running w') \<and>
     (\<forall>p. quiet running (os_poll OS p)) \<and> (\<forall>p w w' c. os_poll OS p w = (w', Return (Some c)) \<longrightarrow> p \<notin> running w') \<and>
     (\<forall>args cwd inp t. quiet running (os_run OS args cwd inp t)) \<and>
     quiet running (os_time OS) \<and> (\<forall>t w. running (os_sleep OS t w) \<subseteq> running w)"

text \<open>The clock moves on while a line is read.\<close>

definition clock_runs :: "'w os \<Rightarrow> bool" where
  "clock_runs OS \<longleftrightarrow>
     (\<forall>p w w1 t w2 l. os_time OS w = (w1, t) \<longrightarrow> os_readline OS p w1 = (w2, Return l) \<longrightarrow> t < snd (os_time OS w2))"

text \<open>The output of the servers is text, and a line that begins like an announcement is one.\<close>

definition announces :: "'w os \<Rightarrow> bool" where
  "announces OS \<longleftrightarrow>
     (\<forall>p w. case snd (os_readline OS p w) of
        Return l \<Rightarrow> take 6 (py_strip l) = u ''READY:'' \<longrightarrow> (\<exists>port. ready_port (py_strip l) = Return port)
      | Raise e \<Rightarrow> False
      | Blocked \<Rightarrow> True)"

section \<open>Steps that start nothing\<close>

lemma quietD: "quiet running f \<Longrightarrow> f w = (w', r) \<Longrightarrow> running w' \<subseteq> running w"
  unfolding quiet_def by (metis fst_conv)

lemma quiet_res_bind:
  assumes "running (fst m) \<subseteq> A" "\<And>w a. m = (w, Return a) \<Longrightarrow> running (fst (f w a)) \<subseteq> A"
  shows "running (fst (res_bind m f)) \<subseteq> A"
  using assms by (cases "(m, f)" rule: res_bind.cases) auto

lemma quiet_bind:
  assumes "quiet running f" "\<And>a. quiet running (g a)"
  shows "quiet running (\<lambda>w. res_bind (f w) (\<lambda>w a. g a w))"
proof -
  have "running (fst (res_bind (f w) (\<lambda>w a. g a w))) \<subseteq> running w" for w
  proof (rule quiet_res_bind)
    show "running (fst (f w)) \<subseteq> running w" using assms(1) by (simp add: quiet_def)
    fix w' a
    assume "f w = (w', Return a)"
    then have "running w' \<subseteq> running w" by (rule quietD [OF assms(1)])
    moreover have "running (fst (g a w')) \<subseteq> running w'" using assms(2) [of a] by (simp add: quiet_def)
    ultimately show "running (fst (g a w')) \<subseteq> running w" by (rule order_trans [rotated])
  qed
  then show ?thesis by (simp add: quiet_def)
qed

lemma if_distrib_pair: "(if b then (w, x) else (w, y)) = (w, if b then x else y)"
  by simp

lemma quiet_pure: "quiet running (\<lambda>w. (w, x))"
  by (simp add: quiet_def)

lemma os_quiet:
  assumes "os_ok OS running"
  shows "quiet running (os_readline OS p)" "quiet running (os_read_stdout OS p)" "quiet running (os_read_stderr OS p)"
    "quiet running (os_write_stdin OS p s)" "quiet running (os_close_stdin OS p)" "quiet running (os_close_stdout OS p)"
    "quiet running (os_terminate OS p)" "quiet running (os_wait OS p t)" "quiet running (os_poll OS p)"
    "quiet running (os_run OS args cwd inp t)" "quiet running (os_time OS)"
  using assms by (simp_all add: os_ok_def)

lemma os_popen_one:
  assumes "os_ok OS running"
  shows "os_popen OS args cwd env w = (w', Return p) \<Longrightarrow> running w' \<subseteq> insert p (running w)"
    "os_popen OS args cwd env w = (w', Raise e) \<Longrightarrow> running w' \<subseteq> running w"
proof -
  have "starts_one running (os_popen OS args cwd env)" using assms by (simp add: os_ok_def)
  then have "running (fst (os_popen OS args cwd env w)) \<subseteq>
      running w \<union> (case snd (os_popen OS args cwd env w) of Return p \<Rightarrow> {p} | _ \<Rightarrow> {})"
    by (simp add: starts_one_def)
  then show "os_popen OS args cwd env w = (w', Return p) \<Longrightarrow> running w' \<subseteq> insert p (running w)"
    "os_popen OS args cwd env w = (w', Raise e) \<Longrightarrow> running w' \<subseteq> running w" by auto
qed

lemma os_kill_one:
  assumes "os_ok OS running"
  obtains w' where "os_kill OS p w = (w', Return ())" "running w' \<subseteq> running w - {p}"
proof -
  have "snd (os_kill OS p w) = Return ()" "running (fst (os_kill OS p w)) \<subseteq> running w - {p}"
    using assms by (simp_all add: os_ok_def)
  with that show thesis by (cases "os_kill OS p w") simp
qed

lemma os_wait_ended: "os_ok OS running \<Longrightarrow> os_wait OS p t w = (w', Return c) \<Longrightarrow> p \<notin> running w'"
  unfolding os_ok_def by blast

lemma os_wait_raises: "os_ok OS running \<Longrightarrow> os_wait OS p t w = (w', Raise e) \<Longrightarrow> exn_class_of e = TimeoutExpired"
  unfolding os_ok_def by metis

lemma os_terminate_returns:
  assumes "os_ok OS running"
  obtains w' where "os_terminate OS p w = (w', Return ())" "running w' \<subseteq> running w"
proof -
  have "snd (os_terminate OS p w) = Return ()" using assms by (simp add: os_ok_def)
  with that quietD [OF os_quiet(7) [OF assms]] show thesis by (cases "os_terminate OS p w") auto
qed

lemma os_poll_ended: "os_ok OS running \<Longrightarrow> os_poll OS p w = (w', Return (Some c)) \<Longrightarrow> p \<notin> running w'"
  unfolding os_ok_def by blast


lemma await_induct:
  assumes "await_line OS p handle deadline w = Some x"
    and late: "\<And>w w1 t. os_time OS w = (w1, t) \<Longrightarrow> deadline \<le> t \<Longrightarrow> P w (w1, Return None)"
    and fail: "\<And>w w1 t w2 e. os_time OS w = (w1, t) \<Longrightarrow> os_readline OS p w1 = (w2, Raise e) \<Longrightarrow> P w (w2, Raise e)"
    and wait: "\<And>w w1 t w2. os_time OS w = (w1, t) \<Longrightarrow> os_readline OS p w1 = (w2, Blocked) \<Longrightarrow> P w (w2, Blocked)"
    and hit: "\<And>w w1 t w2 l a. os_time OS w = (w1, t) \<Longrightarrow> os_readline OS p w1 = (w2, Return l) \<Longrightarrow>
      handle (py_strip l) = Return (Some a) \<Longrightarrow> P w (w2, Return (Some a))"
    and bad: "\<And>w w1 t w2 l e. os_time OS w = (w1, t) \<Longrightarrow> os_readline OS p w1 = (w2, Return l) \<Longrightarrow>
      handle (py_strip l) = Raise e \<Longrightarrow> P w (w2, Raise e)"
    and stuck: "\<And>w w1 t w2 l. os_time OS w = (w1, t) \<Longrightarrow> os_readline OS p w1 = (w2, Return l) \<Longrightarrow>
      handle (py_strip l) = Blocked \<Longrightarrow> P w (w2, Blocked)"
    and again: "\<And>w w1 t w2 l x. os_time OS w = (w1, t) \<Longrightarrow> os_readline OS p w1 = (w2, Return l) \<Longrightarrow>
      handle (py_strip l) = Return None \<Longrightarrow> P w2 x \<Longrightarrow> P w x"
  shows "P w x"
proof -
  have "OS = OS \<longrightarrow> p = p \<longrightarrow> handle = handle \<longrightarrow> deadline = deadline \<longrightarrow> P w x"
  proof (rule await_line.raw_induct [where P = "\<lambda>OS' p' handle' deadline' w x.
      OS' = OS \<longrightarrow> p' = p \<longrightarrow> handle' = handle \<longrightarrow> deadline' = deadline \<longrightarrow> P w x", OF _ assms(1)], intro impI, goal_cases)
    case (1 await OS' p' handle' deadline' w x)
    obtain w1 t where t: "os_time OS w = (w1, t)" by (cases "os_time OS w")
    obtain w2 r where r: "os_readline OS p w1 = (w2, r)" by (cases "os_readline OS p w1")
    from 1 t r late [OF t] fail [OF t, of w2] wait [OF t, of w2] hit [OF t, of w2] bad [OF t, of w2] stuck [OF t, of w2] again [OF t, of w2]
    show ?case by (auto split: if_splits res.splits option.splits)
  qed
  then show ?thesis by simp
qed

lemma await_quiet:
  assumes ok: "os_ok OS running" and "await_line OS p handle deadline w = Some x"
  shows "running (fst x) \<subseteq> running w"
proof -
  have q: "os_time OS w = (w1, t) \<Longrightarrow> os_readline OS p w1 = (w2, r) \<Longrightarrow> running w2 \<subseteq> running w" for w w1 t w2 r
    using quietD [OF os_quiet(11) [OF ok], of w] quietD [OF os_quiet(1) [OF ok], of p w1] by blast
  show ?thesis
    by (rule await_induct [OF assms(2), of "\<lambda>w x. running (fst x) \<subseteq> running w"])
      (use q quietD [OF os_quiet(11) [OF ok]] in fastforce)+
qed

text \<open>A loop against a deadline ends when the clock runs.\<close>

lemma await_returns:
  assumes "clock_runs OS"
  shows "\<exists>x. await_line OS p handle deadline w = Some x"
proof (induction "nat (deadline - snd (os_time OS w))" arbitrary: w rule: less_induct)
  case less
  obtain w1 t where t: "os_time OS w = (w1, t)" by (cases "os_time OS w")
  obtain w2 r where r: "os_readline OS p w1 = (w2, r)" by (cases "os_readline OS p w1")
  have "\<exists>x. await_line OS p handle deadline w2 = Some x" if "t < deadline" "r = Return l" for l
  proof (rule less)
    have "t < snd (os_time OS w2)" using assms t r that(2) unfolding clock_runs_def by blast
    then show "nat (deadline - snd (os_time OS w2)) < nat (deadline - snd (os_time OS w))" using t that(1) by simp
  qed
  then show ?case
    using t r by (auto simp: await_line.simps [of OS p handle deadline w] split: res.splits option.splits)
qed

lemma await_announced:
  assumes "announces OS" "await_line OS p ready_line deadline w = Some x"
  shows "case snd x of Return None \<Rightarrow> True | Return (Some line) \<Rightarrow> \<exists>port. ready_port line = Return port | Raise e \<Rightarrow> False | Blocked \<Rightarrow> True"
proof -
  have a: "case snd (os_readline OS p w) of
        Return l \<Rightarrow> take 6 (py_strip l) = u ''READY:'' \<longrightarrow> (\<exists>port. ready_port (py_strip l) = Return port)
      | Raise e \<Rightarrow> False | Blocked \<Rightarrow> True" for w
    using assms(1) unfolding announces_def by blast
  show ?thesis
  proof (rule await_induct [OF assms(2), of "\<lambda>w x. case snd x of Return None \<Rightarrow> True | Return (Some line) \<Rightarrow> \<exists>port. ready_port line = Return port | Raise e \<Rightarrow> False | Blocked \<Rightarrow> True"], goal_cases)
    case (2 w w1 t w2 e)
    with a [of w1] show ?case by simp
  next
    case (4 w w1 t w2 l line)
    with a [of w1] show ?case by (auto simp: ready_line_def split: if_splits)
  qed (auto simp: ready_line_def)
qed

section \<open>No server is left behind\<close>

lemma not_ready_quiet:
  assumes "os_ok OS running" "running w \<subseteq> insert p A" "not_ready OS p message w = (w', r)"
  shows "running w' \<subseteq> A" "r \<noteq> Return a"
proof -
  obtain w1 where w1: "os_kill OS p w = (w1, Return ())" "running w1 \<subseteq> running w - {p}" by (rule os_kill_one [OF assms(1)])
  obtain w2 r2 where r2: "os_read_stderr OS p w1 = (w2, r2)" by (cases "os_read_stderr OS p w1")
  have "running w2 \<subseteq> A" using quietD [OF os_quiet(3) [OF assms(1)] r2] w1(2) assms(2) by blast
  then show "running w' \<subseteq> A" "r \<noteq> Return a" using assms(3) w1(1) r2 by (cases r2; auto simp: not_ready_def)+
qed

text \<open>What is running after a server was asked for: at most that server, and nothing more when there is an error.\<close>

fun leaves :: "('w \<Rightarrow> pid set) \<Rightarrow> 'w \<Rightarrow> 'w \<times> (pid \<times> 'a) res \<Rightarrow> bool" where
  "leaves running w (w', Return (p, a)) \<longleftrightarrow> running w' \<subseteq> insert p (running w)"
| "leaves running w (w', Raise e) \<longleftrightarrow> running w' \<subseteq> running w"
| "leaves running w (w', Blocked) \<longleftrightarrow> True"

lemma not_ready_leaves:
  assumes "os_ok OS running" "running w \<subseteq> insert p (running w0)"
  shows "leaves running w0 (not_ready OS p message w)"
proof (cases "not_ready OS p message w :: 'a \<times> (pid \<times> 'b) res")
  case (Pair w' r)
  with not_ready_quiet [OF assms Pair] show ?thesis by (cases r) auto
qed

lemma spawn_server_leaves:
  assumes ok: "os_ok OS running" and an: "announces OS" and cl: "clock_runs OS"
  shows "\<exists>x. spawn_server OS args env message w = Some x \<and> leaves running w x"
proof (cases "os_popen OS args None env w")
  case (Pair w1 r1)
  show ?thesis
  proof (cases r1)
    case (Return p)
    have w1: "running w1 \<subseteq> insert p (running w)" using os_popen_one(1) [OF ok] Pair Return by blast
    obtain w2 t where t: "os_time OS w1 = (w2, t)" by (cases "os_time OS w1")
    obtain w3 r where x: "await_line OS p ready_line (t + 10 * second) w2 = Some (w3, r)"
      using await_returns [OF cl, of p ready_line "t + 10 * second" w2] by auto
    have w3: "running w3 \<subseteq> insert p (running w)"
      using await_quiet [OF ok x] quietD [OF os_quiet(11) [OF ok] t] w1 by auto
    show ?thesis
    proof (cases r)
      case (Return found)
      with not_ready_leaves [OF ok w3] await_announced [OF an x] w3 Pair \<open>r1 = Return p\<close> t x show ?thesis
        by (cases found) (auto simp: spawn_server_def then_do_def)
    qed (use await_announced [OF an x] Pair Return t x in \<open>auto simp: spawn_server_def then_do_def\<close>)
  qed (use os_popen_one(2) [OF ok] Pair in \<open>auto simp: spawn_server_def then_do_def\<close>)
qed

lemma try_finally_kill:
  assumes "os_ok OS running" "try_finally (w, r) (os_kill OS p) = (w', r')" "r' \<noteq> Blocked"
  shows "running w' \<subseteq> running w - {p}"
proof -
  obtain w1 where "os_kill OS p w = (w1, Return ())" "running w1 \<subseteq> running w - {p}" by (rule os_kill_one [OF assms(1)])
  with assms(2,3) show ?thesis by (cases r) auto
qed

lemma with_server_ends:
  assumes ok: "os_ok OS running" "announces OS" "clock_runs OS" and body: "\<And>port. quiet running (body port)"
  shows "\<exists>w' r. with_server OS (spawn_server OS args env message) body w = Some (w', r) \<and> (r \<noteq> Blocked \<longrightarrow> running w' \<subseteq> running w)"
proof -
  obtain w1 r1 where s: "spawn_server OS args env message w = Some (w1, r1)" "leaves running w (w1, r1)"
    using spawn_server_leaves [OF ok] by fast
  show ?thesis
  proof (cases r1)
    case (Return x)
    obtain p port where x: "x = (p, port)" by (cases x)
    obtain w2 r2 where b: "body port w1 = (w2, r2)" by (cases "body port w1")
    obtain w3 r3 where f: "try_finally (w2, r2) (os_kill OS p) = (w3, r3)" by (cases "try_finally (w2, r2) (os_kill OS p)")
    have "r3 \<noteq> Blocked \<longrightarrow> running w3 \<subseteq> running w"
      using try_finally_kill [OF ok(1) f] quietD [OF body b] s(2) Return x by auto
    with s(1) Return x b f show ?thesis by (simp add: with_server_def then_do_def)
  qed (use s in \<open>auto simp: with_server_def then_do_def\<close>)
qed

lemma run_client_quiet:
  assumes "os_ok OS running"
  shows "quiet running (run_client OS who args cwd data timeout)"
  unfolding run_client_def [abs_def] if_distrib_pair
  by (intro quiet_bind quiet_pure os_quiet assms)

lemma expect_echo_quiet: "quiet running (client data) \<Longrightarrow> quiet running (expect_echo client data)"
  unfolding expect_echo_def [abs_def] by (intro quiet_bind quiet_pure)

section \<open>Text that crosses a pipe\<close>

lemma dropWhile_none: "list_all (\<lambda>c. \<not> P c) xs \<Longrightarrow> dropWhile P xs = xs"
  by (cases xs) simp_all

lemma py_strip_line:
  assumes "list_all (\<lambda>c. \<not> py_space c) s"
  shows "py_strip (s @ [10]) = s"
proof (cases "s = []")
  case False
  then have "dropWhile py_space (s @ [10]) = s @ [10]" using assms by (cases s) simp_all
  moreover have "dropWhile py_space (rev s) = rev s" using assms by (intro dropWhile_none) (simp add: list_all_iff)
  ultimately show ?thesis by (simp add: py_strip_def py_rstrip_def py_space_def [of 10] ascii_space_def)
qed (simp add: py_strip_def py_rstrip_def py_space_def ascii_space_def)

lemma hex_no_space: "list_all (\<lambda>c. \<not> py_space c) (bytes_hex bs)"
proof -
  have "\<not> py_space (hex_digit n)" if "n < 16" for n
    using that by (auto simp: hex_digit_def py_space_def ascii_space_def)
  moreover have "unat b div 16 < 16" "unat b mod 16 < 16" for b :: "8 word" using unat_byte [of b] by auto
  ultimately show ?thesis by (auto simp: bytes_hex_def list_all_iff)
qed

lemma digits_no_space: "list_all (\<lambda>c. \<not> py_space c) (dec_digits n)"
  using dec_digits_all [of n] by (auto simp: list_all_iff is_digit_def py_space_def ascii_space_def)

lemma ready_announced:
  assumes "58 \<notin> set host" "address a = host_port host port" "echo_ready a = Return line"
  shows "py_strip (line @ [10]) = line" "ready_line line = Return (Some line)" "ready_port line = Return (int port)"
proof -
  have l: "line = u ''READY:'' @ dec_digits port"
    using echo_ready_port [OF assms(1,2)] assms(3) by (simp add: dump_int_def)
  show "py_strip (line @ [10]) = line"
    unfolding l by (rule py_strip_line) (use digits_no_space [of port] in \<open>simp add: u_def py_space_def ascii_space_def\<close>)
  show "ready_line line = Return (Some line)" by (simp add: l ready_line_def u_def)
  have "split_colon line = [u ''READY'', dec_digits port]"
    using split_colon_append [of "u ''READY''" "dec_digits port"] split_colon_none [OF dec_digits_no_colon]
    by (simp add: l u_def)
  then show "ready_port line = Return (int port)" by (simp add: ready_port_def py_int_dec_digits)
qed

text \<open>The lines a process prints before the deadline, in the order they are read.\<close>

fun gives :: "'w os \<Rightarrow> pid \<Rightarrow> int \<Rightarrow> 'w \<Rightarrow> pystr list \<Rightarrow> 'w \<Rightarrow> bool" where
  "gives OS p deadline w [] w' \<longleftrightarrow> w = w'"
| "gives OS p deadline w (l # ls) w' \<longleftrightarrow>
     (case os_time OS w of (w, t) \<Rightarrow> t < deadline \<and>
        (case os_readline OS p w of (w, Return line) \<Rightarrow> line = l \<and> gives OS p deadline w ls w' | _ \<Rightarrow> False))"

lemma await_gives:
  assumes "gives OS p deadline w (before @ [l]) w'" "list_all (\<lambda>l. handle (py_strip l) = Return None) before"
    "handle (py_strip l) = Return (Some a)"
  shows "await_line OS p handle deadline w = Some (w', Return (Some a))"
  using assms(1,2)
proof (induction before arbitrary: w)
  case Nil
  with assms(3) show ?case
    by (auto simp: await_line.simps [of OS p handle deadline w] split: prod.splits res.splits)
next
  case (Cons b before)
  then show ?case
    by (auto simp: await_line.simps [of OS p handle deadline w] split: prod.splits res.splits)
qed

lemma spawn_server_finds:
  assumes "58 \<notin> set host" "address a = host_port host port" "echo_ready a = Return line"
    and "os_popen OS args None env w = (w1, Return p)" "os_time OS w1 = (w2, t)"
      "gives OS p (t + 10 * second) w2 (before @ [line @ [10]]) w3" "list_all (\<lambda>l. take 6 (py_strip l) \<noteq> u ''READY:'') before"
  shows "spawn_server OS args env message w = Some (w3, Return (p, int port))"
proof -
  note r = ready_announced [OF assms(1-3)]
  have "list_all (\<lambda>l. ready_line (py_strip l) = Return None) before" using assms(7) by (simp add: ready_line_def list_all_iff)
  from await_gives [OF assms(6) this, of line] r have
    "await_line OS p ready_line (t + 10 * second) w2 = Some (w3, Return (Some line))" by simp
  with assms(4,5) r(3) show ?thesis by (simp add: spawn_server_def then_do_def)
qed

lemma client_prints:
  assumes "os_run OS args (Some cwd) (Some (bytes_hex data)) timeout w =
    (w', Return \<lparr>returncode = 0, run_stdout = bytes_hex echoed @ [10], run_stderr = err\<rparr>)"
  shows "run_client OS who args cwd data timeout w = (w', Return echoed)"
  using assms py_strip_line [OF hex_no_space] by (simp add: run_client_def fromhex_hex)

section \<open>The tests\<close>

definition server_tests :: "('w os \<Rightarrow> pystr \<Rightarrow> pystr \<Rightarrow> 'w \<Rightarrow> ('w \<times> unit res) option) list" where
  "server_tests =
     [test_python_go_tcp_echo, test_python_go_tcp_large, test_python_go_ws_echo, test_python_go_ws_large,
      test_node_go_tcp_echo, test_node_go_tcp_large, test_node_go_ws_echo, test_node_go_ws_large,
      test_python_node_tcp_echo, test_python_node_ws_echo]"

lemmas server_test_defs =
  test_python_go_tcp_echo_def test_python_go_tcp_large_def test_python_go_ws_echo_def test_python_go_ws_large_def
  test_node_go_tcp_echo_def test_node_go_tcp_large_def test_node_go_ws_echo_def test_node_go_ws_large_def
  test_python_node_tcp_echo_def test_python_node_ws_echo_def

lemmas runner_spawns = python_go_spawn_def node_go_spawn_def python_node_spawn_def
lemmas runner_defs = python_go_client_def node_go_client_def python_node_client_def


text \<open>The malformed announcement that the theorem leaves out: the error is raised before the server is in the hands of
  the test, so nothing kills it.\<close>

lemma malformed_ready_not_killed:
  assumes "os_popen OS args None env w = (w1, Return p)" "os_time OS w1 = (w2, t)"
    "await_line OS p ready_line (t + 10 * second) w2 = Some (w3, Return (Some line))" "ready_port line = Raise e"
  shows "with_server OS (spawn_server OS args env message) body w = Some (w3, Raise e)"
  using assms by (simp add: with_server_def spawn_server_def then_do_def)

text \<open>From end to end: the runner finds the port the Python echo server announces, after any other output, passes it to
  the Go client with its text in hexadecimal, and the test passes when the client prints what the handler of the
  server wrote on a connection that carried this text; the server has been killed.\<close>

theorem python_go_tcp_passes:
  assumes "58 \<notin> set host" "address a = host_port host port" "echo_ready a = Return line"
    and "os_popen OS [PYTHON (REPO_ROOT conf), ECHO_SERVER file, u ''tcp'', u ''0''] None [] w = (w1, Return p)"
      "os_time OS w1 = (w2, t)" "gives OS p (t + 10 * second) w2 (before @ [line @ [10]]) w3"
      "list_all (\<lambda>l. take 6 (py_strip l) \<noteq> u ''READY:'') before"
    and "tcp_link c (map of_char ''hello from Go to Python TCP!'') []" "rtail (tcp_reader c) = Eof"
      "echo_handler ECHO_BUF tcp_ops c = Some (c', r)"
    and "os_run OS [u ''go'', u ''run'', GO_CLIENT file, u ''tcp'', host_port (u ''127.0.0.1'') port] (Some (GO_DIR (REPO_ROOT conf)))
        (Some (bytes_hex (map of_char ''hello from Go to Python TCP!''))) 15 w3 =
      (w4, Return \<lparr>returncode = 0, run_stdout = bytes_hex (wsent (tcp_writer c')) @ [10], run_stderr = err\<rparr>)"
    and "os_kill OS p w4 = (w5, Return ())"
  shows "test_python_go_tcp_echo OS conf file w = Some (w5, Return ())"
proof -
  let ?data = "map of_char ''hello from Go to Python TCP!'' :: bytes"
  have "wsent (tcp_writer c') = ?data"
    using tcp_eof.echo_all [OF assms(8,9), of ECHO_BUF] assms(10) by (simp add: ECHO_BUF_def)
  with assms(11) have "python_go_client OS conf file (u ''tcp'') (local_port (int port)) 15 ?data w3 = (w4, Return ?data)"
    unfolding python_go_client_def by (intro client_prints) (simp add: local_port_def dump_int_def local_address)
  moreover have "python_go_spawn OS conf file (u ''tcp'') 0 w = Some (w3, Return (p, int port))"
    unfolding python_go_spawn_def by (rule spawn_server_finds [OF assms(1-3) _ assms(5-7)]) (use assms(4) in \<open>simp add: dump_int_def dec_digits.simps u_def\<close>)
  ultimately show ?thesis
    using assms(12) by (simp add: test_python_go_tcp_echo_def with_server_def then_do_def expect_echo_def assert_that_def)
qed

section \<open>Where the runners look for the other programs\<close>

lemma dirname_append:
  assumes "47 \<notin> set b" "a \<noteq> []" "last a \<noteq> 47"
  shows "path_dirname (a @ 47 # b) = a"
proof -
  have "dropWhile (\<lambda>c. c \<noteq> 47) (rev b @ 47 # rev a) = 47 # rev a"
    using assms(1) by (subst dropWhile_append2) auto
  moreover have "dropWhile (\<lambda>c. c = 47) (rev a) = rev a" using assms(2,3) by (cases a rule: rev_cases) auto
  moreover have "\<not> list_all (\<lambda>c. c = 47) a" using assms(2,3) by (cases a rule: rev_cases) auto
  ultimately show ?thesis by (simp add: path_dirname_def Let_def)
qed

text \<open>The fixture computes the root of the repository from \<^verbatim>\<open>conftest.py\<close>. The encrypted tests use the same expression, but from a
  file one directory deeper: they look for the Go module inside \<^verbatim>\<open>uniconn-tests\<close>, where there is none. The echo server that
  the runners start is looked for beside them, but it is in \<^verbatim>\<open>tools_py\<close>.\<close>

lemma runner_paths:
  assumes "root \<noteq> []" "last root \<noteq> 47"
  shows "REPO_ROOT (root @ u ''/uniconn-tests/conftest.py'') = root"
    and "GO_DIR (E2EE_ROOT (root @ u ''/uniconn-tests/runners/run_e2ee.py'')) = root @ u ''/uniconn-tests/uniconn-go''"
    and "ECHO_SERVER (root @ u ''/uniconn-tests/runners/run_python_go.py'') = root @ u ''/uniconn-tests/runners/echo_server.py''"
proof -
  let ?t = "root @ u ''/uniconn-tests''"
  have t: "?t \<noteq> []" "last ?t \<noteq> 47" "?t @ u ''/runners'' \<noteq> []" "last (?t @ u ''/runners'') \<noteq> 47" by (simp_all add: u_def)
  have d: "path_dirname (?t @ 47 # u ''conftest.py'') = ?t" "path_dirname ?t = root"
    "path_dirname ((?t @ u ''/runners'') @ 47 # u ''run_e2ee.py'') = ?t @ u ''/runners''"
    "path_dirname (?t @ u ''/runners'') = ?t"
    "path_dirname ((?t @ u ''/runners'') @ 47 # u ''run_python_go.py'') = ?t @ u ''/runners''"
    using dirname_append [OF _ t(1,2), of "u ''conftest.py''"] dirname_append [OF _ assms, of "u ''uniconn-tests''"]
      dirname_append [OF _ t(3,4), of "u ''run_e2ee.py''"] dirname_append [OF _ t(1,2), of "u ''runners''"]
      dirname_append [OF _ t(3,4), of "u ''run_python_go.py''"]
    by (simp_all add: u_def)
  show "REPO_ROOT (root @ u ''/uniconn-tests/conftest.py'') = root"
    using d(1,2) by (simp add: REPO_ROOT_def u_def)
  show "GO_DIR (E2EE_ROOT (root @ u ''/uniconn-tests/runners/run_e2ee.py'')) = root @ u ''/uniconn-tests/uniconn-go''"
    using d(3,4) by (simp add: GO_DIR_def E2EE_ROOT_def path_join_def u_def)
  show "ECHO_SERVER (root @ u ''/uniconn-tests/runners/run_python_go.py'') = root @ u ''/uniconn-tests/runners/echo_server.py''"
    using d(5) by (simp add: ECHO_SERVER_def path_join_def u_def)
qed

section \<open>A world\<close>

text \<open>A system whose only server prints one line over and over, with a clock that counts the lines read, and whose
  clients end with a given result.\<close>

record sim =
  sim_clock :: int
  sim_running :: "pid list"

definition sim_os :: "pystr \<Rightarrow> completed \<Rightarrow> sim os" where
  "sim_os line result =
     \<lparr>os_popen = (\<lambda>args cwd env w. (w\<lparr>sim_running := 7 # sim_running w\<rparr>, Return 7)),
      os_readline = (\<lambda>p w. (w\<lparr>sim_clock := sim_clock w + 1\<rparr>, Return line)),
      os_read_stdout = (\<lambda>p w. (w, Return [])),
      os_read_stderr = (\<lambda>p w. (w, Return [])),
      os_write_stdin = (\<lambda>p s w. (w, Return ())),
      os_stdin_closed = (\<lambda>p w. False),
      os_close_stdin = (\<lambda>p w. (w, Return ())),
      os_close_stdout = (\<lambda>p w. (w, Return ())),
      os_terminate = (\<lambda>p w. (w, Return ())),
      os_kill = (\<lambda>p w. (w\<lparr>sim_running := filter (\<lambda>q. q \<noteq> p) (sim_running w)\<rparr>, Return ())),
      os_wait = (\<lambda>p t w. if p \<in> set (sim_running w) then (w, Raise (Exn TimeoutExpired [])) else (w, Return 0)),
      os_poll = (\<lambda>p w. (w, Return (if p \<in> set (sim_running w) then None else Some 0))),
      os_run = (\<lambda>args cwd inp t w. (w, Return result)),
      os_time = (\<lambda>w. (w, sim_clock w)),
      os_sleep = (\<lambda>t w. w)\<rparr>"

lemma sim_os_ok: "os_ok (sim_os line result) (\<lambda>w. set (sim_running w))" "clock_runs (sim_os line result)"
  by (auto simp: os_ok_def quiet_def starts_one_def sim_os_def clock_runs_def split: if_splits)

lemma sim_announces:
  "58 \<notin> set (u ''h'')" "address \<lparr>network = [], address = host_port (u ''h'') 5\<rparr> = host_port (u ''h'') 5"
  "echo_ready \<lparr>network = [], address = host_port (u ''h'') 5\<rparr> = Return (u ''READY:5'')"
  by (simp add: u_def, simp, code_simp)


theorem python_go_tcp_passes_witness:
  "\<exists>c'. echo_handler ECHO_BUF tcp_ops (TcpConn_init \<lparr>segs = [map of_char ''hello from Go to Python TCP!''], rtail = Eof\<rparr> (tcp_writer (toy_tcp []))) = Some (c', Return ()) \<and>
    test_python_go_tcp_echo (sim_os (u ''READY:5'' @ [10]) \<lparr>returncode = 0, run_stdout = bytes_hex (wsent (tcp_writer c')) @ [10], run_stderr = []\<rparr>)
      (u ''/c'') (u ''/f'') \<lparr>sim_clock = 0, sim_running = []\<rparr> = Some (\<lparr>sim_clock = 1, sim_running = []\<rparr>, Return ())"
proof -
  let ?c = "TcpConn_init \<lparr>segs = [map of_char ''hello from Go to Python TCP!''], rtail = Eof\<rparr> (tcp_writer (toy_tcp []))"
  have l: "tcp_link ?c (map of_char ''hello from Go to Python TCP!'') []" "rtail (tcp_reader ?c) = Eof"
    by (simp_all add: tcp_link_def reader_ok_def TcpConn_init_def toy_tcp_def)
  obtain c' where c': "echo_handler ECHO_BUF tcp_ops ?c = Some (c', Return ())"
    using tcp_eof.echo_all [OF l, of ECHO_BUF] by (auto simp: ECHO_BUF_def)
  let ?OS = "sim_os (u ''READY:5'' @ [10]) \<lparr>returncode = 0, run_stdout = bytes_hex (wsent (tcp_writer c')) @ [10], run_stderr = []\<rparr>"
  have "test_python_go_tcp_echo ?OS (u ''/c'') (u ''/f'') \<lparr>sim_clock = 0, sim_running = []\<rparr> = Some (\<lparr>sim_clock = 1, sim_running = []\<rparr>, Return ())"
    by (rule python_go_tcp_passes [OF sim_announces, where before = "[]" and p = 7 and t = 0, OF _ _ _ _ l c'])
      (auto simp: sim_os_def second_def)
  with c' show ?thesis by blast
qed

end
