(* ===== verification/Runners.thy ===== *)
theory Runners
  imports Processes
begin

text \<open>
  The other runners that start programs: the encrypted servers of \<^verbatim>\<open>run_e2ee.py\<close> with the Python and the Node client, the
  WebTransport server of \<^verbatim>\<open>run_browser_wt.py\<close>, and the identity files that \<^verbatim>\<open>run_store_interop.py\<close> has one language
  write and another read.
\<close>

section \<open>Servers of the encrypted tests\<close>

text \<open>The text of a parsed value in an f-string or as an argument; what \<^verbatim>\<open>str\<close> makes of a float, a list or a
  dictionary is the parameter \<open>shown\<close>.\<close>

definition py_str :: "(json \<Rightarrow> pystr) \<Rightarrow> json \<Rightarrow> pystr" where
  "py_str shown v =
     (case v of
        JStr s \<Rightarrow> s
      | JInt i \<Rightarrow> dump_int i
      | JNull \<Rightarrow> u ''None''
      | JBool b \<Rightarrow> u (if b then ''True'' else ''False'')
      | _ \<Rightarrow> shown v)"

text \<open>Waiting for the end of a process that has its signal, and killing it when it does not end in time.\<close>

definition end_process :: "'w os \<Rightarrow> pid \<Rightarrow> 'w \<Rightarrow> 'w \<times> unit res" where
  "end_process OS proc w =
     (case os_wait OS proc 5 w of
        (w, Return code) \<Rightarrow> (w, Return ())
      | (w, Raise e) \<Rightarrow>
          if exn_class_of e = TimeoutExpired
          then res_bind (os_kill OS proc w) (\<lambda>w _. res_bind (os_wait OS proc 5 w) (\<lambda>w _. (w, Return ())))
          else (w, Raise e)
      | (w, Blocked) \<Rightarrow> (w, Blocked))"

definition kill_server :: "'w os \<Rightarrow> pid \<Rightarrow> 'w \<Rightarrow> 'w \<times> unit res" where
  "kill_server OS proc w = res_bind (os_terminate OS proc w) (\<lambda>w _. end_process OS proc w)"

definition info_line :: "pystr \<Rightarrow> json option res" where
  "info_line line =
     (if line = [] then Return None
      else case json_loads line of Return v \<Rightarrow> Return (Some v) | Raise e \<Rightarrow> Return None | Blocked \<Rightarrow> Blocked)"

text \<open>The start of the Go server, the same in both functions that spawn it; a line \<^verbatim>\<open>null\<close> counts as no information.\<close>

definition start_secure_server :: "'w os \<Rightarrow> pystr \<Rightarrow> 'w \<Rightarrow> ('w \<times> (pid \<times> json) res) option" where
  "start_secure_server OS file w =
     then_do (Some (os_popen OS [u ''go'', u ''run'', u ''./secure/crosstest/server''] (Some (GO_DIR (E2EE_ROOT file))) [] w)) (\<lambda>w proc.
       case os_time OS w of (w, t) \<Rightarrow>
       then_do (await_line OS proc info_line (t + 60 * second) w) (\<lambda>w found.
         let info = (case found of Some v \<Rightarrow> v | None \<Rightarrow> JNull) in
         Some (if info = JNull then not_ready OS proc ''Go secure server did not produce info.'' w
               else (w, Return (proc, info)))))"

definition json_fromhex :: "json \<Rightarrow> bytes res" where
  "json_fromhex v = (case v of JStr s \<Rightarrow> bytes_fromhex s | _ \<Rightarrow> Raise (Exn TypeError [Txt ''fromhex() argument must be str'']))"

definition spawn_secure_server ::
  "'w os \<Rightarrow> hs_env \<Rightarrow> pystr \<Rightarrow> nat \<Rightarrow> 'w \<Rightarrow> ('w \<times> (pid \<times> json \<times> json \<times> bytes \<times> identity) res) option" where
  "spawn_secure_server OS E file coins w =
     then_do (Some (w, identity_generate E coins)) (\<lambda>w py_identity.
     then_do (start_secure_server OS file w) (\<lambda>w (proc, info).
     then_do (Some (w, json_item (u ''port'') info)) (\<lambda>w tcp_port.
     then_do (Some (w, json_item (u ''wsPort'') info)) (\<lambda>w ws_port.
     then_do (Some (w, bind_res (json_item (u ''fingerprint'') info) json_fromhex)) (\<lambda>w server_fp.
     then_do (Some (os_write_stdin OS proc (bytes_hex (fingerprint E py_identity) @ [10]) w)) (\<lambda>w _.
       Some (os_sleep OS (second div 5) w, Return (proc, tcp_port, ws_port, server_fp, py_identity))))))))"

text \<open>The two tests with the Python client; \<open>net\<close> gives the network the conversation meets and the world after it.\<close>

definition e2ee_tcp_test ::
  "'w os \<Rightarrow> hs_env \<Rightarrow> aead \<Rightarrow> (nat \<Rightarrow> int) \<Rightarrow> (json \<Rightarrow> pystr) \<Rightarrow>
     ('w \<Rightarrow> 'w \<times> (pystr \<Rightarrow> int \<Rightarrow> (stream_reader \<times> stream_writer) res)) \<Rightarrow> pystr \<Rightarrow> nat \<Rightarrow> nat \<Rightarrow> nat \<Rightarrow> 'w \<Rightarrow> ('w \<times> unit res) option" where
  "e2ee_tcp_test OS E A now shown net file coins kc sc w =
     then_do (spawn_secure_server OS E file coins w) (\<lambda>w (proc, tcp_port, ws_port, server_fp, py_identity).
       case net w of (w, open_connection) \<Rightarrow>
         Some (try_finally (w, test_e2ee_tcp_echo E A now open_connection kc sc py_identity server_fp (py_str shown tcp_port))
           (kill_server OS proc)))"

definition e2ee_ws_test ::
  "'w os \<Rightarrow> hs_env \<Rightarrow> aead \<Rightarrow> (nat \<Rightarrow> int) \<Rightarrow> (json \<Rightarrow> pystr) \<Rightarrow> 'c ws_lib \<Rightarrow>
     ('w \<Rightarrow> 'w \<times> (pystr \<Rightarrow> pystr \<Rightarrow> 'c res)) \<Rightarrow> pystr \<Rightarrow> nat \<Rightarrow> nat \<Rightarrow> nat \<Rightarrow> 'w \<Rightarrow> ('w \<times> unit res) option" where
  "e2ee_ws_test OS E A now shown L net file coins kc sc w =
     then_do (spawn_secure_server OS E file coins w) (\<lambda>w (proc, tcp_port, ws_port, server_fp, py_identity).
       case net w of (w, connect) \<Rightarrow>
         Some (try_finally (w, test_e2ee_ws_echo E A now L connect kc sc py_identity server_fp (py_str shown ws_port))
           (kill_server OS proc)))"

text \<open>The test with the Node client, which prints its fingerprint and, after the conversation, a result.\<close>

definition spawn_go_secure_server_for_node :: "'w os \<Rightarrow> pystr \<Rightarrow> 'w \<Rightarrow> ('w \<times> (pid \<times> json \<times> json \<times> json) res) option" where
  "spawn_go_secure_server_for_node OS file w =
     then_do (start_secure_server OS file w) (\<lambda>w (proc, info).
       Some (w, bind_res (json_item (u ''port'') info) (\<lambda>tcp_port.
                bind_res (json_item (u ''wsPort'') info) (\<lambda>ws_port.
                bind_res (json_item (u ''fingerprint'') info) (\<lambda>fp. Return (proc, tcp_port, ws_port, fp))))))"

definition node_fingerprint :: "pystr \<Rightarrow> json option res" where
  "node_fingerprint line =
     (if line = [] then Return None
      else case json_loads line of
        Return v \<Rightarrow>
          (case json_item (u ''fingerprint'') v of
             Return fp \<Rightarrow> Return (Some fp)
           | Raise e \<Rightarrow> if exn_class_of e = KeyError then Return None else Raise e
           | Blocked \<Rightarrow> Blocked)
      | Raise e \<Rightarrow> Return None
      | Blocked \<Rightarrow> Blocked)"

fun split_lines :: "pystr \<Rightarrow> pystr list" where
  "split_lines [] = [[]]"
| "split_lines (c # cs) =
     (if c = 10 then [] # split_lines cs
      else (case split_lines cs of f # fs \<Rightarrow> (c # f) # fs | [] \<Rightarrow> [[c]]))"

definition node_result :: "pystr \<Rightarrow> json" where
  "node_result remaining_output =
     foldl (\<lambda>result l. let line = py_strip l in
         if line = [] then result else case json_loads line of Return v \<Rightarrow> v | _ \<Rightarrow> result)
       JNull (split_lines (py_strip remaining_output))"

definition check_node_result :: "'w os \<Rightarrow> pid \<Rightarrow> json \<Rightarrow> int \<Rightarrow> 'w \<Rightarrow> 'w \<times> unit res" where
  "check_node_result OS node_proc result code w =
     (if result = JNull
      then res_bind (os_read_stderr OS node_proc w) (\<lambda>w stderr.
        (w, Raise (Exn AssertionError [Txt ''Node E2EE client did not produce result. stderr: '', Str stderr])))
      else (w, bind_res (json_get (u ''match'') JNull result) (\<lambda>m.
        if m \<noteq> JBool True then Raise (Exn AssertionError [Txt ''Echo mismatch''])
        else if code \<noteq> 0 then Raise (Exn AssertionError [Txt ''Node exited with '', Str (dump_int code)])
        else Return ())))"

definition node_conversation :: "'w os \<Rightarrow> pid \<Rightarrow> pid \<Rightarrow> 'w \<Rightarrow> ('w \<times> unit res) option" where
  "node_conversation OS go_proc node_proc w =
     (case os_time OS w of (w, t) \<Rightarrow>
      then_do (await_line OS node_proc node_fingerprint (t + 30 * second) w) (\<lambda>w found.
        Some (case found of
            Some (JStr node_fp_hex) \<Rightarrow>
              res_bind (os_write_stdin OS go_proc (node_fp_hex @ [10]) w) (\<lambda>w _.
              res_bind (os_wait OS node_proc 30 w) (\<lambda>w code.
              res_bind (os_read_stdout OS node_proc w) (\<lambda>w remaining_output.
                check_node_result OS node_proc (node_result remaining_output) code w)))
          | Some JNull \<Rightarrow> (w, Raise (Exn AssertionError [Txt ''Node client did not produce fingerprint'']))
          | None \<Rightarrow> (w, Raise (Exn AssertionError [Txt ''Node client did not produce fingerprint'']))
          | Some _ \<Rightarrow> (w, Raise (Exn TypeError [Txt ''unsupported operand type(s) for +''])))))"

definition node_cleanup :: "'w os \<Rightarrow> pid \<Rightarrow> pid option \<Rightarrow> 'w \<Rightarrow> 'w \<times> unit res" where
  "node_cleanup OS go_proc node_proc w =
     res_bind (kill_server OS go_proc w) (\<lambda>w _.
       case node_proc of
         None \<Rightarrow> (w, Return ())
       | Some p \<Rightarrow>
           res_bind (os_poll OS p w) (\<lambda>w code.
             if code \<noteq> None then (w, Return ())
             else res_bind (os_kill OS p w) (\<lambda>w _. res_bind (os_wait OS p 5 w) (\<lambda>w _. (w, Return ())))))"

definition test_e2ee_node_tcp_echo :: "'w os \<Rightarrow> (json \<Rightarrow> pystr) \<Rightarrow> pystr \<Rightarrow> 'w \<Rightarrow> ('w \<times> unit res) option" where
  "test_e2ee_node_tcp_echo OS shown file w =
     then_do (spawn_go_secure_server_for_node OS file w) (\<lambda>w (go_proc, tcp_port, ws_port, server_fp_hex).
       case server_fp_hex of
         JStr fp \<Rightarrow>
           (case os_popen OS [u ''node'', path_join (path_dirname file) (u ''node_e2ee_client.mjs''), u ''127.0.0.1'', py_str shown tcp_port, fp]
                   (Some (JS_DIR (E2EE_ROOT file))) [] w of
              (w, Return node_proc) \<Rightarrow>
                map_option (\<lambda>x. try_finally x (node_cleanup OS go_proc (Some node_proc))) (node_conversation OS go_proc node_proc w)
            | (w, Raise e) \<Rightarrow> Some (try_finally (w, Raise e) (node_cleanup OS go_proc None))
            | (w, Blocked) \<Rightarrow> Some (w, Blocked))
       | _ \<Rightarrow> Some (try_finally (w, Raise (Exn TypeError [Txt ''expected str, bytes or os.PathLike object'']))
                 (node_cleanup OS go_proc None)))"

section \<open>The WebTransport server of the browser tests\<close>

definition spawn_py_wt_server :: "'w os \<Rightarrow> pystr \<Rightarrow> pystr \<Rightarrow> 'w \<Rightarrow> 'w \<times> (pid \<times> json \<times> json) res" where
  "spawn_py_wt_server OS conf file w =
     res_bind (os_popen OS [PYTHON (REPO_ROOT conf), path_join (path_dirname file) (u ''py_wt_echo_server.py'')] None [] w) (\<lambda>w proc.
     res_bind (os_readline OS proc w) (\<lambda>w l.
       let line = py_strip l in
       if line = [] then not_ready OS proc ''Python WT server did not output JSON.'' w
       else (w, bind_res (json_loads line) (\<lambda>info.
                bind_res (json_item (u ''port'') info) (\<lambda>port.
                bind_res (json_item (u ''cert_hash'') info) (\<lambda>cert_hash. Return (proc, port, cert_hash)))))))"

definition kill_wt_server :: "'w os \<Rightarrow> pid \<Rightarrow> 'w \<Rightarrow> 'w \<times> unit res" where
  "kill_wt_server OS proc w =
     (case res_bind (os_terminate OS proc w) (\<lambda>w _. os_wait OS proc 5 w) of
        (w, Return code) \<Rightarrow> (w, Return ())
      | (w, Raise e) \<Rightarrow>
          if is_exception e
          then res_bind (os_kill OS proc w) (\<lambda>w _. res_bind (os_wait OS proc 5 w) (\<lambda>w _. (w, Return ())))
          else (w, Raise e)
      | (w, Blocked) \<Rightarrow> (w, Blocked))"

definition test_browser_wt_python :: "'w os \<Rightarrow> pystr \<Rightarrow> pystr \<Rightarrow> 'w \<Rightarrow> 'w \<times> unit res" where
  "test_browser_wt_python OS conf file w =
     res_bind (spawn_py_wt_server OS conf file w) (\<lambda>w (proc, port, cert_hash).
       try_finally (w, Return ()) (kill_wt_server OS proc))"

definition test_browser_wt_go :: "pystr option \<Rightarrow> unit res" where
  "test_browser_wt_go go_cert_hash =
     (if go_cert_hash = None \<or> go_cert_hash = Some [] then Raise (Exn AssertionError [Txt ''Go server cert hash not available'']) else Return ())"

section \<open>Identity files written by one language and read by another\<close>

definition store_helper :: "'w os \<Rightarrow> string \<Rightarrow> pystr list \<Rightarrow> pystr \<Rightarrow> 'w \<Rightarrow> 'w \<times> pystr res" where
  "store_helper OS who args cwd w =
     res_bind (os_run OS args (Some cwd) None 120 w) (\<lambda>w result.
       if returncode result \<noteq> 0
       then (w, Raise (Exn TestFailed [Txt who, Txt '' helper failed: '', Str (run_stderr result)]))
       else (w, Return (py_strip (run_stdout result))))"

definition run_go_helper :: "'w os \<Rightarrow> pystr \<Rightarrow> pystr \<Rightarrow> pystr \<Rightarrow> 'w \<Rightarrow> 'w \<times> pystr res" where
  "run_go_helper OS file cmd path =
     store_helper OS ''Go'' [u ''go'', u ''run'', path_join (path_dirname file) (u ''go_store_helper.go''), cmd, path, u ''interop-test-password'']
       (GO_DIR (path_dirname (path_dirname file)))"

definition run_node_helper :: "'w os \<Rightarrow> pystr \<Rightarrow> pystr \<Rightarrow> pystr \<Rightarrow> 'w \<Rightarrow> 'w \<times> pystr res" where
  "run_node_helper OS file cmd path =
     store_helper OS ''Node'' [u ''node'', path_join (path_dirname file) (u ''node_store_helper.mjs''), cmd, path, u ''interop-test-password'']
       (path_join (JS_DIR (path_dirname (path_dirname file))) (u ''node''))"

definition same_key :: "('w \<Rightarrow> 'w \<times> pystr res) \<Rightarrow> ('w \<Rightarrow> 'w \<times> pystr res) \<Rightarrow> string \<Rightarrow> 'w \<Rightarrow> 'w \<times> unit res" where
  "same_key save load message w =
     res_bind (save w) (\<lambda>w saved. res_bind (load w) (\<lambda>w loaded.
       (w, if saved = loaded then Return () else Raise (Exn AssertionError [Txt message]))))"

text \<open>The file system is part of the world, the component \<open>files\<close> with its update \<open>set_files\<close>.\<close>

definition python_save ::
  "('w \<Rightarrow> file_system) \<Rightarrow> (file_system \<Rightarrow> 'w \<Rightarrow> 'w) \<Rightarrow> hs_env \<Rightarrow> aead \<Rightarrow> argon2 \<Rightarrow> nat \<Rightarrow> bytes \<Rightarrow> bytes \<Rightarrow> pystr \<Rightarrow> 'w \<Rightarrow> 'w \<times> pystr res" where
  "python_save files set_files E A H coins salt nonce path w =
     (case run_python_save E A H coins salt nonce path (files w) of (fs, r) \<Rightarrow> (set_files fs w, r))"

definition python_load :: "('w \<Rightarrow> file_system) \<Rightarrow> aead \<Rightarrow> argon2 \<Rightarrow> pystr \<Rightarrow> 'w \<Rightarrow> 'w \<times> pystr res" where
  "python_load files A H path w = (w, run_python_load A H path (files w))"

definition test_go_save_python_load :: "'w os \<Rightarrow> ('w \<Rightarrow> file_system) \<Rightarrow> aead \<Rightarrow> argon2 \<Rightarrow> pystr \<Rightarrow> pystr \<Rightarrow> 'w \<Rightarrow> 'w \<times> unit res" where
  "test_go_save_python_load OS files A H file tmp_dir =
     (let path = path_join tmp_dir (u ''go.ucid'') in
      same_key (run_go_helper OS file (u ''save'') path) (python_load files A H path) ''Go->Python pubkey mismatch'')"

definition test_python_save_go_load ::
  "'w os \<Rightarrow> ('w \<Rightarrow> file_system) \<Rightarrow> (file_system \<Rightarrow> 'w \<Rightarrow> 'w) \<Rightarrow> hs_env \<Rightarrow> aead \<Rightarrow> argon2 \<Rightarrow> nat \<Rightarrow> bytes \<Rightarrow> bytes \<Rightarrow>
     pystr \<Rightarrow> pystr \<Rightarrow> 'w \<Rightarrow> 'w \<times> unit res" where
  "test_python_save_go_load OS files set_files E A H coins salt nonce file tmp_dir =
     (let path = path_join tmp_dir (u ''py.ucid'') in
      same_key (python_save files set_files E A H coins salt nonce path) (run_go_helper OS file (u ''load'') path) ''Python->Go pubkey mismatch'')"

definition test_go_save_node_load :: "'w os \<Rightarrow> pystr \<Rightarrow> pystr \<Rightarrow> 'w \<Rightarrow> 'w \<times> unit res" where
  "test_go_save_node_load OS file tmp_dir =
     (let path = path_join tmp_dir (u ''go.ucid'') in
      same_key (run_go_helper OS file (u ''save'') path) (run_node_helper OS file (u ''load'') path) ''Go->Node pubkey mismatch'')"

definition test_node_save_go_load :: "'w os \<Rightarrow> pystr \<Rightarrow> pystr \<Rightarrow> 'w \<Rightarrow> 'w \<times> unit res" where
  "test_node_save_go_load OS file tmp_dir =
     (let path = path_join tmp_dir (u ''node.ucid'') in
      same_key (run_node_helper OS file (u ''save'') path) (run_go_helper OS file (u ''load'') path) ''Node->Go pubkey mismatch'')"

definition test_node_save_python_load :: "'w os \<Rightarrow> ('w \<Rightarrow> file_system) \<Rightarrow> aead \<Rightarrow> argon2 \<Rightarrow> pystr \<Rightarrow> pystr \<Rightarrow> 'w \<Rightarrow> 'w \<times> unit res" where
  "test_node_save_python_load OS files A H file tmp_dir =
     (let path = path_join tmp_dir (u ''node.ucid'') in
      same_key (run_node_helper OS file (u ''save'') path) (python_load files A H path) ''Node->Python pubkey mismatch'')"

definition test_python_save_node_load ::
  "'w os \<Rightarrow> ('w \<Rightarrow> file_system) \<Rightarrow> (file_system \<Rightarrow> 'w \<Rightarrow> 'w) \<Rightarrow> hs_env \<Rightarrow> aead \<Rightarrow> argon2 \<Rightarrow> nat \<Rightarrow> bytes \<Rightarrow> bytes \<Rightarrow>
     pystr \<Rightarrow> pystr \<Rightarrow> 'w \<Rightarrow> 'w \<times> unit res" where
  "test_python_save_node_load OS files set_files E A H coins salt nonce file tmp_dir =
     (let path = path_join tmp_dir (u ''py.ucid'') in
      same_key (python_save files set_files E A H coins salt nonce path) (run_node_helper OS file (u ''load'') path) ''Python->Node pubkey mismatch'')"

section \<open>No encrypted server is left behind\<close>

lemma end_process_ends:
  assumes ok: "os_ok OS running" and "end_process OS p w = (w', r)" "r \<noteq> Blocked"
  shows "running w' \<subseteq> running w - {p}"
proof -
  obtain w1 r1 where r1: "os_wait OS p 5 w = (w1, r1)" by (cases "os_wait OS p 5 w")
  have w1: "running w1 \<subseteq> running w" by (rule quietD [OF os_quiet(8) [OF ok] r1])
  show ?thesis
  proof (cases r1)
    case (Return c)
    with os_wait_ended [OF ok] assms(2) r1 w1 show ?thesis by (auto simp: end_process_def)
  next
    case (Raise e)
    then have e: "exn_class_of e = TimeoutExpired" using os_wait_raises [OF ok] r1 by blast
    obtain w2 where w2: "os_kill OS p w1 = (w2, Return ())" "running w2 \<subseteq> running w1 - {p}" by (rule os_kill_one [OF ok])
    obtain w3 r3 where r3: "os_wait OS p 5 w2 = (w3, r3)" by (cases "os_wait OS p 5 w2")
    have "running w3 \<subseteq> running w2" by (rule quietD [OF os_quiet(8) [OF ok] r3])
    with Raise e assms(2) r1 w1 w2 r3 show ?thesis by (cases r3) (auto simp: end_process_def)
  next
    case Blocked
    with assms(2,3) r1 show ?thesis by (simp add: end_process_def)
  qed
qed

lemma kill_server_kills:
  assumes ok: "os_ok OS running" and "kill_server OS p w = (w', r)" "r \<noteq> Blocked"
  shows "running w' \<subseteq> running w - {p}"
proof -
  obtain w1 where w1: "os_terminate OS p w = (w1, Return ())" "running w1 \<subseteq> running w" by (rule os_terminate_returns [OF ok])
  with end_process_ends [OF ok, of p w1 w' r] assms(2,3) show ?thesis by (auto simp: kill_server_def)
qed

lemma try_finally_kill_server:
  assumes ok: "os_ok OS running" and t: "try_finally (w, r) (kill_server OS p) = (w', r')" "r' \<noteq> Blocked"
  shows "running w' \<subseteq> running w - {p}"
proof -
  obtain w1 r1 where k: "kill_server OS p w = (w1, r1)" by (cases "kill_server OS p w")
  have "r1 \<noteq> Blocked" "w' = w1" using t k by (cases r; cases r1; auto)+
  with kill_server_kills [OF ok k] show ?thesis by simp
qed

text \<open>A test that got its encrypted server ends it, whatever the conversation does; this includes a server that does not
  react to the first signal.\<close>

theorem e2ee_server_ended:
  assumes "os_ok OS running" "spawn_secure_server OS E file coins w = Some (w1, Return (p, tcp_port, ws_port, server_fp, i))"
    and "running (fst (net w1)) \<subseteq> running w1"
    and "e2ee_tcp_test OS E A now shown net file coins kc sc w = Some (w', r)" "r \<noteq> Blocked"
  shows "running w' \<subseteq> running w1 - {p}"
proof (cases "net w1")
  case (Pair w2 oc)
  with assms(2,4) have "try_finally (w2, test_e2ee_tcp_echo E A now oc kc sc i server_fp (py_str shown tcp_port)) (kill_server OS p) = (w', r)"
    by (simp add: e2ee_tcp_test_def then_do_def)
  from try_finally_kill_server [OF assms(1) this assms(5)] assms(3) Pair show ?thesis by auto
qed

section \<open>Identity files of another language\<close>

text \<open>The test passes for every helper that writes the file the Python store would have written and prints the public key.\<close>

theorem foreign_identity_accepted:
  assumes "aead_ok A" "argon2_ok H" "length salt = 32" "length nonce = 24" "length (id_sk i) = 4896" "length (id_pk i) = 2592"
    and "save_identity A H salt nonce (path_join tmp_dir (u ''go.ucid'')) i STORE_PASSWORD fs = (files w', Return ())"
    and "run_go_helper OS file (u ''save'') (path_join tmp_dir (u ''go.ucid'')) w = (w', Return (bytes_hex (id_pk i)))"
  shows "test_go_save_python_load OS files A H file tmp_dir w = (w', Return ())"
  using load_saved [OF assms(1-4,7)] assms(5,6,8)
  by (cases i) (simp add: test_go_save_python_load_def same_key_def python_load_def run_python_load_def Let_def)

end
