(* ===== verification/P2pCross.thy ===== *)
theory P2pCross
  imports Runners
begin

text \<open>
  The run of \<^verbatim>\<open>runners/run_p2p_cross.py\<close>: three relays and a peer in each language, all as supervised processes. What
  the reader thread of a process and the process itself do during a wait is the list of turns of that wait, the argument
  \<open>T\<close> numbered by the waits in the order the code makes them. Names of executables are those of a POSIX system.
\<close>

section \<open>Supervised processes\<close>

record 'w cross =
  cr_world :: 'w
  cr_procs :: "(pystr \<times> pid \<times> managed_process) list"

definition on_world :: "('w \<Rightarrow> 'w \<times> 'a res) \<Rightarrow> 'w cross \<Rightarrow> 'w cross \<times> 'a res" where
  "on_world f s = (case f (cr_world s) of (w, r) \<Rightarrow> (s\<lparr>cr_world := w\<rparr>, r))"

definition cr_pid :: "'w cross \<Rightarrow> nat \<Rightarrow> pid" where
  "cr_pid s k = fst (snd (cr_procs s ! k))"

text \<open>\<^verbatim>\<open>start\<close>: the process is in the list only when \<^verbatim>\<open>Popen\<close> has returned. The result is its position in the list.\<close>

definition start :: "'w os \<Rightarrow> pystr \<Rightarrow> pystr \<Rightarrow> pystr list \<Rightarrow> 'w cross \<Rightarrow> 'w cross \<times> nat res" where
  "start OS root name command s =
     res_bind (on_world (os_popen OS command (Some root) []) s) (\<lambda>s p.
       (s\<lparr>cr_procs := cr_procs s @ [(name, p, mp_new)]\<rparr>, Return (length (cr_procs s))))"

definition wait_for :: "pystr \<Rightarrow> (json \<Rightarrow> bool) \<Rightarrow> turn list \<Rightarrow> nat \<Rightarrow> 'w cross \<Rightarrow> 'w cross \<times> json res" where
  "wait_for kind predicate turns k s =
     (case cr_procs s ! k of (name, p, m) \<Rightarrow>
      case wait_event name kind (u ''30'') predicate turns m of (m, r) \<Rightarrow>
        (s\<lparr>cr_procs := (cr_procs s)[k := (name, p, m)]\<rparr>, r))"

definition mp_send :: "'w os \<Rightarrow> pid \<Rightarrow> json \<Rightarrow> 'w \<Rightarrow> 'w \<times> unit res" where
  "mp_send OS p line w =
     (case line of
        JStr s \<Rightarrow> os_write_stdin OS p (s @ [10]) w
      | _ \<Rightarrow> (w, Raise (Exn TypeError [Txt ''unsupported operand type(s) for +''])))"

definition mp_close :: "'w os \<Rightarrow> pid \<Rightarrow> 'w \<Rightarrow> 'w \<times> unit res" where
  "mp_close OS p w =
     res_bind (os_poll OS p w) (\<lambda>w code.
     res_bind (if code = None then os_terminate OS p w else (w, Return ())) (\<lambda>w _.
     res_bind (end_process OS p w) (\<lambda>w _.
     res_bind (if os_stdin_closed OS p w then (w, Return ()) else os_close_stdin OS p w) (\<lambda>w _.
       os_close_stdout OS p w))))"

fun close_all :: "'w os \<Rightarrow> pid list \<Rightarrow> 'w \<Rightarrow> 'w \<times> unit res" where
  "close_all OS [] w = (w, Return ())"
| "close_all OS (p # ps) w = res_bind (mp_close OS p w) (\<lambda>w _. close_all OS ps w)"

section \<open>The run\<close>

text \<open>\<^verbatim>\<open>subprocess.run(..., check=True)\<close>.\<close>

definition run_checked :: "'w os \<Rightarrow> pystr list \<Rightarrow> pystr option \<Rightarrow> 'w \<Rightarrow> 'w \<times> unit res" where
  "run_checked OS args cwd w =
     res_bind (os_run OS args cwd None 60 w) (\<lambda>w result.
       (w, if returncode result = 0 then Return () else Raise (Exn CalledProcessError [Str (dump_int (returncode result))])))"

definition cross_build :: "'w os \<Rightarrow> pystr \<Rightarrow> pystr \<Rightarrow> pystr \<Rightarrow> 'w \<Rightarrow> 'w \<times> unit res" where
  "cross_build OS root relay_exe client_exe w =
     res_bind (run_checked OS [u ''node'', path_join root (u ''uniconn-js/scripts/build.mjs''), u ''core'', u ''node''] None w) (\<lambda>w _.
     res_bind (run_checked OS [u ''go'', u ''build'', u ''-o'', relay_exe, path_join root (u ''uniconn-tests/tools_go/relay.go'')]
       (Some (path_join root (u ''uniconn-go''))) w) (\<lambda>w _.
       run_checked OS [u ''go'', u ''build'', u ''-o'', client_exe, path_join root (u ''uniconn-tests/tools_go/go_client.go'')]
         (Some (path_join root (u ''uniconn-go''))) w))"

text \<open>One relay of the chain: its address for negotiation is what the next one gets as its seed.\<close>

definition start_relay ::
  "'w os \<Rightarrow> pystr \<Rightarrow> pystr \<Rightarrow> pystr \<Rightarrow> pystr list \<Rightarrow> turn list \<Rightarrow> 'w cross \<Rightarrow> 'w cross \<times> json res" where
  "start_relay OS root relay_exe name options turns s =
     res_bind (start OS root name (relay_exe # u ''-tcp=127.0.0.1:0'' # options) s) (\<lambda>s r.
       wait_for (u ''started'') (\<lambda>_. True) turns r s)"

definition seed_option :: "(json \<Rightarrow> pystr) \<Rightarrow> json \<Rightarrow> pystr res" where
  "seed_option shown info = bind_res (json_item (u ''negotiate'') info) (\<lambda>v. Return (u ''-seeds='' @ py_str shown v))"

text \<open>The arguments that name the relay a peer connects to.\<close>

definition relay_options :: "(json \<Rightarrow> pystr) \<Rightarrow> string \<Rightarrow> json \<Rightarrow> pystr list res" where
  "relay_options shown kind info =
     bind_res (json_item (u kind) info) (\<lambda>addr.
     bind_res (json_item (u ''fingerprint'') info) (\<lambda>fp.
       Return [u ''--relay'', py_str shown addr, u ''--relay-fp'', py_str shown fp]))"

definition start_peer ::
  "'w os \<Rightarrow> pystr \<Rightarrow> pystr \<Rightarrow> pystr list \<Rightarrow> pystr list res \<Rightarrow> pystr list \<Rightarrow> turn list \<Rightarrow> 'w cross \<Rightarrow> 'w cross \<times> (nat \<times> json) res" where
  "start_peer OS root name program relay options turns s =
     res_bind (lift_res relay s) (\<lambda>s relay.
     res_bind (start OS root name (program @ relay @ options) s) (\<lambda>s k.
     res_bind (wait_for (u ''connected'') (\<lambda>_. True) turns k s) (\<lambda>s info. (s, Return (k, info)))))"

text \<open>One pass of the loop over the two responders.\<close>

definition exchange ::
  "'w os \<Rightarrow> nat \<Rightarrow> nat \<Rightarrow> json \<Rightarrow> pystr \<Rightarrow> pystr \<Rightarrow> turn list \<Rightarrow> turn list \<Rightarrow> 'w cross \<Rightarrow> 'w cross \<times> unit res" where
  "exchange OS js peer info name response t_peer t_js s =
     res_bind (lift_res (json_item (u ''fingerprint'') info) s) (\<lambda>s fp.
     res_bind (on_world (mp_send OS (cr_pid s js) fp) s) (\<lambda>s _.
     res_bind (wait_for (u ''msg_received'') (\<lambda>_. True) t_peer peer s) (\<lambda>s event.
     res_bind (lift_res (assert_message event (u ''PING_FROM_TS'')) s) (\<lambda>s _.
     res_bind (wait_for (u ''msg_received'') (\<lambda>e. json_get (u ''target_fingerprint'') JNull e = Return fp) t_js js s) (\<lambda>s event.
     res_bind (lift_res (assert_message event response) s) (\<lambda>s _.
     res_bind (on_world (os_wait OS (cr_pid s peer) 10) s) (\<lambda>s code.
       (s, if code \<noteq> 0 then Raise (Exn RuntimeError [Str name, Txt '' failed during receipt verification'']) else Return ()))))))))"

definition cross_body ::
  "'w os \<Rightarrow> (json \<Rightarrow> pystr) \<Rightarrow> pystr \<Rightarrow> pystr \<Rightarrow> pystr \<Rightarrow> pystr \<Rightarrow> (nat \<Rightarrow> turn list) \<Rightarrow> 'w cross \<Rightarrow> 'w cross \<times> unit res" where
  "cross_body OS shown root executable relay_exe client_exe T s =
     res_bind (start_relay OS root relay_exe (u ''R1'') [u ''-neg=127.0.0.1:0''] (T 0) s) (\<lambda>s i1.
     res_bind (lift_res (seed_option shown i1) s) (\<lambda>s seed1.
     res_bind (start_relay OS root relay_exe (u ''R2'') [u ''-kcp=127.0.0.1:0'', u ''-neg=127.0.0.1:0'', seed1] (T 1) s) (\<lambda>s i2.
     res_bind (lift_res (seed_option shown i2) s) (\<lambda>s seed2.
     res_bind (start_relay OS root relay_exe (u ''R3'') [u ''-neg=127.0.0.1:0'', seed2] (T 2) s) (\<lambda>s i3.
     res_bind (start_peer OS root (u ''Python'') [executable, path_join root (u ''uniconn-tests/tools_py/py_client.py'')]
       (relay_options shown ''tcp'' i3) [u ''--role'', u ''responder'', u ''--wait-ack''] (T 3) s) (\<lambda>s (py, py_info).
     res_bind (start_peer OS root (u ''Go'') [client_exe] (relay_options shown ''kcp'' i2)
       [u ''--proto'', u ''kcp'', u ''--role'', u ''responder'', u ''--wait-ack''] (T 4) s) (\<lambda>s (go, go_info).
     res_bind (start_peer OS root (u ''Node'') [u ''node'', path_join root (u ''uniconn-tests/tools_ts/p2p_client.mjs'')]
       (relay_options shown ''tcp'' i1) [] (T 5) s) (\<lambda>s (js, _).
     res_bind (exchange OS js py py_info (u ''Python'') (u ''PONG_FROM_PY'') (T 6) (T 7) s) (\<lambda>s _.
     res_bind (exchange OS js go go_info (u ''Go'') (u ''PONG_FROM_GO'') (T 8) (T 9) s) (\<lambda>s _.
     res_bind (on_world (os_close_stdin OS (cr_pid s js)) s) (\<lambda>s _.
     res_bind (on_world (os_wait OS (cr_pid s js) 10) s) (\<lambda>s code.
       (s, if code \<noteq> 0 then Raise (Exn RuntimeError [Txt ''Node client failed after data exchange'']) else Return ())))))))))))))"

definition cross_finally :: "'w os \<Rightarrow> 'w cross \<Rightarrow> 'w cross \<times> unit res" where
  "cross_finally OS s = on_world (close_all OS (rev (map (\<lambda>(name, p, m). p) (cr_procs s)))) s"

definition cross_main ::
  "'w os \<Rightarrow> (json \<Rightarrow> pystr) \<Rightarrow> pystr \<Rightarrow> pystr \<Rightarrow> pystr \<Rightarrow> (nat \<Rightarrow> turn list) \<Rightarrow> 'w \<Rightarrow> 'w cross \<times> unit res" where
  "cross_main OS shown root executable temporary T w =
     (let relay_exe = path_join temporary (u ''relay''); client_exe = path_join temporary (u ''go-client'') in
      res_bind (on_world (cross_build OS root relay_exe client_exe) \<lparr>cr_world = w, cr_procs = []\<rparr>) (\<lambda>s _.
        try_finally (cross_body OS shown root executable relay_exe client_exe T s) (cross_finally OS)))"

section \<open>Closing\<close>

text \<open>What the pipes and an ended process are relied on for: closing a pipe does not fail, nor does asking a process for its
  state or waiting for one that has ended.\<close>

definition pipes_close :: "'w os \<Rightarrow> ('w \<Rightarrow> pid set) \<Rightarrow> bool" where
  "pipes_close OS running \<longleftrightarrow>
     (\<forall>p w. snd (os_close_stdin OS p w) = Return () \<and> snd (os_close_stdout OS p w) = Return ()) \<and>
     (\<forall>p w. snd (os_poll OS p w) \<in> range Return) \<and>
     (\<forall>p t w. p \<notin> running w \<longrightarrow> snd (os_wait OS p t w) \<in> range Return)"

lemma end_process_returns:
  assumes ok: "os_ok OS running" "pipes_close OS running" and "end_process OS p w = (w', r)"
  shows "r = Blocked \<or> r = Return ()"
proof -
  obtain w1 r1 where r1: "os_wait OS p 5 w = (w1, r1)" by (cases "os_wait OS p 5 w")
  obtain w2 where w2: "os_kill OS p w1 = (w2, Return ())" "running w2 \<subseteq> running w1 - {p}" by (rule os_kill_one [OF ok(1)])
  then have "snd (os_wait OS p 5 w2) \<in> range Return" using ok(2) unfolding pipes_close_def by blast
  with w2(1) r1 assms(3) show ?thesis
    by (cases r1; cases "os_wait OS p 5 w2") (auto simp: end_process_def dest: os_wait_raises [OF ok(1)])
qed

lemma mp_close_ends:
  assumes ok: "os_ok OS running" "pipes_close OS running" and c: "mp_close OS p w = (w', r)"
  shows "r = Blocked \<or> r = Return () \<and> running w' \<subseteq> running w - {p}"
proof -
  have po: "snd (os_poll OS p w) \<in> range Return" "\<And>w. snd (os_close_stdin OS p w) = Return ()" "\<And>w. snd (os_close_stdout OS p w) = Return ()"
    using ok(2) unfolding pipes_close_def by blast+
  obtain w1 code where w1: "os_poll OS p w = (w1, Return code)" using po(1) by (cases "os_poll OS p w") auto
  let ?sig = "if code = None then os_terminate OS p w1 else (w1, Return ())"
  obtain wt where wt: "os_terminate OS p w1 = (wt, Return ())" "running wt \<subseteq> running w1" by (rule os_terminate_returns [OF ok(1)])
  then obtain w2 where w2: "?sig = (w2, Return ())" "running w2 \<subseteq> running w1" by (cases "code = None") auto
  obtain w3 r3 where w3: "end_process OS p w2 = (w3, r3)" by (cases "end_process OS p w2")
  let ?in = "if os_stdin_closed OS p w3 then (w3, Return ()) else os_close_stdin OS p w3"
  obtain w4 where w4: "?in = (w4, Return ())" "running w4 \<subseteq> running w3"
    using po(2) [of w3] quietD [OF os_quiet(5) [OF ok(1)], of p w3]
    by (cases "os_stdin_closed OS p w3"; cases "os_close_stdin OS p w3") auto
  obtain w5 where w5: "os_close_stdout OS p w4 = (w5, Return ())" using po(3) [of w4] by (cases "os_close_stdout OS p w4") auto
  have "running w5 \<subseteq> running w4" "running w1 \<subseteq> running w"
    by (rule quietD [OF os_quiet(6) [OF ok(1)] w5], rule quietD [OF os_quiet(9) [OF ok(1)] w1])
  moreover have "(w', r) = res_bind (w3, r3) (\<lambda>w _. (w5, Return ()))"
    using c w1 w2(1) w3 w4(1) w5 by (cases r3) (auto simp: mp_close_def)
  ultimately show ?thesis
    using end_process_returns [OF ok w3] end_process_ends [OF ok(1) w3] w2(2) w4(2) by (cases r3) (simp_all, blast)
qed

lemma close_all_ends:
  assumes "os_ok OS running" "pipes_close OS running" "close_all OS ps w = (w', r)"
  shows "r = Blocked \<or> r = Return () \<and> running w' \<subseteq> running w - set ps"
  using assms(3)
proof (induction ps arbitrary: w)
  case (Cons p ps)
  obtain w1 r1 where c: "mp_close OS p w = (w1, r1)" by (cases "mp_close OS p w")
  from mp_close_ends [OF assms(1,2) c] show ?case
  proof (elim disjE conjE)
    assume r: "r1 = Return ()" "running w1 \<subseteq> running w - {p}"
    then have "close_all OS ps w1 = (w', r)" using Cons.prems c by simp
    from Cons.IH [OF this] r(2) show ?case by auto
  qed (use Cons.prems c in simp)
qed simp

text \<open>Without these assumptions the loop stops at the first close that fails and leaves the other processes alone.\<close>

lemma close_all_stops: "mp_close OS p w = (w', Raise e) \<Longrightarrow> close_all OS (p # ps) w = (w', Raise e)"
  by simp

section \<open>No process of the run is left behind\<close>

definition owned :: "('w \<Rightarrow> pid set) \<Rightarrow> pid set \<Rightarrow> 'w cross \<Rightarrow> bool" where
  "owned running before s \<longleftrightarrow> running (cr_world s) \<subseteq> before \<union> set (map (\<lambda>(name, p, m). p) (cr_procs s))"

lemma owned_bind:
  assumes "owned running A (fst m)" "\<And>s a. owned running A s \<Longrightarrow> owned running A (fst (f s a))"
  shows "owned running A (fst (res_bind m f))"
  using assms by (cases "(m, f)" rule: res_bind.cases) auto

lemma owned_pure [simp]: "owned running A s \<Longrightarrow> owned running A (fst (lift_res r s))"
  by (cases r) (simp_all add: lift_res_def)

lemma owned_on_world:
  assumes "quiet running f" "owned running A s"
  shows "owned running A (fst (on_world f s))"
proof (cases "f (cr_world s)")
  case (Pair w r)
  from quietD [OF assms(1) Pair] assms(2) show ?thesis by (auto simp: owned_def on_world_def Pair)
qed

lemma owned_start:
  assumes ok: "os_ok OS running" and "owned running A s"
  shows "owned running A (fst (start OS root name command s))"
proof (cases "os_popen OS command (Some root) [] (cr_world s)")
  case (Pair w r)
  have "starts_one running (os_popen OS command (Some root) [])" using ok by (simp add: os_ok_def)
  then have "running w \<subseteq> running (cr_world s) \<union> (case r of Return p \<Rightarrow> {p} | _ \<Rightarrow> {})"
    unfolding starts_one_def by (metis Pair fst_conv snd_conv)
  with assms(2) Pair show ?thesis by (cases r) (auto simp: owned_def start_def on_world_def)
qed

lemma owned_wait:
  assumes "owned running A s"
  shows "owned running A (fst (wait_for kind predicate turns k s))"
proof -
  obtain name p m where k: "cr_procs s ! k = (name, p, m)" by (cases "cr_procs s ! k")
  obtain m' r where "wait_event name kind (u ''30'') predicate turns m = (m', r)" by (cases "wait_event name kind (u ''30'') predicate turns m")
  moreover have "map (\<lambda>(name, p, m). p) ((cr_procs s)[k := (name, p, m')]) = map (\<lambda>(name, p, m). p) (cr_procs s)"
  proof (cases "k < length (cr_procs s)")
    case True
    then have "(map (\<lambda>(name, p, m). p) (cr_procs s))[k := p] = map (\<lambda>(name, p, m). p) (cr_procs s)"
      using k by (metis (mono_tags, lifting) case_prod_conv list_update_id nth_map)
    then show ?thesis by (simp add: map_update)
  qed (simp add: list_update_beyond)
  ultimately show ?thesis using assms k by (simp add: owned_def wait_for_def)
qed

lemma mp_send_quiet: "os_ok OS running \<Longrightarrow> quiet running (mp_send OS p line)"
  using os_quiet(4) [of OS running p] by (cases line) (simp_all add: quiet_def mp_send_def)

lemmas owned_steps = owned_bind owned_pure owned_start owned_wait owned_on_world mp_send_quiet os_quiet

lemma owned_relay: "os_ok OS running \<Longrightarrow> owned running A s \<Longrightarrow> owned running A (fst (start_relay OS root exe name options turns s))"
  unfolding start_relay_def by (intro owned_steps)

lemma owned_peer: "os_ok OS running \<Longrightarrow> owned running A s \<Longrightarrow>
    owned running A (fst (start_peer OS root name program relay options turns s))"
  unfolding start_peer_def by (intro owned_steps) simp_all

lemma owned_exchange: "os_ok OS running \<Longrightarrow> owned running A s \<Longrightarrow>
    owned running A (fst (exchange OS js peer info name response t1 t2 s))"
  unfolding exchange_def by (intro owned_steps) simp_all

lemma owned_body:
  assumes "os_ok OS running" "owned running A s"
  shows "owned running A (fst (cross_body OS shown root executable relay_exe client_exe T s))"
  unfolding cross_body_def
  by (intro owned_bind owned_relay owned_peer owned_exchange owned_on_world owned_pure os_quiet assms; clarsimp?)
    (intro owned_bind owned_relay owned_peer owned_exchange owned_on_world owned_pure os_quiet assms; clarsimp?)+

lemma run_checked_quiet: "os_ok OS running \<Longrightarrow> quiet running (run_checked OS args cwd)"
  unfolding run_checked_def [abs_def] by (intro quiet_bind quiet_pure os_quiet)

lemma cross_build_quiet: "os_ok OS running \<Longrightarrow> quiet running (cross_build OS root relay_exe client_exe)"
  unfolding cross_build_def [abs_def] by (intro quiet_bind run_checked_quiet)

text \<open>C40. However the run of the relays and peers ends (a process that exits, a wait that times out, a wrong message), no process
  it started is running afterwards, if the pipes of the children can be closed.\<close>

theorem cross_leaves_nothing:
  assumes "os_ok OS running" "pipes_close OS running"
    and "cross_main OS shown root executable temporary T w = (s, r)" "r \<noteq> Blocked"
  shows "running (cr_world s) \<subseteq> running w"
proof -
  let ?s0 = "\<lparr>cr_world = w, cr_procs = []\<rparr>" and ?relay = "path_join temporary (u ''relay'')" and ?client = "path_join temporary (u ''go-client'')"
  obtain s1 r1 where b: "on_world (cross_build OS root ?relay ?client) ?s0 = (s1, r1)" by fastforce
  have "owned running (running w) ?s0" by (simp add: owned_def)
  then have o1: "owned running (running w) s1"
    using owned_on_world [OF cross_build_quiet [OF assms(1)], of "running w" ?s0 root ?relay ?client] b by simp
  have p1: "cr_procs s1 = []" using b by (auto simp: on_world_def split: prod.splits)
  obtain s2 r2 where x: "cross_body OS shown root executable ?relay ?client T s1 = (s2, r2)" by fastforce
  have o2: "owned running (running w) s2" using owned_body [OF assms(1) o1] x by (metis fst_conv)
  obtain w3 r3 where f: "close_all OS (rev (map (\<lambda>(name, p, m). p) (cr_procs s2))) (cr_world s2) = (w3, r3)" by fastforce
  have "r3 = Blocked \<or> running w3 \<subseteq> running w"
    using close_all_ends [OF assms(1,2) f] o2 by (auto simp: owned_def)
  moreover have "cross_finally OS s2 = (s2\<lparr>cr_world := w3\<rparr>, r3)" using f by (simp add: cross_finally_def on_world_def)
  moreover have "(s, r) = res_bind (s1, r1) (\<lambda>s _. try_finally (cross_body OS shown root executable ?relay ?client T s) (cross_finally OS))"
    using assms(3) b by (simp add: cross_main_def Let_def)
  moreover have "running (cr_world s1) \<subseteq> running w" using o1 p1 by (simp add: owned_def)
  ultimately show ?thesis using x assms(4) by (cases r1; cases r2; cases r3) auto
qed

theorem cross_leaves_nothing_witness:
  "\<exists>s e. cross_main (sim_os [] \<lparr>returncode = 0, run_stdout = [], run_stderr = []\<rparr>) (\<lambda>_. []) [] [] [] (\<lambda>_. [])
      \<lparr>sim_clock = 0, sim_running = [3]\<rparr> = (s, Raise e) \<and> exn_class_of e = TimeoutError \<and> set (sim_running (cr_world s)) \<subseteq> {3}"
proof -
  let ?OS = "sim_os [] \<lparr>returncode = 0, run_stdout = [], run_stderr = []\<rparr>"
  let ?w = "\<lparr>sim_clock = 0, sim_running = [3]\<rparr>"
  have p: "pipes_close ?OS (\<lambda>w. set (sim_running w))" by (simp add: pipes_close_def sim_os_def)
  obtain s e where m: "cross_main ?OS (\<lambda>_. []) [] [] [] (\<lambda>_. []) ?w = (s, Raise e)" "exn_class_of e = TimeoutError"
    by (simp add: cross_main_def cross_build_def run_checked_def sim_os_def on_world_def cross_body_def start_relay_def start_def
        wait_for_def mp_timeout_def cross_finally_def mp_close_def end_process_def Let_def)
  from cross_leaves_nothing [OF sim_os_ok(1) p m(1)] m show ?thesis by auto
qed

end
