(* ===== verification/Spec2Isabelle.thy ===== *)
theory Spec2Isabelle
  imports BytePipe ConnTypes MultiListener NodeProgress PyClient Kcp P2pCross
begin

text \<open>
  A verification library for the Python implementation of uniconn (\<^verbatim>\<open>src/uniconn-py/uniconn\<close>): one connection
  interface over several transports, an encrypted and authenticated channel on top of it, negotiation
  between transports, and a peer-to-peer node that reaches other peers through a relay.

  \<^bold>\<open>How the program is put together.\<close> Every transport implements the abstract classes of \<^verbatim>\<open>conn.py\<close>: a \<^verbatim>\<open>Dialer\<close>
  and a \<^verbatim>\<open>Listener\<close> give \<^verbatim>\<open>Conn\<close> objects with \<^verbatim>\<open>read\<close>, \<^verbatim>\<open>write\<close>, \<^verbatim>\<open>close\<close>. \<^verbatim>\<open>secure/\<close> runs a handshake on any
  \<^verbatim>\<open>Conn\<close> and returns a \<^verbatim>\<open>SecureConn\<close>, which is again a \<^verbatim>\<open>Conn\<close>. \<^verbatim>\<open>multi/\<close> chooses a transport when dialling and
  merges several listeners. \<^verbatim>\<open>p2p/\<close> keeps an encrypted control connection to a relay and builds connections
  to peers as encrypted connections inside encrypted connections.

  \<^bold>\<open>Theories and what they model.\<close>
  \<^item> \<open>Prelude\<close>, \<open>PyText\<close>: bytes as 8-bit words, text as code points, results (\<open>res\<close>: a value, a raised exception,
    or a coroutine that still waits), big-endian integers, slices, UTF-8, hexadecimal and decimal text,
    addresses; lemmas shared by all components.
  \<^item> \<open>ConnIface\<close> (\<^verbatim>\<open>conn.py\<close>, \<^verbatim>\<open>errors.py\<close>): a connection is a record of methods on its state. Locales
    \<open>conn_stream\<close> (bytes arrive in order, in pieces of any size) and \<open>conn_shut\<close> (what closing means).
    \<open>ListenerIface\<close>: locale \<open>fifo_listener\<close>. \<open>AsyncioStreams\<close>: the asyncio streams and queues they use.
  \<^item> \<open>Message\<close> (\<^verbatim>\<open>secure/constants.py\<close>, \<^verbatim>\<open>secure/message.py\<close>), \<open>SecureConn\<close> (\<^verbatim>\<open>secure/conn.py\<close>),
    \<open>Handshake\<close> (\<^verbatim>\<open>secure/identity.py\<close>, \<^verbatim>\<open>secure/handshake.py\<close>): proved once in the context of the contracts, for any
    carrier. \<open>SecureChannel\<close>: the instances over TCP and over an encrypted connection, and the security
    properties. \<open>Store\<close> (\<^verbatim>\<open>secure/store.py\<close>): the encrypted identity file.
  \<^item> \<open>Tcp\<close>, \<open>WebSocket\<close>, \<open>Kcp\<close>, \<open>Quic\<close>, \<open>WebTransport\<close>: connection, dialer and listener of each transport
    (the files of the same name), each shown to keep the contracts.
  \<^item> \<open>Json\<close>: the part of the standard library's \<^verbatim>\<open>json\<close> in use. \<open>Envelope\<close> (\<^verbatim>\<open>p2p/protocol.py\<close> and the envelope
    functions of \<^verbatim>\<open>p2p/node.py\<close>): control messages.
  \<^item> \<open>Negotiate\<close>, \<open>MultiListener\<close> (\<^verbatim>\<open>multi/__init__.py\<close>): negotiation and \<^verbatim>\<open>MultiDialer\<close>; \<^verbatim>\<open>MultiListener\<close> as a
    transition system.
  \<^item> \<open>NodeOps\<close>, \<open>Node\<close>, \<open>NodeProgress\<close> (\<^verbatim>\<open>p2p/node.py\<close>): what a node says on its connections; sessions, setup
    tasks, the control loop, \<^verbatim>\<open>dial_peer\<close>, \<^verbatim>\<open>accept\<close> and \<^verbatim>\<open>close\<close> as a step relation; the proof that stopping a
    session cannot deadlock. \<open>Ownership\<close>: the abstract machine \<open>Node\<close> refines.
  \<^item> \<open>ConnTypes\<close>: a typing contract for connections (locale \<open>conn_typed\<close>), kept by TCP and inherited by encrypted
    connections. \<open>BytePipe\<close>: the abstract pipe that every carrier with the contract \<open>conn_stream\<close> refines.
  \<^item> \<open>PyClient\<close>, \<open>Echo\<close>, \<open>Harness\<close> (\<^verbatim>\<open>src/uniconn-tests\<close>): the command-line peer, the echo servers (locales
    \<open>conn_eof\<close>, \<open>conn_tracked\<close>) and the clients of the interoperability tests. \<open>PyClient\<close> also puts two nodes
    and a relay together (locale \<open>peer_legs\<close>). \<open>Processes\<close>, \<open>Runners\<close>, \<open>P2pCross\<close> (\<^verbatim>\<open>uniconn-tests/runners\<close>): the tests that
    start programs, over an operating system that is a parameter (\<open>os\<close>).

  \<^bold>\<open>State and concurrency.\<close> Objects are records with the attributes of the class; a method takes the state and
  returns the new state with a result. Code that runs concurrently (\<open>MultiListener\<close>, \<open>Node\<close>) is cut at its
  \<open>await\<close>s: one definition per piece between two suspension points, and an \<open>inductive\<close> relation whose rules are
  the interleavings asyncio allows. Shared objects are entries of lists, referred to by index. Cancellation and
  timeouts strike at an \<open>await\<close>, as an exception that is a parameter of the step.

  \<^bold>\<open>What is shown.\<close>
  \<^item> Delivery: two honest ends complete the handshake with matching keys and read exactly what was written,
    under any segmentation (\<open>session_over_tcp\<close>, \<open>session_over_websocket\<close>, \<open>session_through_relay\<close>,
    \<open>frame_any_segmentation\<close>), and for any mix of reads and writes an encrypted connection refines an abstract
    pipe of bytes (\<open>secure_refines_pipe\<close>); dialling a peer succeeds with an honest relay and peer (\<open>dial_completes\<close>), and
    two nodes on different transports exchange their greetings (\<open>peers_reach_each_other\<close>); the echo server returns
    exactly what it got (\<open>echo_serves_all\<close>).
  \<^item> Nothing goes wrong: no sequence of calls on an encrypted connection ends in an internal error
    (\<open>secure_calls_typed\<close>); the echo handler always returns or waits (\<open>echo_handler_returns\<close>).
  \<^item> Security against any carrier: only the prefix of what the peer wrote is delivered, no nonce repeats, no
    replay is accepted, peers are authenticated, a responder is silent before it has checked the initiator
    (\<open>secure_delivers_prefix\<close>, \<open>nonces_never_repeat\<close>, \<open>replay_rejected\<close>, \<open>initiator_authenticates\<close>,
    \<open>dial_authenticates\<close>, \<open>responder_silent\<close>).
  \<^item> Formats: round trips and exact acceptance of HELLO messages, envelopes, negotiation and identity files.
  \<^item> Resources: no connection is lost or leaked by \<^verbatim>\<open>MultiListener\<close> and \<^verbatim>\<open>Node\<close>, and closing releases all
    (\<open>multi_conserves\<close>, \<open>multi_close_no_leak\<close>, \<open>node_refines_ownership\<close>, \<open>node_no_leak\<close>, \<open>node_close_releases\<close>,
    \<open>node_stop_completes\<close>). The tests leave no process behind (\<open>runners_leave_no_server\<close>, \<open>e2ee_server_ended\<close>,
    \<open>cross_leaves_nothing\<close>), and a client in another language passes when the echo server does its work
    (\<open>python_go_tcp_passes\<close>).
  \<^item> Transports: KCP demultiplexes datagrams by address, WebTransport keeps its streams apart and queues each
    once, a QUIC connection behaves as a TCP connection (\<open>kcp_demux\<close>, \<open>kcp_accept_delivers\<close>, \<open>wt_listener_queue\<close>,
    \<open>wt_stream_delivers\<close>, \<open>wt_dial_outcome\<close>, \<open>quic_equals_tcp\<close>).
  \<^item> Where the code does something else than it promises: \<open>oversize_write_breaks_peer\<close>, \<open>hello_parse_exact\<close>,
    \<open>interrupted_read_breaks_stream\<close>, \<open>wait_event_overlooks\<close>, \<open>go_tcp_echo_first_segment\<close>,
    \<open>closed_node_connects\<close>, \<open>multi_ended_refuses\<close>, \<open>kcp_closed_address_dead\<close>, \<open>kcp_silence_is_eof\<close>,
    \<open>ws_empty_write_is_eof\<close>, \<open>malformed_ready_not_killed\<close>, \<open>close_all_stops\<close>, \<open>runner_paths\<close>.

  \<^bold>\<open>Parameters.\<close> Third-party packages are arguments with their documented behaviour as named hypotheses: the
  cipher (\<open>aead_ok\<close>), BLAKE3, ML-DSA-87 and ML-KEM-1024 (\<open>env_ok\<close>), Argon2id, the WebSocket, KCP and QUIC
  libraries (\<open>ws_lib_ok\<close>, \<open>kcp_lib_ok\<close>, \<open>wt_lib_ok\<close>), the HTTP client, name resolution, the clock, the file system, and for the
  runners the processes of the operating system (\<open>os_ok\<close>, \<open>pipes_close\<close>).
  Every hypothesis has a concrete instance in the witnesses.

  \<^bold>\<open>Fuel and bounds.\<close> Only \<^verbatim>\<open>json.loads\<close> uses fuel, twice the length of the text plus two; lemma \<open>jscan_fuel\<close> shows
  that more never changes the result. \<open>read_loop\<close> terminates because every read that does not end it makes
  progress. The loops of the echo programs and of the command-line peer are partial functions, \<open>None\<close> when they run for
  ever; that they return is proved. So is the loop that waits for a line of a server; it returns when the clock runs
  (\<open>await_returns\<close>). A wait for an event of a supervised process gets one list element per poll. The 50 polls of the WebTransport dialer are the source's own bound. Counters are unbounded
  integers as in Python; packing them into 8 bytes fails above \<open>2 ^ 64\<close>, as in the source.

  \<^bold>\<open>Not modelled.\<close> The internals of the libraries above, \<^verbatim>\<open>urlparse\<close> (its result is a parameter), the length of
  timeouts (only that they may strike), logging, loading of certificates, the thread of the KCP client (its
  callback is an atomic step), Python's recursion limit and memory exhaustion. The package files
  \<^verbatim>\<open>__init__.py\<close> that only re-export names, the test suites, the WebTransport and KCP echo tests (their data comes by
  events during a read, which the connection interface of the tests does not have), the generation of certificates, the
  script \<^verbatim>\<open>web/run_web.py\<close> that waits to be interrupted, and the Go and TypeScript implementations.
\<close>

section \<open>Two peers on different transports\<close>

lemma ws_tcp_legs: "ws_lib_ok L lk \<Longrightarrow> peer_legs (ws_ops L) (ws_link lk) tcp_ops tcp_link"
  using ws_stream tcp.conn_stream_axioms by (auto simp: peer_legs_def conn_pair_def)

lemma toy_leg_sizes:
  assumes "length reply = 8843"
  shows "list_all msg_ok [(0, reply)]" "list_all msg_ok [(0, envelope_line RELAY_ACK ack_ok @ [10] @ reply)]"
  using assms ack_ok_props(2) by (auto simp: msg_ok_def ENVELOPE_LIMIT_def MAX_MESSAGE_SIZE_def)

lemma toy_ws_link:
  assumes "data \<noteq> []"
  shows "ws_link (\<lambda>w ms out. w = (ms, out)) (WsConn_init ([WsBinary data], []) None None) data []"
  unfolding ws_link_def WsConn_init_def
  by (intro conjI exI [of _ "[WsBinary data]"] exI [of _ "[]"] exI [of _ "[data]"]) (use assms in \<open>auto simp: ws_bytes_def\<close>)

lemma toy_token:
  "json_item (u ''session_token'') (JObj [(u ''session_token'', JStr (u ''t''))]) = Return (JStr (u ''t''))"
  "json_plain (JStr (u ''t''))"
  "length (envelope_line ACCEPT_RELAY (accept_relay_payload (JStr (u ''t'')))) + 30 \<le> MAX_MESSAGE_SIZE"
  by (simp_all add: envelope_line_def envelope_def accept_relay_payload_def ACCEPT_RELAY_def dump_u u_def scalar_def
      json_item_def json_get_def MAX_MESSAGE_SIZE_def)

text \<open>C6. Two peers reach each other through an honest relay, one connected to it over a WebSocket, the other
  over TCP. There are two byte streams \<open>to_peer\<close> and \<open>to_dialer\<close> such that, for any coins:
  the node that dials, given the relay's reply and encrypted frames that carry, cut in any way, the
  acknowledgement followed by \<open>to_dialer\<close>, gets its connection, prints the greeting of the other client, and what it has sent
  to the relay is its request followed by \<open>to_peer\<close>; the node that accepts, given frames that carry \<open>to_peer\<close>, gets its
  connection, prints the greeting of the dialler, and has sent its acceptance followed by \<open>to_dialer\<close>. So a
  relay that copies bytes between the two connections is all they need.\<close>

theorem peers_reach_each_other:
  assumes "ws_lib_ok L lk" "env_ok (pe_hs P)" "aead_ok (pe_aead P)" "pe_verify P = None"
    and "pe_hs Q = pe_hs P" "pe_aead Q = pe_aead P" "pe_verify Q = None"
    and "identity_generate (pe_hs P) gi = Return i" "identity_generate (pe_hs P) gp = Return p"
      "identity_generate (pe_hs P) gr = Return r"
    and "json_item (u ''session_token'') pl = Return token" "json_plain token"
      "length (envelope_line ACCEPT_RELAY (accept_relay_payload token)) + 30 \<le> MAX_MESSAGE_SIZE"
  shows "\<exists>K replyI ssI replyR ssR to_peer to_dialer. kem_backend (pe_hs P) = Some K \<and>
    length replyI = 8798 \<and> length replyR = 8798 \<and> length to_peer = 8843 \<and> length to_dialer = 8843 \<and>
    responder_reply (pe_hs P) K kI sI r (fst (kem_keypair K (fst ci1))) = Return (replyI, ssI) \<and>
    responder_reply (pe_hs P) K kR sR r (fst (kem_keypair K (fst cp1))) = Return (replyR, ssR) \<and>
    (\<forall>rms s out. list_all msg_ok rms \<and> length rms \<le> 2 ^ 64 \<and>
      concat (map snd rms) = envelope_line RELAY_ACK ack_ok @ [10] @ to_dialer \<and>
      ws_link lk s (replyI @ relay_frames P ssI rms) out \<longrightarrow>
      (\<exists>conn conn' sc base. op_dial P (ws_ops L) ci1 ci2 i (fingerprint (pe_hs P) r) (fingerprint (pe_hs P) p) s = Return conn \<and>
        client_initiate (sc_ops P (sc_ops P (ws_ops L))) conn = (conn', [client_event (u ''PONG_FROM_PY'')], Return ()) \<and>
        inner_conn conn' = Some sc \<and> sc_link (pe_aead P) (ws_link lk) base sc []
          (envelope_line RELAY_REQ (relay_req_payload (bytes_hex (fingerprint (pe_hs P) p))) @ [10] @ to_peer))) \<and>
    (\<forall>rms s out. list_all msg_ok rms \<and> length rms \<le> 2 ^ 64 \<and> concat (map snd rms) = to_peer \<and>
      tcp_link s (replyR @ relay_frames P ssR rms) out \<longrightarrow>
      (\<exists>conn conn' sc base. op_accept Q tcp_ops cp1 cp2 p (fingerprint (pe_hs P) r) (fingerprint (pe_hs P) i) pl s = Return conn \<and>
        client_respond (sc_ops Q (sc_ops Q tcp_ops)) False conn = Some (conn', [client_event (u ''PING_FROM_PY'')], Return ()) \<and>
        inner_conn conn' = Some sc \<and> sc_link (pe_aead P) tcp_link base sc []
          (envelope_line ACCEPT_RELAY (accept_relay_payload token) @ [10] @ to_dialer)))"
  by (rule peer_legs.peers_exchange [OF ws_tcp_legs [OF assms(1)] assms(2-13)])

theorem peers_reach_each_other_witness:
  "\<exists>wireI wireR conn conn' connR connR'.
     op_dial toy_p2p (ws_ops toy_ws) (0, 0) (0, 0) toy_id (fingerprint toy_env toy_id) (fingerprint toy_env toy_id)
       (WsConn_init ([WsBinary wireI], []) None None) = Return conn \<and>
     client_initiate (sc_ops toy_p2p (sc_ops toy_p2p (ws_ops toy_ws))) conn =
       (conn', [client_event (u ''PONG_FROM_PY'')], Return ()) \<and>
     op_accept toy_p2p tcp_ops (0, 0) (0, 0) toy_id (fingerprint toy_env toy_id) (fingerprint toy_env toy_id)
       (JObj [(u ''session_token'', JStr (u ''t''))]) (toy_tcp [wireR]) = Return connR \<and>
     client_respond (sc_ops toy_p2p (sc_ops toy_p2p tcp_ops)) False connR =
       Some (connR', [client_event (u ''PING_FROM_PY'')], Return ())"
proof -
  note h = peers_reach_each_other [where P = toy_p2p and Q = toy_p2p and i = toy_id and p = toy_id and r = toy_id and
      gi = 1 and gp = 1 and gr = 1 and ?ci1.0 = "(0, 0)" and ?ci2.0 = "(0, 0)" and ?cp1.0 = "(0, 0)" and ?cp2.0 = "(0, 0)" and
      kI = 0 and sI = 0 and kR = 0 and sR = 0, OF toy_ws_ok, unfolded toy_p2p_sel,
      OF toy_env_ok toy_aead_ok refl refl refl refl toy_id_generated toy_id_generated toy_id_generated toy_token]
  then show ?thesis
  proof (elim exE conjE, goal_cases)
    case (1 K replyI ssI replyR ssR to_peer to_dialer)
    let ?rI = "[(0, envelope_line RELAY_ACK ack_ok @ [10] @ to_dialer)]" and ?rR = "[(0, to_peer)]"
    have ne: "replyI @ relay_frames toy_p2p ssI ?rI \<noteq> []" using 1(2) by auto
    have dI: "length ?rI \<le> 2 ^ 64" "concat (map snd ?rI) = envelope_line RELAY_ACK ack_ok @ [10] @ to_dialer"
      and dR: "length ?rR \<le> 2 ^ 64" "concat (map snd ?rR) = to_peer" by simp_all
    note I = 1(8) [rule_format, OF conjI [OF toy_leg_sizes(2) [OF 1(5)] conjI [OF dI(1) conjI [OF dI(2) toy_ws_link [OF ne]]]]]
    note R = 1(9) [rule_format, OF conjI [OF toy_leg_sizes(1) [OF 1(4)] conjI [OF dR(1) conjI [OF dR(2) toy_wire_link [OF 1(3)]]]]]
    from I R show ?case by (elim exE conjE) (intro exI conjI)
  qed
qed

end
